(* ===== verification/Go_Prelude.thy ===== *)
theory Go_Prelude
  imports Main "HOL-Library.AList" "HOL-Library.Multiset" "HOL-Library.List_Lexorder"
    "HOL-Library.Char_ord" "HOL-Library.Sublist"
begin

text \<open>
  The fragment of Go that the components share: 64-bit and 32-bit integers, the error
  values of \<open>errors\<close> and \<open>fmt.Errorf\<close> with every sentinel error of the domain packages,
  Go maps as association lists, \<open>sort.Slice\<close>, and the functions of \<open>strings\<close>, \<open>strconv\<close> and
  \<open>net\<close> that the sources call. Strings are byte strings (\<open>char list\<close>); the order on them
  is the bytewise lexicographic one of Go's \<open><\<close>. Instants (\<open>time.Time\<close>) are integers
  (nanoseconds), so \<open>Before\<close>, \<open>After\<close> and \<open>Equal\<close> are \<open><\<close>, \<open>>\<close> and \<open>=\<close>.
\<close>

named_theorems go_int \<open>facts about wrapped Go integers\<close>
named_theorems go_err \<open>error chains\<close>
named_theorems go_map \<open>Go maps as association lists\<close>

section \<open>Integers\<close>

text \<open>Arithmetic on \<open>int\<close> and \<open>int64\<close> wraps at 64 bits, a conversion to \<open>int32\<close> at 32 bits.\<close>

definition int64 :: "int \<Rightarrow> int" where
  "int64 x = signed_take_bit 63 x"

definition int32 :: "int \<Rightarrow> int" where
  "int32 x = signed_take_bit 31 x"

definition in_int64 :: "int \<Rightarrow> bool" where
  "in_int64 x \<longleftrightarrow> - (2 ^ 63) \<le> x \<and> x < 2 ^ 63"

definition in_int32 :: "int \<Rightarrow> bool" where
  "in_int32 x \<longleftrightarrow> - (2 ^ 31) \<le> x \<and> x < 2 ^ 31"

lemma int64_id [go_int]: "in_int64 x \<Longrightarrow> int64 x = x"
  by (simp add: int64_def in_int64_def signed_take_bit_int_eq_self)

lemma int32_id [go_int]: "in_int32 x \<Longrightarrow> int32 x = x"
  by (simp add: int32_def in_int32_def signed_take_bit_int_eq_self)

lemma in_int64_int64 [simp]: "in_int64 (int64 x)"
  using signed_take_bit_int_greater_eq_minus_exp [of 63 x] signed_take_bit_int_less_exp [of 63 x]
  unfolding in_int64_def int64_def by blast

lemma in_int64_bounded: "- 9223372036854775808 \<le> x \<Longrightarrow> x \<le> 9223372036854775807 \<Longrightarrow> in_int64 x"
  by (simp add: in_int64_def)

lemma int64_small: "- 9223372036854775808 \<le> x \<Longrightarrow> x \<le> 9223372036854775807 \<Longrightarrow> int64 x = x"
  by (simp add: int64_id in_int64_bounded)

lemma in_int64_between: "in_int64 a \<Longrightarrow> in_int64 b \<Longrightarrow> a \<le> x \<Longrightarrow> x \<le> b \<Longrightarrow> in_int64 x"
  by (simp add: in_int64_def)

lemma int64_add_left [go_int]: "int64 (int64 a + b) = int64 (a + b)"
  unfolding int64_def by (metis signed_take_bit_add signed_take_bit_signed_take_bit min.idem)

section \<open>Error values\<close>

text \<open>
  The sentinel errors of \<open>internal/domain\<close>, \<open>internal/auth\<close>, \<open>database/sql\<close>, \<open>go-redis\<close> and
  \<open>context\<close> that the sources compare with.
\<close>

datatype sentinel =
    ErrProfileNotFound | ErrProfileAlreadyExists
  | ErrPoolNotFound | ErrInvalidCount | ErrEmptyPool
  | ErrEventNotFound | ErrEventAlreadyExists | ErrInvalidWindow | ErrNotOngoing | ErrInvalidDelta
  | ErrPlayerNotRanked | ErrInvalidLimit
  | ErrInvalidDamage | ErrHPNotFound
  | ErrInvalidToken
  | SqlErrNoRows | RedisNil | CtxDone

text \<open>The code of an \<open>apperror.Error\<close>; \<open>OtherCode\<close> stands for any other value of the string type.\<close>

datatype app_code = CodeValidation | CodeNotFound | CodeConflict | CodeInternal | OtherCode string

record field_error =
  fe_Field :: string
  fe_Tag :: string
  fe_Message :: string

text \<open>
  \<open>Wrap p e\<close> is \<open>fmt.Errorf("p: %w", e)\<close>, \<open>WrapFront e t\<close> is \<open>fmt.Errorf("%w: t", e)\<close>,
  \<open>AppError c m fs cause\<close> is a \<open>*apperror.Error\<close>, \<open>Panic m\<close> a run-time panic.
\<close>

datatype go_error =
    Sentinel sentinel
  | ErrorString string
  | Wrap string go_error
  | WrapFront go_error string
  | MySQLError nat string
  | AppError app_code string "field_error list" "go_error option"
  | Panic string

type_synonym 'a result = "go_error + 'a"

fun sentinel_text :: "sentinel \<Rightarrow> string" where
  "sentinel_text ErrProfileNotFound = ''profile not found''"
| "sentinel_text ErrProfileAlreadyExists = ''profile already exists''"
| "sentinel_text ErrPoolNotFound = ''gacha pool not found''"
| "sentinel_text ErrInvalidCount = ''invalid roll count (must be 1..10)''"
| "sentinel_text ErrEmptyPool = ''gacha pool has no cards''"
| "sentinel_text ErrEventNotFound = ''event not found''"
| "sentinel_text ErrEventAlreadyExists = ''event already exists''"
| "sentinel_text ErrInvalidWindow = ''event time window is invalid (start must be before end)''"
| "sentinel_text ErrNotOngoing =
     ''event is not ongoing '' @ [CHR 0xE2, CHR 0x80, CHR 0x94] @ '' cannot accumulate points''"
| "sentinel_text ErrInvalidDelta = ''invalid score delta''"
| "sentinel_text ErrPlayerNotRanked = ''player not in ranking''"
| "sentinel_text ErrInvalidLimit = ''invalid limit''"
| "sentinel_text ErrInvalidDamage = ''damage must be 1..MaxDamagePerRequest''"
| "sentinel_text ErrHPNotFound = ''player hp not found''"
| "sentinel_text ErrInvalidToken = ''auth: invalid token''"
| "sentinel_text SqlErrNoRows = ''sql: no rows in result set''"
| "sentinel_text RedisNil = ''redis: nil''"
| "sentinel_text CtxDone = ''context deadline exceeded''"

fun code_text :: "app_code \<Rightarrow> string" where
  "code_text CodeValidation = ''VALIDATION_FAILED''"
| "code_text CodeNotFound = ''NOT_FOUND''"
| "code_text CodeConflict = ''CONFLICT''"
| "code_text CodeInternal = ''INTERNAL''"
| "code_text (OtherCode s) = s"

text \<open>\<open>err.Error()\<close>.\<close>

fun error_text :: "go_error \<Rightarrow> string" where
  "error_text (Sentinel s) = sentinel_text s"
| "error_text (ErrorString m) = m"
| "error_text (Wrap p e) = p @ '': '' @ error_text e"
| "error_text (WrapFront e t) = error_text e @ '': '' @ t"
| "error_text (MySQLError n m) = m"
| "error_text (AppError c m fs None) = code_text c @ '': '' @ m"
| "error_text (AppError c m fs (Some e)) =
     code_text c @ '': '' @ m @ '' (cause: '' @ error_text e @ '')''"
| "error_text (Panic m) = m"

text \<open>\<open>errors.Is(err, sentinel)\<close> and \<open>errors.As\<close> walk the \<open>Unwrap\<close> chain.\<close>

fun errors_Is :: "go_error \<Rightarrow> sentinel \<Rightarrow> bool" where
  "errors_Is (Sentinel s) t \<longleftrightarrow> s = t"
| "errors_Is (ErrorString m) t \<longleftrightarrow> False"
| "errors_Is (Wrap p e) t \<longleftrightarrow> errors_Is e t"
| "errors_Is (WrapFront e x) t \<longleftrightarrow> errors_Is e t"
| "errors_Is (MySQLError n m) t \<longleftrightarrow> False"
| "errors_Is (AppError c m fs None) t \<longleftrightarrow> False"
| "errors_Is (AppError c m fs (Some e)) t \<longleftrightarrow> errors_Is e t"
| "errors_Is (Panic m) t \<longleftrightarrow> False"

fun errors_As_App :: "go_error \<Rightarrow> go_error option" where
  "errors_As_App (AppError c m fs cause) = Some (AppError c m fs cause)"
| "errors_As_App (Wrap p e) = errors_As_App e"
| "errors_As_App (WrapFront e x) = errors_As_App e"
| "errors_As_App _ = None"

fun errors_As_MySQL :: "go_error \<Rightarrow> nat option" where
  "errors_As_MySQL (MySQLError n m) = Some n"
| "errors_As_MySQL (Wrap p e) = errors_As_MySQL e"
| "errors_As_MySQL (WrapFront e x) = errors_As_MySQL e"
| "errors_As_MySQL (AppError c m fs (Some e)) = errors_As_MySQL e"
| "errors_As_MySQL _ = None"

text \<open>The sentinel at the end of a chain is unique: an error is at most one of them.\<close>

lemma errors_Is_unique [go_err]: "errors_Is e s \<Longrightarrow> errors_Is e t \<Longrightarrow> s = t"
  by (induction e s rule: errors_Is.induct) auto

lemma errors_Is_not [go_err]: "errors_Is e s \<Longrightarrow> s \<noteq> t \<Longrightarrow> \<not> errors_Is e t"
  by (blast dest: errors_Is_unique)

section \<open>Go maps\<close>

text \<open>
  A Go map is an association list with distinct keys: \<open>m[k]\<close> is \<open>map_of m k\<close>, \<open>m[k] = v\<close> is
  \<open>AList.update k v m\<close>, \<open>delete(m, k)\<close> is \<open>AList.delete k m\<close>, \<open>len(m)\<close> is \<open>length m\<close>, and
  \<open>range m\<close> enumerates the list. Go leaves the order of the enumeration open; where a result
  could depend on it, the theorems quantify over every permutation.
\<close>

type_synonym ('k, 'v) gomap = "('k \<times> 'v) list"

definition gomap_wf :: "('k, 'v) gomap \<Rightarrow> bool" where
  "gomap_wf m \<longleftrightarrow> distinct (map fst m)"

lemma gomap_wf_Nil [simp, go_map]: "gomap_wf []"
  by (simp add: gomap_wf_def)

lemma gomap_wf_update [simp, go_map]: "gomap_wf m \<Longrightarrow> gomap_wf (AList.update k v m)"
  by (simp add: gomap_wf_def distinct_update)

lemma gomap_wf_delete [simp, go_map]: "gomap_wf m \<Longrightarrow> gomap_wf (AList.delete k m)"
  by (simp add: gomap_wf_def distinct_delete)

lemma gomap_wf_filter [simp, go_map]: "gomap_wf m \<Longrightarrow> gomap_wf (filter p m)"
  by (simp add: gomap_wf_def distinct_map_filter)

lemma map_of_update_eq [simp, go_map]: "map_of (AList.update k v m) k = Some v"
  by (simp add: update_conv')

lemma map_of_update_neq [simp, go_map]: "k' \<noteq> k \<Longrightarrow> map_of (AList.update k v m) k' = map_of m k'"
  by (simp add: update_conv')

lemma set_update_subset [go_map]: "set (AList.update k v m) \<subseteq> insert (k, v) (set m)"
  by (induction m) auto

lemma map_of_delete_eq [simp, go_map]: "map_of (AList.delete k m) k = None"
  by (simp add: delete_conv')

lemma map_of_filter_snd [go_map]:
  "gomap_wf m \<Longrightarrow> map_of (filter (\<lambda>(k, v). p v) m) k =
     (case map_of m k of None \<Rightarrow> None | Some v \<Rightarrow> if p v then Some v else None)"
proof (induction m)
  case Nil
  then show ?case by simp
next
  case (Cons a m)
  then have "fst a \<notin> fst ` set m" by (simp add: gomap_wf_def)
  then have "map_of m (fst a) = None" by (simp add: map_of_eq_None_iff)
  with Cons show ?case by (cases a) (auto simp: gomap_wf_def split: option.splits)
qed

lemma length_update_new [go_map]:
  "map_of m k = None \<Longrightarrow> length (AList.update k v m) = Suc (length m)"
  by (induction m) (auto split: if_splits)

lemma length_update_old [go_map]:
  "map_of m k = Some w \<Longrightarrow> length (AList.update k v m) = length m"
  by (induction m) (auto split: if_splits)

lemma length_filter_split: "length (filter p xs) + length (filter (\<lambda>x. \<not> p x) xs) = length xs"
  by (induction xs) auto

section \<open>sort.Slice\<close>

text \<open>
  \<open>sort.Slice(xs, less)\<close> permutes \<open>xs\<close> into an order in which no element is \<open>less\<close> than one
  before it. The model is an insertion sort; the laws below say that it is such a permutation,
  and \<open>sorted_perm_unique\<close> that every other one is equal to it where \<open>less\<close> is total, so that the
  choice of the (unstable) algorithm does not matter there.
\<close>

fun insert_by :: "('a \<Rightarrow> 'a \<Rightarrow> bool) \<Rightarrow> 'a \<Rightarrow> 'a list \<Rightarrow> 'a list" where
  "insert_by lt x [] = [x]"
| "insert_by lt x (y # ys) = (if lt y x then y # insert_by lt x ys else x # y # ys)"

definition sort_Slice :: "('a \<Rightarrow> 'a \<Rightarrow> bool) \<Rightarrow> 'a list \<Rightarrow> 'a list" where
  "sort_Slice lt xs = foldr (insert_by lt) xs []"

definition sorted_by :: "('a \<Rightarrow> 'a \<Rightarrow> bool) \<Rightarrow> 'a list \<Rightarrow> bool" where
  "sorted_by lt xs \<longleftrightarrow> sorted_wrt (\<lambda>a b. \<not> lt b a) xs"

lemma mset_insert_by [simp]: "mset (insert_by lt x xs) = add_mset x (mset xs)"
  by (induction xs) auto

lemma mset_sort_Slice [simp]: "mset (sort_Slice lt xs) = mset xs"
  by (induction xs) (auto simp: sort_Slice_def)

lemma set_sort_Slice [simp]: "set (sort_Slice lt xs) = set xs"
  by (metis mset_sort_Slice set_mset_mset)

lemma length_sort_Slice [simp]: "length (sort_Slice lt xs) = length xs"
  by (metis mset_sort_Slice size_mset)

lemma sorted_perm_unique:
  assumes "sorted_wrt le xs" "sorted_wrt le ys" "mset xs = mset ys"
    and "\<And>a b. a \<in> set xs \<Longrightarrow> b \<in> set xs \<Longrightarrow> le a b \<Longrightarrow> le b a \<Longrightarrow> a = b"
  shows "xs = ys"
  using assms
proof (induction xs arbitrary: ys)
  case Nil
  then show ?case by simp
next
  case (Cons x xs)
  then obtain y ys' where ys: "ys = y # ys'"
    by (cases ys) auto
  have sets: "set (x # xs) = set (y # ys')"
    using Cons.prems(3) ys by (metis set_mset_mset)
  have "x = y"
  proof (rule ccontr)
    assume neq: "x \<noteq> y"
    with sets have "y \<in> set xs" "x \<in> set ys'" by auto
    with Cons.prems(1,2) ys have "le x y" "le y x" by auto
    with Cons.prems(4) [of x y] \<open>y \<in> set xs\<close> neq show False by auto
  qed
  with Cons ys show ?case by auto
qed

text \<open>The contract of the \<open>lt\<close> argument: a strict weak order.\<close>

locale strict_weak_less =
  fixes lt :: "'a \<Rightarrow> 'a \<Rightarrow> bool"
  assumes asym: "lt a b \<Longrightarrow> \<not> lt b a"
    and neg_trans: "\<not> lt b a \<Longrightarrow> \<not> lt c b \<Longrightarrow> \<not> lt c a"
begin

lemma sorted_by_insert_by: "sorted_by lt xs \<Longrightarrow> sorted_by lt (insert_by lt x xs)"
proof (induction xs)
  case Nil
  then show ?case by (simp add: sorted_by_def)
next
  case (Cons y ys)
  show ?case
  proof (cases "lt y x")
    case True
    then have "\<not> lt x y" by (rule asym)
    moreover have "set (insert_by lt x ys) = insert x (set ys)"
      by (metis mset_insert_by set_mset_add_mset_insert set_mset_mset)
    ultimately show ?thesis
      using Cons True by (auto simp: sorted_by_def)
  next
    case False
    then show ?thesis
      using Cons.prems neg_trans [of y x] by (auto simp: sorted_by_def)
  qed
qed

lemma sorted_by_sort_Slice: "sorted_by lt (sort_Slice lt xs)"
proof (induction xs)
  case Nil
  show ?case by (simp add: sort_Slice_def sorted_by_def)
next
  case (Cons x xs)
  then show ?case by (simp add: sort_Slice_def sorted_by_insert_by)
qed

lemma sort_Slice_unique:
  assumes "sorted_by lt ys" "mset ys = mset xs"
    and "\<And>a b. a \<in> set xs \<Longrightarrow> b \<in> set xs \<Longrightarrow> a \<noteq> b \<Longrightarrow> lt a b \<or> lt b a"
  shows "ys = sort_Slice lt xs"
proof -
  have "sorted_wrt (\<lambda>a b. \<not> lt b a) (sort_Slice lt xs)"
    using sorted_by_sort_Slice by (simp add: sorted_by_def)
  moreover have "set ys = set xs"
    using assms(2) by (metis set_mset_mset)
  ultimately show ?thesis
    using assms by (intro sorted_perm_unique [of "\<lambda>a b. \<not> lt b a"]) (auto simp: sorted_by_def)
qed

end

text \<open>A comparison of integer keys is such an order.\<close>

interpretation key_less: strict_weak_less "\<lambda>a b. (f a :: int) < f b" for f
  by unfold_locales auto

section \<open>strings, strconv, net\<close>

text \<open>\<open>strings.Index(s, c)\<close> for a one-byte \<open>c\<close>, and the last index; \<open>None\<close> is \<open>-1\<close>.\<close>

fun index_byte :: "char \<Rightarrow> string \<Rightarrow> nat option" where
  "index_byte c [] = None"
| "index_byte c (x # xs) = (if x = c then Some 0 else map_option Suc (index_byte c xs))"

fun last_index_byte :: "char \<Rightarrow> string \<Rightarrow> nat option" where
  "last_index_byte c [] = None"
| "last_index_byte c (x # xs) =
     (case last_index_byte c xs of Some i \<Rightarrow> Some (Suc i) | None \<Rightarrow> if x = c then Some 0 else None)"

lemma index_byte_None [simp]: "index_byte c s = None \<longleftrightarrow> c \<notin> set s"
  by (induction s) auto

lemma index_byte_append: "c \<notin> set a \<Longrightarrow> index_byte c (a @ c # b) = Some (length a)"
  by (induction a) auto

text \<open>The UTF-8 encodings of the code points that \<open>unicode.IsSpace\<close> accepts.\<close>

definition space_encodings :: "string list" where
  "space_encodings =
     [[CHR 0x20], [CHR 0x09], [CHR 0x0A], [CHR 0x0B], [CHR 0x0C], [CHR 0x0D],
      [CHR 0xC2, CHR 0x85], [CHR 0xC2, CHR 0xA0], [CHR 0xE1, CHR 0x9A, CHR 0x80],
      [CHR 0xE2, CHR 0x80, CHR 0x80], [CHR 0xE2, CHR 0x80, CHR 0x81], [CHR 0xE2, CHR 0x80, CHR 0x82],
      [CHR 0xE2, CHR 0x80, CHR 0x83], [CHR 0xE2, CHR 0x80, CHR 0x84], [CHR 0xE2, CHR 0x80, CHR 0x85],
      [CHR 0xE2, CHR 0x80, CHR 0x86], [CHR 0xE2, CHR 0x80, CHR 0x87], [CHR 0xE2, CHR 0x80, CHR 0x88],
      [CHR 0xE2, CHR 0x80, CHR 0x89], [CHR 0xE2, CHR 0x80, CHR 0x8A], [CHR 0xE2, CHR 0x80, CHR 0xA8],
      [CHR 0xE2, CHR 0x80, CHR 0xA9], [CHR 0xE2, CHR 0x80, CHR 0xAF], [CHR 0xE2, CHR 0x81, CHR 0x9F],
      [CHR 0xE3, CHR 0x80, CHR 0x80]]"

text \<open>Drop prefixes from a list of nonempty words; at most one per byte of the string.\<close>

fun drop_words :: "nat \<Rightarrow> string list \<Rightarrow> string \<Rightarrow> string" where
  "drop_words 0 ws s = s"
| "drop_words (Suc n) ws s =
     (case find (\<lambda>w. prefix w s) ws of None \<Rightarrow> s | Some w \<Rightarrow> drop_words n ws (drop (length w) s))"

definition strings_TrimSpace :: "string \<Rightarrow> string" where
  "strings_TrimSpace s =
     (let l = drop_words (length s) space_encodings s
      in rev (drop_words (length l) (map rev space_encodings) (rev l)))"

lemma drop_words_no_prefix:
  assumes "[] \<notin> set ws" "length s \<le> n" "w \<in> set ws"
  shows "\<not> prefix w (drop_words n ws s)"
  using assms
proof (induction n ws s rule: drop_words.induct)
  case (1 ws s)
  then show ?case by auto
next
  case (2 n ws s)
  show ?case
  proof (cases "find (\<lambda>w. prefix w s) ws")
    case None
    then have "\<not> prefix w s" using "2.prems"(3) by (auto simp: find_None_iff)
    with None show ?thesis by simp
  next
    case (Some v)
    then have "v \<in> set ws" "prefix v s" by (auto simp: find_Some_iff)
    with "2.prems"(1) have "v \<noteq> []" by auto
    with "2.prems"(2) have "length (drop (length v) s) \<le> n" by (cases v) auto
    with Some "2.prems" "2.IH" [OF Some] show ?thesis by simp
  qed
qed

text \<open>
  ASCII case folding, which is what \<open>strings.EqualFold\<close> does on the letters of the word it is
  called with here (\<open>bearer\<close>: none of its letters folds with a code point beyond ASCII).
\<close>

definition lower_byte :: "char \<Rightarrow> char" where
  "lower_byte c = (if CHR ''A'' \<le> c \<and> c \<le> CHR ''Z'' then char_of (of_char c + (32::nat)) else c)"

definition strings_EqualFold :: "string \<Rightarrow> string \<Rightarrow> bool" where
  "strings_EqualFold a b \<longleftrightarrow> map lower_byte a = map lower_byte b"

text \<open>\<open>strconv.Atoi\<close>: an optional sign, at least one decimal digit, a value of 64 bits.\<close>

definition digit_val :: "char \<Rightarrow> int option" where
  "digit_val c = (let n = (of_char c :: nat) in if 48 \<le> n \<and> n \<le> 57 then Some (int n - 48) else None)"

fun digits_val :: "int \<Rightarrow> string \<Rightarrow> int option" where
  "digits_val acc [] = Some acc"
| "digits_val acc (c # cs) =
     (case digit_val c of None \<Rightarrow> None | Some d \<Rightarrow> digits_val (acc * 10 + d) cs)"

definition strconv_Atoi :: "string \<Rightarrow> int option" where
  "strconv_Atoi s =
     (let (sgn', ds) = (case s of [] \<Rightarrow> (1, [])
                        | c # cs \<Rightarrow> if c = CHR ''-'' then (-1, cs) else if c = CHR ''+'' then (1, cs) else (1, s))
      in if ds = [] then None
         else case digits_val 0 ds of None \<Rightarrow> None
              | Some n \<Rightarrow> if in_int64 (sgn' * n) then Some (sgn' * n) else None)"

lemma strconv_Atoi_in_int64: "strconv_Atoi s = Some n \<Longrightarrow> in_int64 n"
  by (auto simp: strconv_Atoi_def Let_def split: list.splits if_splits option.splits)

text \<open>\<open>strconv.Itoa\<close> and the verb \<open>%d\<close>.\<close>

fun itoa_nat :: "nat \<Rightarrow> string" where
  "itoa_nat n = (if n < 10 then [char_of (48 + n)] else itoa_nat (n div 10) @ [char_of (48 + n mod 10)])"

declare itoa_nat.simps [simp del]

definition itoa_int :: "int \<Rightarrow> string" where
  "itoa_int n = (if n < 0 then ''-'' @ itoa_nat (nat (- n)) else itoa_nat (nat n))"

lemma digits_val_append:
  "digits_val acc (xs @ ys) = (case digits_val acc xs of None \<Rightarrow> None | Some a \<Rightarrow> digits_val a ys)"
  by (induction xs arbitrary: acc) (auto split: option.splits)

lemma digits_val_digit: "d < 10 \<Longrightarrow> digits_val acc [char_of (48 + d)] = Some (acc * 10 + int d)"
  by (simp add: digit_val_def Let_def)

lemma digits_val_itoa: "digits_val 0 (itoa_nat n) = Some (int n)"
proof (induction n rule: itoa_nat.induct)
  case (1 n)
  show ?case
  proof (cases "n < 10")
    case True
    then show ?thesis using digits_val_digit [OF True, of 0] by (subst itoa_nat.simps) simp
  next
    case False
    have "int n = int (n div 10) * 10 + int (n mod 10)" by (simp add: zdiv_int zmod_int)
    with 1 [OF False] False digits_val_digit [of "n mod 10" "int (n div 10)"] show ?thesis
      by (subst itoa_nat.simps) (simp only: digits_val_append if_False option.case)
  qed
qed

lemma itoa_nat_inj: "itoa_nat m = itoa_nat n \<longleftrightarrow> m = n"
  by (metis digits_val_itoa of_nat_eq_iff option.inject)

text \<open>\<open>net.SplitHostPort\<close>, the host part only (\<open>None\<close> is the error).\<close>

definition net_SplitHost :: "string \<Rightarrow> string option" where
  "net_SplitHost hp =
     (case last_index_byte (CHR '':'') hp of
        None \<Rightarrow> None
      | Some i \<Rightarrow>
          if take 1 hp = ''['' then
            (case index_byte (CHR '']'') hp of
               None \<Rightarrow> None
             | Some e \<Rightarrow>
                 if Suc e \<noteq> i then None
                 else if CHR ''['' \<in> set (drop 1 hp) \<or> CHR '']'' \<in> set (drop (Suc e) hp) then None
                 else Some (drop 1 (take e hp)))
          else
            (if CHR '':'' \<in> set (take i hp) \<or> CHR ''['' \<in> set hp \<or> CHR '']'' \<in> set hp then None
             else Some (take i hp)))"

section \<open>Keys built with a separator\<close>

text \<open>
  The in-memory repositories build map keys as \<open>a + "/" + b\<close>. The key determines both parts
  when one side is known to be free of the separator.
\<close>

definition slash_free :: "string \<Rightarrow> bool" where
  "slash_free s \<longleftrightarrow> CHR ''/'' \<notin> set s"

lemma sep_key_inj_left:
  assumes "a @ c # b = a' @ c # b'" "c \<notin> set a" "c \<notin> set a'"
  shows "a = a' \<and> b = b'"
  using assms
proof (induction a arbitrary: a')
  case Nil
  then show ?case by (cases a') auto
next
  case (Cons x a)
  then show ?case by (cases a') auto
qed

lemma sep_key_inj_right:
  assumes "a @ c # b = a' @ c # b'" "c \<notin> set b" "c \<notin> set b'"
  shows "a = a' \<and> b = b'"
proof -
  have "rev b @ c # rev a = rev b' @ c # rev a'"
    using arg_cong [OF assms(1), of rev] by simp
  from sep_key_inj_left [OF this] assms(2,3) show ?thesis by simp
qed

section \<open>Results\<close>

text \<open>\<open>if err != nil { return nil, fmt.Errorf("p: %w", err) }\<close>.\<close>

definition wrap_result :: "string \<Rightarrow> 'a result \<Rightarrow> 'a result" where
  "wrap_result p r = (case r of Inl e \<Rightarrow> Inl (Wrap p e) | Inr x \<Rightarrow> Inr x)"

lemma wrap_result_simps [simp]:
  "wrap_result p (Inl e) = Inl (Wrap p e)"
  "wrap_result p (Inr x) = Inr x"
  by (simp_all add: wrap_result_def)

lemma wrap_result_Inr_iff [simp]: "wrap_result p r = Inr x \<longleftrightarrow> r = Inr x"
  by (cases r) auto

end
