(* ===== verification/Go_World.thy ===== *)
theory Go_World
  imports Go_Prelude
begin

text \<open>
  The environment that a call can observe, and the fields of a larger state that a component owns.
  \<open>env\<close> holds arbitrary streams: the results of the random source, of \<open>uuid.NewV7\<close> and of
  \<open>time.Now\<close>, read at a position that advances with every read. A theorem for every \<open>env\<close> is a
  theorem for every behaviour of these sources. A \<open>field\<close> is a component's place in a state, so
  that the operations of a repository, written on the repository's own state, run inside the state
  of the whole server.
\<close>

section \<open>Environment\<close>

record env =
  env_rng :: "nat \<Rightarrow> nat"
  env_uuid :: "nat \<Rightarrow> string result"
  env_clock :: "nat \<Rightarrow> int"
  env_pos :: nat

definition env_tick :: "env \<Rightarrow> env" where
  "env_tick e = e\<lparr>env_pos := Suc (env_pos e)\<rparr>"

text \<open>\<open>rand.Rand.IntN(n)\<close> for \<open>n > 0\<close>: some value in \<open>[0, n)\<close>.\<close>

definition rand_IntN :: "int \<Rightarrow> env \<Rightarrow> int \<times> env" where
  "rand_IntN n e = (int (env_rng e (env_pos e)) mod n, env_tick e)"

definition uuid_NewV7 :: "env \<Rightarrow> string result \<times> env" where
  "uuid_NewV7 e = (env_uuid e (env_pos e), env_tick e)"

definition time_Now :: "env \<Rightarrow> int \<times> env" where
  "time_Now e = (env_clock e (env_pos e), env_tick e)"

lemma env_tick_simps [simp]:
  "env_pos (env_tick e) = Suc (env_pos e)" "env_rng (env_tick e) = env_rng e"
  "env_uuid (env_tick e) = env_uuid e" "env_clock (env_tick e) = env_clock e"
  by (simp_all add: env_tick_def)

lemma rand_IntN_range: "0 < n \<Longrightarrow> rand_IntN n e = (k, e') \<Longrightarrow> 0 \<le> k \<and> k < n"
  by (auto simp: rand_IntN_def)

section \<open>Fields of a state\<close>

record ('s, 'a) field =
  fget :: "'s \<Rightarrow> 'a"
  fput :: "'a \<Rightarrow> 's \<Rightarrow> 's"

definition on_field :: "('s, 'a) field \<Rightarrow> ('a \<Rightarrow> 'r \<times> 'a) \<Rightarrow> 's \<Rightarrow> 'r \<times> 's" where
  "on_field f op s = (let (r, a) = op (fget f s) in (r, fput f a s))"

locale state_field =
  fixes f :: "('s, 'a) field"
  assumes get_put [simp]: "fget f (fput f a s) = a"
    and put_get [simp]: "fput f (fget f s) s = s"
    and put_put [simp]: "fput f a (fput f b s) = fput f a s"
begin

lemma on_fieldE:
  assumes "on_field f op s = (r, s')"
  obtains a where "op (fget f s) = (r, a)" "s' = fput f a s" "fget f s' = a"
  using assms by (auto simp: on_field_def split: prod.splits)

lemma on_field_readonly:
  "op (fget f s) = (r, fget f s) \<Longrightarrow> on_field f op s = (r, s)"
  by (simp add: on_field_def)

end

text \<open>Two fields that do not overlap.\<close>

locale two_fields = fst_field: state_field f + snd_field: state_field g
  for f :: "('s, 'a) field" and g :: "('s, 'b) field" +
  assumes get_f_put_g [simp]: "fget f (fput g b s) = fget f s"
    and get_g_put_f [simp]: "fget g (fput f a s) = fget g s"
begin

lemma on_g_keeps_f: "on_field g op s = (r, s') \<Longrightarrow> fget f s' = fget f s"
  by (auto elim!: snd_field.on_fieldE)

lemma on_f_keeps_g: "on_field f op s = (r, s') \<Longrightarrow> fget g s' = fget g s"
  by (auto elim!: fst_field.on_fieldE)

end

text \<open>The two components of a pair are such fields.\<close>

definition fst_of :: "('a \<times> 'b, 'a) field" where
  "fst_of = \<lparr>fget = fst, fput = (\<lambda>a s. (a, snd s))\<rparr>"

definition snd_of :: "('a \<times> 'b, 'b) field" where
  "snd_of = \<lparr>fget = snd, fput = (\<lambda>b s. (fst s, b))\<rparr>"

lemma pair_field_get [simp]: "fget fst_of = fst" "fget snd_of = snd"
  by (simp_all add: fst_of_def snd_of_def)

interpretation pair_fields: two_fields fst_of snd_of
  by unfold_locales (auto simp: fst_of_def snd_of_def)

end
