(* ===== verification/Gacha_Domain.thy ===== *)
theory Gacha_Domain
  imports Go_World
begin

text \<open>
  \<open>internal/domain/gacha\<close> (cards, pools, rolls, the weighted choice) and the static pool registry of
  \<open>internal/service/gacha/pool_data.go\<close>. The lemmas count, for every card, the values of the random
  draw that select it.
\<close>

section \<open>gacha.go\<close>

text \<open>\<open>type Rarity string\<close>, with three known values.\<close>

type_synonym Rarity = string

definition RarityR :: Rarity where "RarityR = ''R''"
definition RaritySR :: Rarity where "RaritySR = ''SR''"
definition RaritySSR :: Rarity where "RaritySSR = ''SSR''"

lemmas rarity_defs = RarityR_def RaritySR_def RaritySSR_def

definition Rarity_IsValid :: "Rarity \<Rightarrow> bool" where
  "Rarity_IsValid r \<longleftrightarrow> r = RarityR \<or> r = RaritySR \<or> r = RaritySSR"

record Card =
  ca_ID :: string
  ca_Name :: string
  ca_Rarity :: Rarity
  ca_Weight :: int

record Pool =
  po_ID :: string
  po_Name :: string
  po_PityThreshold :: int
  po_Cards :: "Card list"

record Roll =
  ro_ID :: string
  ro_PlayerID :: string
  ro_PoolID :: string
  ro_CardID :: string
  ro_Rarity :: Rarity
  ro_IsPity :: bool
  ro_PulledAt :: int

definition zero_Card :: Card where
  "zero_Card = \<lparr>ca_ID = '''', ca_Name = '''', ca_Rarity = '''', ca_Weight = 0\<rparr>"

section \<open>rng.go\<close>

text \<open>The first loop of \<open>WeightedPick\<close>: the total weight, in 64-bit arithmetic.\<close>

fun total_weight :: "int \<Rightarrow> Card list \<Rightarrow> int" where
  "total_weight t [] = t"
| "total_weight t (c # cs) = total_weight (int64 (t + ca_Weight c)) cs"

text \<open>The second loop: the first card at which the running sum passes the draw.\<close>

fun pick_loop :: "int \<Rightarrow> int \<Rightarrow> Card list \<Rightarrow> Card option" where
  "pick_loop pick acc [] = None"
| "pick_loop pick acc (c # cs) =
     (let acc = int64 (acc + ca_Weight c) in if pick < acc then Some c else pick_loop pick acc cs)"

definition WeightedPick :: "(int \<Rightarrow> 's \<Rightarrow> int \<times> 's) \<Rightarrow> Card list \<Rightarrow> 's \<Rightarrow> Card \<times> 's" where
  "WeightedPick rngInt cards s =
     (if cards = [] then (zero_Card, s)
      else let sum = total_weight 0 cards
           in if sum \<le> 0 then (zero_Card, s)
              else let (pick, s) = rngInt sum s
                   in (case pick_loop pick 0 cards of Some c \<Rightarrow> c | None \<Rightarrow> last cards, s))"

definition FilterByRarity :: "Card list \<Rightarrow> Rarity \<Rightarrow> Card list" where
  "FilterByRarity cards rarity = filter (\<lambda>c. ca_Rarity c = rarity) cards"

section \<open>pool_data.go\<close>

definition DemoPoolID :: string where "DemoPoolID = ''demo''"

definition demo_pool :: Pool where
  "demo_pool = \<lparr>po_ID = DemoPoolID, po_Name = ''Demo Pool'', po_PityThreshold = 80, po_Cards =
     [\<lparr>ca_ID = ''c_miku_ssr'', ca_Name = ''Miku SSR'', ca_Rarity = RaritySSR, ca_Weight = 10\<rparr>,
      \<lparr>ca_ID = ''c_rin_ssr'', ca_Name = ''Rin SSR'', ca_Rarity = RaritySSR, ca_Weight = 10\<rparr>,
      \<lparr>ca_ID = ''c_len_ssr'', ca_Name = ''Len SSR'', ca_Rarity = RaritySSR, ca_Weight = 10\<rparr>,
      \<lparr>ca_ID = ''c_miku_sr'', ca_Name = ''Miku SR'', ca_Rarity = RaritySR, ca_Weight = 50\<rparr>,
      \<lparr>ca_ID = ''c_rin_sr'', ca_Name = ''Rin SR'', ca_Rarity = RaritySR, ca_Weight = 50\<rparr>,
      \<lparr>ca_ID = ''c_len_sr'', ca_Name = ''Len SR'', ca_Rarity = RaritySR, ca_Weight = 70\<rparr>,
      \<lparr>ca_ID = ''c_basic_a'', ca_Name = ''Basic A'', ca_Rarity = RarityR, ca_Weight = 300\<rparr>,
      \<lparr>ca_ID = ''c_basic_b'', ca_Name = ''Basic B'', ca_Rarity = RarityR, ca_Weight = 300\<rparr>,
      \<lparr>ca_ID = ''c_basic_c'', ca_Name = ''Basic C'', ca_Rarity = RarityR, ca_Weight = 200\<rparr>]\<rparr>"

definition NewStaticPoolRegistry :: "(string, Pool) gomap" where
  "NewStaticPoolRegistry = [(DemoPoolID, demo_pool)]"

definition StaticPoolRegistry_GetPool :: "(string, Pool) gomap \<Rightarrow> string \<Rightarrow> Pool result" where
  "StaticPoolRegistry_GetPool pools poolID =
     (case map_of pools poolID of None \<Rightarrow> Inl (Sentinel ErrPoolNotFound) | Some p \<Rightarrow> Inr p)"

section \<open>Weights without wrap-around\<close>

definition weight_sum :: "Card list \<Rightarrow> int" where
  "weight_sum cards = sum_list (map ca_Weight cards)"

definition weights_ok :: "Card list \<Rightarrow> bool" where
  "weights_ok cards \<longleftrightarrow> (\<forall>c\<in>set cards. 0 \<le> ca_Weight c) \<and> weight_sum cards < 2 ^ 63"

lemma weight_sum_simps [simp]:
  "weight_sum [] = 0"
  "weight_sum (c # cs) = ca_Weight c + weight_sum cs"
  by (simp_all add: weight_sum_def)

lemma weight_sum_nonneg: "\<forall>c\<in>set cs. 0 \<le> ca_Weight c \<Longrightarrow> 0 \<le> weight_sum cs"
  by (induction cs) auto

lemma weight_sum_filter_le:
  "\<forall>c\<in>set cs. 0 \<le> ca_Weight c \<Longrightarrow> weight_sum (filter P cs) \<le> weight_sum cs"
  by (induction cs) auto

lemma weights_ok_filter: "weights_ok cs \<Longrightarrow> weights_ok (filter P cs)"
  using weight_sum_filter_le [of cs P] by (auto simp: weights_ok_def)

lemma int64_acc:
  assumes "0 \<le> acc" "0 \<le> ca_Weight c" "0 \<le> weight_sum cs"
    and "acc + (ca_Weight c + weight_sum cs) < 2 ^ 63"
  shows "int64 (acc + ca_Weight c) = acc + ca_Weight c"
  using assms by (intro int64_id) (simp add: in_int64_def)

lemma total_weight_eq:
  assumes "\<forall>c\<in>set cs. 0 \<le> ca_Weight c" "0 \<le> acc" "acc + weight_sum cs < 2 ^ 63"
  shows "total_weight acc cs = acc + weight_sum cs"
  using assms
proof (induction cs arbitrary: acc)
  case Nil
  then show ?case by simp
next
  case (Cons c cs)
  then have "int64 (acc + ca_Weight c) = acc + ca_Weight c"
    by (intro int64_acc [of acc c cs]) (auto simp: weight_sum_nonneg)
  with Cons show ?case by simp
qed

lemma total_weight_ok: "weights_ok cs \<Longrightarrow> total_weight 0 cs = weight_sum cs"
  using total_weight_eq [of cs 0] by (simp add: weights_ok_def)

text \<open>A draw below the total is decided by the loop, by a card of the list.\<close>

lemma pick_loop_Some:
  assumes "\<forall>c\<in>set cs. 0 \<le> ca_Weight c" "0 \<le> acc" "acc + weight_sum cs < 2 ^ 63"
    and "pick < acc + weight_sum cs" "acc \<le> pick"
  shows "\<exists>c\<in>set cs. pick_loop pick acc cs = Some c"
  using assms
proof (induction cs arbitrary: acc)
  case Nil
  then show ?case by simp
next
  case (Cons c cs)
  then have i: "int64 (acc + ca_Weight c) = acc + ca_Weight c"
    by (intro int64_acc [of acc c cs]) (auto simp: weight_sum_nonneg)
  show ?case
  proof (cases "pick < acc + ca_Weight c")
    case True
    with i show ?thesis by simp
  next
    case False
    with Cons have "\<exists>c'\<in>set cs. pick_loop pick (acc + ca_Weight c) cs = Some c'"
      by (intro Cons.IH) auto
    with i False show ?thesis by auto
  qed
qed

section \<open>The distribution of the choice\<close>

text \<open>The draws in \<open>[acc, acc + weight_sum cs)\<close> whose card satisfies \<open>P\<close>.\<close>

definition winning_draws :: "(Card \<Rightarrow> bool) \<Rightarrow> int \<Rightarrow> Card list \<Rightarrow> int set" where
  "winning_draws P acc cs =
     {pick \<in> {acc..<acc + weight_sum cs}. \<exists>c. pick_loop pick acc cs = Some c \<and> P c}"

lemma winning_draws_Cons:
  assumes "\<forall>c\<in>set (c # cs). 0 \<le> ca_Weight c" "0 \<le> acc" "acc + weight_sum (c # cs) < 2 ^ 63"
  shows "winning_draws P acc (c # cs) =
    (if P c then {acc..<acc + ca_Weight c} else {}) \<union> winning_draws P (acc + ca_Weight c) cs"
proof -
  have i: "int64 (acc + ca_Weight c) = acc + ca_Weight c"
    using assms by (intro int64_acc [of acc c cs]) (auto simp: weight_sum_nonneg)
  have "0 \<le> weight_sum cs"
    using assms(1) by (simp add: weight_sum_nonneg)
  with assms(1) i show ?thesis
    by (auto simp: winning_draws_def Let_def split: if_splits)
qed

lemma card_winning_draws:
  assumes "\<forall>c\<in>set cs. 0 \<le> ca_Weight c" "0 \<le> acc" "acc + weight_sum cs < 2 ^ 63"
  shows "card (winning_draws P acc cs) = nat (weight_sum (filter P cs))"
  using assms
proof (induction cs arbitrary: acc)
  case Nil
  then show ?case by (simp add: winning_draws_def)
next
  case (Cons c cs)
  let ?acc = "acc + ca_Weight c"
  have IH: "card (winning_draws P ?acc cs) = nat (weight_sum (filter P cs))"
    using Cons by (intro Cons.IH) auto
  have fin: "finite (winning_draws P ?acc cs)"
    by (rule finite_subset [of _ "{?acc..<?acc + weight_sum cs}"]) (auto simp: winning_draws_def)
  have "{acc..<?acc} \<inter> winning_draws P ?acc cs = {}"
    by (auto simp: winning_draws_def)
  moreover have "0 \<le> weight_sum (filter P cs)"
    using Cons.prems(1) by (intro weight_sum_nonneg) auto
  ultimately show ?case
    using Cons.prems IH fin
    by (auto simp: winning_draws_Cons card_Un_disjoint nat_add_distrib)
qed

text \<open>The card that \<open>WeightedPick\<close> returns for a given draw of its random source.\<close>

definition pick_for :: "Card list \<Rightarrow> int \<Rightarrow> Card" where
  "pick_for cards pick = fst (WeightedPick (\<lambda>n s. (pick, s)) cards ())"

lemma pick_for_winning:
  assumes "weights_ok cards" "0 \<le> pick" "pick < weight_sum cards"
  shows "P (pick_for cards pick) \<longleftrightarrow> pick \<in> winning_draws P 0 cards"
proof -
  obtain c where c: "pick_loop pick 0 cards = Some c"
    using assms pick_loop_Some [of cards 0 pick] by (auto simp: weights_ok_def)
  have "cards \<noteq> []" "0 < weight_sum cards" using assms by auto
  with assms(1) c have "pick_for cards pick = c"
    by (simp add: pick_for_def WeightedPick_def total_weight_ok)
  with assms(2,3) c show ?thesis by (simp add: winning_draws_def)
qed

text \<open>
  C6: the weighted choice is exact. For nonnegative weights whose sum fits 64 bits, of the
  \<open>weight_sum cards\<close> equally likely draws exactly as many select a card with property \<open>P\<close> as the
  cards with \<open>P\<close> have weight together, so every card is drawn with probability weight / total.
\<close>

theorem WeightedPick_distribution:
  assumes "weights_ok cards"
  shows "card {pick \<in> {0..<weight_sum cards}. P (pick_for cards pick)} =
    nat (weight_sum (filter P cards))"
proof -
  have "{pick \<in> {0..<weight_sum cards}. P (pick_for cards pick)} = winning_draws P 0 cards"
    using assms pick_for_winning [of cards _ P] by (auto simp: winning_draws_def)
  with assms show ?thesis
    using card_winning_draws [of cards 0 P] by (simp add: weights_ok_def)
qed

lemma demo_pool_weights: "weights_ok (po_Cards demo_pool)" "weight_sum (po_Cards demo_pool) = 1000"
  by (simp_all add: demo_pool_def weights_ok_def)

theorem WeightedPick_distribution_witness:
  "weights_ok (po_Cards demo_pool) \<and>
   card {pick \<in> {0..<1000}. ca_Rarity (pick_for (po_Cards demo_pool) pick) = RaritySSR} = 30"
  using WeightedPick_distribution [OF demo_pool_weights(1), of "\<lambda>c. ca_Rarity c = RaritySSR"]
    demo_pool_weights
  by (simp add: demo_pool_def rarity_defs)

text \<open>
  A draw in range gives a card of the list; this is what the pity branch relies on.
\<close>

lemma WeightedPick_mem:
  assumes "weights_ok cards" "0 < weight_sum cards"
    and "\<And>n. 0 < n \<Longrightarrow> 0 \<le> fst (rngInt n s) \<and> fst (rngInt n s) < n"
  shows "fst (WeightedPick rngInt cards s) \<in> set cards"
proof -
  let ?n = "weight_sum cards"
  have "0 \<le> fst (rngInt ?n s)" "fst (rngInt ?n s) < ?n"
    using assms(2,3) by blast+
  with assms(1) have "\<exists>c\<in>set cards. pick_loop (fst (rngInt ?n s)) 0 cards = Some c"
    by (intro pick_loop_Some) (auto simp: weights_ok_def)
  with assms show ?thesis
    by (auto simp: WeightedPick_def total_weight_ok Let_def split: prod.splits)
qed

lemma WeightedPick_state:
  assumes "\<And>n s. R s (snd (rngInt n s))" "\<And>s. R s s"
  shows "R s (snd (WeightedPick rngInt cards s))"
  using assms by (auto simp: WeightedPick_def Let_def split: prod.splits) (metis snd_conv)

end
