(* ===== verification/Gacha_Service.thy ===== *)
theory Gacha_Service
  imports Gacha_Domain
begin

text \<open>
  \<open>internal/service/gacha/service.go\<close> and the in-memory repository
  \<open>internal/persistence/inmem/gacha_repo.go\<close>. The service is written against the \<open>Repository\<close>
  interface (a record of operations); the locale \<open>gacha_store\<close> states what that interface promises,
  the lemmas on \<open>Roll\<close> are proved once inside it, and the in-memory repository is an interpretation.
  The specification of the pity counter is \<open>since_ssr\<close>: the number of rolls since the last SSR.
\<close>

section \<open>The Repository interface and the service\<close>

record 's gacha_repository =
  gr_GetPity :: "string \<Rightarrow> string \<Rightarrow> 's \<Rightarrow> int result \<times> 's"
  gr_InsertRollsAndUpdatePity :: "Roll list \<Rightarrow> string \<Rightarrow> string \<Rightarrow> int \<Rightarrow> 's \<Rightarrow> unit result \<times> 's"
  gr_ListRollsByPlayer :: "string \<Rightarrow> int \<Rightarrow> 's \<Rightarrow> Roll list result \<times> 's"

record 's gacha_service =
  gs_repo :: "'s gacha_repository"
  gs_pools :: "string \<Rightarrow> Pool result"
  gs_pick :: "int \<Rightarrow> 's \<Rightarrow> int \<times> 's"
  gs_newV7 :: "'s \<Rightarrow> string result \<times> 's"
  gs_now :: "'s \<Rightarrow> int \<times> 's"

text \<open>One draw of the loop in \<open>Roll\<close>: the card, whether it was forced, and the new counter.\<close>

definition roll_card :: "'s gacha_service \<Rightarrow> Pool \<Rightarrow> int \<Rightarrow> 's \<Rightarrow> (Card \<times> bool \<times> int) \<times> 's" where
  "roll_card svc pool pity s =
     (let pity = int64 (pity + 1)
      in if po_PityThreshold pool > 0 \<and> pity \<ge> po_PityThreshold pool then
           let ssrCards = FilterByRarity (po_Cards pool) RaritySSR
           in if ssrCards = [] then
                let (card, s) = WeightedPick (gs_pick svc) (po_Cards pool) s in ((card, False, 0), s)
              else
                let (card, s) = WeightedPick (gs_pick svc) ssrCards s in ((card, True, 0), s)
         else
           let (card, s) = WeightedPick (gs_pick svc) (po_Cards pool) s
           in ((card, False, if ca_Rarity card = RaritySSR then 0 else pity), s))"

fun roll_loop ::
  "'s gacha_service \<Rightarrow> Pool \<Rightarrow> string \<Rightarrow> string \<Rightarrow> int \<Rightarrow> nat \<Rightarrow> int \<Rightarrow> Roll list \<Rightarrow> 's \<Rightarrow>
     (Roll list \<times> int) result \<times> 's" where
  "roll_loop svc pool playerID poolID now 0 pity rolls s = (Inr (rolls, pity), s)"
| "roll_loop svc pool playerID poolID now (Suc n) pity rolls s =
     (let ((card, isPity, pity), s) = roll_card svc pool pity s;
          (uid, s) = gs_newV7 svc s
      in case uid of
           Inl err \<Rightarrow> (Inl (Wrap ''uuid.NewV7'' err), s)
         | Inr u \<Rightarrow>
             roll_loop svc pool playerID poolID now n pity
               (rolls @ [\<lparr>ro_ID = u, ro_PlayerID = playerID, ro_PoolID = poolID, ro_CardID = ca_ID card,
                          ro_Rarity = ca_Rarity card, ro_IsPity = isPity, ro_PulledAt = now\<rparr>]) s)"

definition gacha_Roll :: "'s gacha_service \<Rightarrow> string \<Rightarrow> string \<Rightarrow> int \<Rightarrow> 's \<Rightarrow> Roll list result \<times> 's" where
  "gacha_Roll svc playerID poolID cnt s =
     (if cnt < 1 \<or> cnt > 10 then (Inl (Sentinel ErrInvalidCount), s)
      else case gs_pools svc poolID of
        Inl err \<Rightarrow> (Inl (Wrap ''pools.GetPool'' err), s)
      | Inr pool \<Rightarrow>
          if po_Cards pool = [] then (Inl (Sentinel ErrEmptyPool), s)
          else (case gr_GetPity (gs_repo svc) playerID poolID s of
             (Inl err, s) \<Rightarrow> (Inl (Wrap ''repo.GetPity'' err), s)
           | (Inr pity, s) \<Rightarrow>
               (let (now, s) = gs_now svc s
                in case roll_loop svc pool playerID poolID now (nat cnt) pity [] s of
                     (Inl err, s) \<Rightarrow> (Inl err, s)
                   | (Inr (rolls, pity), s) \<Rightarrow>
                       (case gr_InsertRollsAndUpdatePity (gs_repo svc) rolls playerID poolID pity s of
                          (Inl err, s) \<Rightarrow> (Inl (Wrap ''repo.InsertRollsAndUpdatePity'' err), s)
                        | (Inr _, s) \<Rightarrow> (Inr rolls, s)))))"

definition gacha_ListHistory :: "'s gacha_service \<Rightarrow> string \<Rightarrow> int \<Rightarrow> 's \<Rightarrow> Roll list result \<times> 's" where
  "gacha_ListHistory svc playerID limit s =
     (let limit = (if limit < 1 then 10 else limit);
          limit = (if limit > 100 then 100 else limit);
          (r, s) = gr_ListRollsByPlayer (gs_repo svc) playerID limit s
      in (wrap_result ''repo.ListRollsByPlayer'' r, s))"

definition gacha_GetPity :: "'s gacha_service \<Rightarrow> string \<Rightarrow> string \<Rightarrow> 's \<Rightarrow> int result \<times> 's" where
  "gacha_GetPity svc playerID poolID s =
     (let (r, s) = gr_GetPity (gs_repo svc) playerID poolID s in (wrap_result ''repo.GetPity'' r, s))"

section \<open>The in-memory repository\<close>

record GachaRepo =
  g_rolls :: "Roll list"
  g_pity :: "(string, int) gomap"

definition NewGachaRepo :: GachaRepo where
  "NewGachaRepo = \<lparr>g_rolls = [], g_pity = []\<rparr>"

definition pityKey :: "string \<Rightarrow> string \<Rightarrow> string" where
  "pityKey playerID poolID = playerID @ ''/'' @ poolID"

text \<open>A missing key reads as the zero value.\<close>

definition stored_pity :: "GachaRepo \<Rightarrow> string \<Rightarrow> string \<Rightarrow> int" where
  "stored_pity r playerID poolID =
     (case map_of (g_pity r) (pityKey playerID poolID) of None \<Rightarrow> 0 | Some n \<Rightarrow> n)"

definition inmem_GetPity :: "string \<Rightarrow> string \<Rightarrow> GachaRepo \<Rightarrow> int result \<times> GachaRepo" where
  "inmem_GetPity playerID poolID r = (Inr (stored_pity r playerID poolID), r)"

definition inmem_InsertRollsAndUpdatePity ::
  "Roll list \<Rightarrow> string \<Rightarrow> string \<Rightarrow> int \<Rightarrow> GachaRepo \<Rightarrow> unit result \<times> GachaRepo" where
  "inmem_InsertRollsAndUpdatePity rolls playerID poolID newCounter r =
     (Inr (), r\<lparr>g_rolls := g_rolls r @ rolls,
               g_pity := AList.update (pityKey playerID poolID) newCounter (g_pity r)\<rparr>)"

text \<open>The loop from the last roll backwards, over the reversed list.\<close>

fun list_rolls_loop :: "Roll list \<Rightarrow> string \<Rightarrow> int \<Rightarrow> Roll list \<Rightarrow> Roll list" where
  "list_rolls_loop [] playerID limit out = out"
| "list_rolls_loop (r # rs) playerID limit out =
     (if int (length out) < limit
      then list_rolls_loop rs playerID limit (if ro_PlayerID r = playerID then out @ [r] else out)
      else out)"

definition inmem_ListRollsByPlayer :: "string \<Rightarrow> int \<Rightarrow> GachaRepo \<Rightarrow> Roll list result \<times> GachaRepo" where
  "inmem_ListRollsByPlayer playerID limit r =
     (if limit < 0 then (Inl (Panic ''makeslice: cap out of range''), r)
      else (Inr (list_rolls_loop (rev (g_rolls r)) playerID limit []), r))"

definition inmem_gacha_repository :: "('s, GachaRepo) field \<Rightarrow> 's gacha_repository" where
  "inmem_gacha_repository f =
     \<lparr>gr_GetPity = (\<lambda>p q. on_field f (inmem_GetPity p q)),
      gr_InsertRollsAndUpdatePity = (\<lambda>rs p q n. on_field f (inmem_InsertRollsAndUpdatePity rs p q n)),
      gr_ListRollsByPlayer = (\<lambda>p n. on_field f (inmem_ListRollsByPlayer p n))\<rparr>"

text \<open>\<open>NewService\<close> with the random source, UUIDs and clock of the environment.\<close>

definition NewGachaService ::
  "'s gacha_repository \<Rightarrow> (string \<Rightarrow> Pool result) \<Rightarrow> ('s, env) field \<Rightarrow> 's gacha_service" where
  "NewGachaService repo pools e =
     \<lparr>gs_repo = repo, gs_pools = pools, gs_pick = (\<lambda>n. on_field e (rand_IntN n)),
      gs_newV7 = on_field e uuid_NewV7, gs_now = on_field e time_Now\<rparr>"

lemma NewGachaService_pools [simp]: "gs_pools (NewGachaService repo pools e) = pools"
  by (simp add: NewGachaService_def)

lemma list_rolls_loop_eq:
  "list_rolls_loop rs p limit out =
     out @ take (nat limit - length out) (filter (\<lambda>r. ro_PlayerID r = p) rs)"
proof (induction rs p limit out rule: list_rolls_loop.induct)
  case (1 p limit out)
  then show ?case by simp
next
  case (2 r rs p limit out)
  show ?case
  proof (cases "int (length out) < limit")
    case True
    then have "nat limit - length out = Suc (nat limit - Suc (length out))" by linarith
    with True 2 show ?thesis by simp
  next
    case False
    then have "nat limit - length out = 0" by linarith
    with False show ?thesis by simp
  qed
qed

section \<open>Specification of the pity counter\<close>

definition is_ssr :: "Roll \<Rightarrow> bool" where
  "is_ssr r \<longleftrightarrow> ro_Rarity r = RaritySSR"

text \<open>The length of the current dry spell of a history (oldest roll first).\<close>

definition since_ssr :: "Roll list \<Rightarrow> nat" where
  "since_ssr h = length (takeWhile (\<lambda>r. \<not> is_ssr r) (rev h))"

text \<open>No dry spell of the history ever reached length \<open>t\<close>.\<close>

definition never_dry :: "int \<Rightarrow> Roll list \<Rightarrow> bool" where
  "never_dry t h \<longleftrightarrow> (\<forall>n\<le>length h. int (since_ssr (take n h)) < t)"

definition own_rolls :: "string \<Rightarrow> string \<Rightarrow> Roll list \<Rightarrow> bool" where
  "own_rolls p q rs \<longleftrightarrow> (\<forall>r\<in>set rs. ro_PlayerID r = p \<and> ro_PoolID r = q)"

text \<open>The rolls of one player on one pool.\<close>

definition history :: "Roll list \<Rightarrow> string \<Rightarrow> string \<Rightarrow> Roll list" where
  "history rs p q = filter (\<lambda>r. ro_PlayerID r = p \<and> ro_PoolID r = q) rs"

definition pity_inv :: "int \<Rightarrow> Roll list \<Rightarrow> int \<Rightarrow> bool" where
  "pity_inv t h pity \<longleftrightarrow> pity = int (since_ssr h) \<and> never_dry t h"

text \<open>The counters of the players and pools \<open>ids\<close> agree with the histories.\<close>

definition counters_ok ::
  "(string \<Rightarrow> string \<Rightarrow> bool) \<Rightarrow> (string \<Rightarrow> Pool result) \<Rightarrow> Roll list \<Rightarrow> (string \<Rightarrow> string \<Rightarrow> int) \<Rightarrow> bool" where
  "counters_ok ids pools rolls pity \<longleftrightarrow> (\<forall>p q pool. ids p q \<longrightarrow> pools q = Inr pool \<longrightarrow>
     pity_inv (po_PityThreshold pool) (history rolls p q) (pity p q))"

definition pool_ok :: "Pool \<Rightarrow> bool" where
  "pool_ok pool \<longleftrightarrow> 0 < po_PityThreshold pool \<and> po_PityThreshold pool < 2 ^ 63 \<and>
     weights_ok (po_Cards pool) \<and> 0 < weight_sum (FilterByRarity (po_Cards pool) RaritySSR)"

lemma since_ssr_simps [simp]:
  "since_ssr [] = 0"
  "since_ssr (h @ [r]) = (if is_ssr r then 0 else Suc (since_ssr h))"
  by (simp_all add: since_ssr_def)

lemma never_dry_simps [simp]:
  "never_dry t [] \<longleftrightarrow> 0 < t"
  "never_dry t (h @ [r]) \<longleftrightarrow> never_dry t h \<and> int (since_ssr (h @ [r])) < t"
proof -
  have "never_dry t (h @ [r]) \<longleftrightarrow>
      (\<forall>n\<le>length h. int (since_ssr (take n (h @ [r]))) < t) \<and> int (since_ssr (h @ [r])) < t"
    by (auto simp: never_dry_def le_Suc_eq simp del: since_ssr_simps)
  then show "never_dry t (h @ [r]) \<longleftrightarrow> never_dry t h \<and> int (since_ssr (h @ [r])) < t"
    by (auto simp: never_dry_def simp del: since_ssr_simps)
qed (simp add: never_dry_def)

lemma never_dry_now: "never_dry t h \<Longrightarrow> int (since_ssr h) < t"
  by (auto simp: never_dry_def)

text \<open>One draw keeps the counter equal to its specification, and a forced draw is an SSR.\<close>

lemma roll_card_pity_inv:
  assumes pool: "pool_ok pool" and inv: "pity_inv (po_PityThreshold pool) h pity"
    and rng: "\<And>n s. 0 < n \<Longrightarrow> 0 \<le> fst (gs_pick svc n s) \<and> fst (gs_pick svc n s) < n"
    and step: "roll_card svc pool pity s = ((cd, isPity, pity'), s')"
    and r: "ro_Rarity r = ca_Rarity cd"
  shows "pity_inv (po_PityThreshold pool) (h @ [r]) pity' \<and> (isPity \<longrightarrow> is_ssr r) \<and>
    isPity = (pity + 1 = po_PityThreshold pool)"
proof -
  let ?T = "po_PityThreshold pool" and ?ssr = "FilterByRarity (po_Cards pool) RaritySSR"
  have pity: "pity = int (since_ssr h)" and dry: "never_dry ?T h"
    using inv by (auto simp: pity_inv_def)
  have lt: "pity < ?T" using dry pity by (auto dest: never_dry_now)
  then have i: "int64 (pity + 1) = pity + 1"
    using pool pity by (intro int64_id) (auto simp: in_int64_def pool_ok_def)
  have ssr: "?ssr \<noteq> []" using pool by (auto simp: pool_ok_def)
  show ?thesis
  proof (cases "pity + 1 \<ge> ?T")
    case True
    with step ssr i pool have *: "fst (WeightedPick (gs_pick svc) ?ssr s) = cd" "isPity" "pity' = 0"
      by (auto simp: roll_card_def pool_ok_def Let_def split: prod.splits if_splits)
    have "weights_ok ?ssr" "0 < weight_sum ?ssr"
      using pool by (auto simp: pool_ok_def FilterByRarity_def intro: weights_ok_filter)
    then have "cd \<in> set ?ssr"
      using WeightedPick_mem [of ?ssr "gs_pick svc" s] rng * by auto
    then have "is_ssr r" using r by (simp add: is_ssr_def FilterByRarity_def)
    with * True lt dry pool show ?thesis by (simp add: pity_inv_def pool_ok_def)
  next
    case False
    with step i have "\<not> isPity" "pity' = (if ca_Rarity cd = RaritySSR then 0 else pity + 1)"
      by (auto simp: roll_card_def Let_def split: prod.splits)
    with False lt dry pity r pool show ?thesis
      by (auto simp: pity_inv_def is_ssr_def pool_ok_def)
  qed
qed

text \<open>A sequence of roll requests (player, pool, count), each to completion.\<close>

fun gacha_run :: "'s gacha_service \<Rightarrow> (string \<times> string \<times> int) list \<Rightarrow> 's \<Rightarrow> 's" where
  "gacha_run svc [] s = s"
| "gacha_run svc ((p, q, n) # reqs) s = gacha_run svc reqs (snd (gacha_Roll svc p q n s))"

section \<open>What the Repository interface promises\<close>

text \<open>
  \<open>rolls_of\<close> and \<open>pity_of\<close> are the stored rolls, in insertion order, and counters; a failing call
  leaves both as they were (atomicity). A store may change a roll when it keeps it (\<open>kept\<close>), but not its
  player, pool and rarity; it keeps the counters with \<open>cnt_ok\<close>, and tells the players and pools with
  \<open>id_ok\<close> apart.
\<close>

locale gacha_store =
  fixes repo :: "'s gacha_repository"
    and rolls_of :: "'s \<Rightarrow> Roll list"
    and pity_of :: "'s \<Rightarrow> string \<Rightarrow> string \<Rightarrow> int"
    and id_ok :: "string \<Rightarrow> string \<Rightarrow> bool"
    and cnt_ok :: "int \<Rightarrow> bool"
    and kept :: "Roll \<Rightarrow> Roll"
  assumes GetPity_frame:
      "gr_GetPity repo p q s = (r, s') \<Longrightarrow> rolls_of s' = rolls_of s \<and> pity_of s' = pity_of s"
    and GetPity_value: "gr_GetPity repo p q s = (Inr n, s') \<Longrightarrow> n = pity_of s p q"
    and Insert_fail: "gr_InsertRollsAndUpdatePity repo rs p q n s = (Inl err, s') \<Longrightarrow>
      rolls_of s' = rolls_of s \<and> pity_of s' = pity_of s"
    and Insert_rolls: "gr_InsertRollsAndUpdatePity repo rs p q n s = (Inr u, s') \<Longrightarrow>
      rolls_of s' = rolls_of s @ map kept rs"
    and Insert_pity: "gr_InsertRollsAndUpdatePity repo rs p q n s = (Inr u, s') \<Longrightarrow> cnt_ok n \<Longrightarrow> pity_of s' p q = n"
    and Insert_other: "gr_InsertRollsAndUpdatePity repo rs p q n s = (Inr u, s') \<Longrightarrow>
      id_ok p q \<Longrightarrow> id_ok p' q' \<Longrightarrow> (p', q') \<noteq> (p, q) \<Longrightarrow> pity_of s' p' q' = pity_of s p' q'"
    and kept_roll: "ro_PlayerID (kept x) = ro_PlayerID x" "ro_PoolID (kept x) = ro_PoolID x"
      "ro_Rarity (kept x) = ro_Rarity x"

text \<open>A service over such a repository whose random source, UUIDs and clock are elsewhere.\<close>

locale gacha_client = gacha_store repo rolls_of pity_of id_ok cnt_ok kept
  for repo :: "'s gacha_repository" and rolls_of pity_of id_ok cnt_ok kept +
  fixes svc :: "'s gacha_service"
  assumes svc_repo: "gs_repo svc = repo"
    and pick_frame: "gs_pick svc n s = (k, s') \<Longrightarrow> rolls_of s' = rolls_of s \<and> pity_of s' = pity_of s"
    and pick_range: "0 < n \<Longrightarrow> 0 \<le> fst (gs_pick svc n s) \<and> fst (gs_pick svc n s) < n"
    and newV7_frame: "gs_newV7 svc s = (u, s') \<Longrightarrow> rolls_of s' = rolls_of s \<and> pity_of s' = pity_of s"
    and now_frame: "gs_now svc s = (t, s') \<Longrightarrow> rolls_of s' = rolls_of s \<and> pity_of s' = pity_of s"
begin

lemma roll_card_frame:
  assumes "roll_card svc pool pity s = (r, s')"
  shows "rolls_of s' = rolls_of s \<and> pity_of s' = pity_of s"
proof -
  have "rolls_of (snd (WeightedPick (gs_pick svc) cs s)) = rolls_of s \<and>
      pity_of (snd (WeightedPick (gs_pick svc) cs s)) = pity_of s" for cs
    by (rule WeightedPick_state [where R = "\<lambda>s s'. rolls_of s' = rolls_of s \<and> pity_of s' = pity_of s"])
      (auto simp: pick_frame [OF surjective_pairing])
  then have "WeightedPick (gs_pick svc) cs s = (cd, s') \<Longrightarrow>
      rolls_of s' = rolls_of s \<and> pity_of s' = pity_of s" for cs cd
    by (metis snd_conv)
  with assms show ?thesis
    by (auto simp: roll_card_def Let_def split: prod.splits if_splits)
qed

text \<open>The loop: it draws \<open>n\<close> rolls of the player and pool and leaves the store alone.\<close>

lemma roll_loop_frame:
  "roll_loop svc pool p q now n pity rs s = (res, s') \<Longrightarrow>
     rolls_of s' = rolls_of s \<and> pity_of s' = pity_of s"
proof (induction n arbitrary: pity rs s)
  case 0
  then show ?case by simp
next
  case (Suc n)
  obtain cd b k s1 where c: "roll_card svc pool pity s = ((cd, b, k), s1)" by (metis prod_cases3 surj_pair)
  obtain u s2 where u: "gs_newV7 svc s1 = (u, s2)" by fastforce
  have "rolls_of s2 = rolls_of s \<and> pity_of s2 = pity_of s"
    using roll_card_frame [OF c] newV7_frame [OF u] by simp
  with Suc c u show ?case by (cases u) auto
qed

lemma roll_loop_rolls:
  "roll_loop svc pool p q now n pity rs s = (Inr (rs', k), s') \<Longrightarrow>
     \<exists>new. rs' = rs @ new \<and> length new = n \<and> own_rolls p q new"
proof (induction n arbitrary: pity rs s)
  case 0
  then show ?case by (simp add: own_rolls_def)
next
  case (Suc n)
  obtain cd b k1 s1 where c: "roll_card svc pool pity s = ((cd, b, k1), s1)" by (metis prod_cases3 surj_pair)
  obtain u s2 where u: "gs_newV7 svc s1 = (u, s2)" by fastforce
  from Suc.prems c u obtain i where i: "u = Inr i" by (cases u) auto
  let ?r = "\<lparr>ro_ID = i, ro_PlayerID = p, ro_PoolID = q, ro_CardID = ca_ID cd,
    ro_Rarity = ca_Rarity cd, ro_IsPity = b, ro_PulledAt = now\<rparr>"
  from Suc.prems c u i have "roll_loop svc pool p q now n k1 (rs @ [?r]) s2 = (Inr (rs', k), s')"
    by simp
  from Suc.IH [OF this] obtain new where "rs' = rs @ ?r # new" "length new = n" "own_rolls p q new"
    by auto
  then show ?case by (intro exI [of _ "?r # new"]) (auto simp: own_rolls_def)
qed

lemma roll_loop_pity_inv:
  "roll_loop svc pool p q now n pity rs s = (Inr (rs', k), s') \<Longrightarrow> pool_ok pool \<Longrightarrow>
     pity_inv (po_PityThreshold pool) (h @ rs) pity \<Longrightarrow> pity_inv (po_PityThreshold pool) (h @ rs') k"
proof (induction n arbitrary: pity rs s)
  case 0
  then show ?case by simp
next
  case (Suc n)
  obtain cd b k1 s1 where c: "roll_card svc pool pity s = ((cd, b, k1), s1)" by (metis prod_cases3 surj_pair)
  obtain u s2 where u: "gs_newV7 svc s1 = (u, s2)" by fastforce
  from Suc.prems c u obtain i where i: "u = Inr i" by (cases u) auto
  let ?r = "\<lparr>ro_ID = i, ro_PlayerID = p, ro_PoolID = q, ro_CardID = ca_ID cd,
    ro_Rarity = ca_Rarity cd, ro_IsPity = b, ro_PulledAt = now\<rparr>"
  have "pity_inv (po_PityThreshold pool) ((h @ rs) @ [?r]) k1"
    using roll_card_pity_inv [OF Suc.prems(2,3) pick_range c, of ?r] by auto
  moreover from Suc.prems c u i have "roll_loop svc pool p q now n k1 (rs @ [?r]) s2 = (Inr (rs', k), s')"
    by simp
  ultimately show ?case using Suc.IH Suc.prems(2) by simp
qed

text \<open>\<open>Roll\<close>: on an error nothing is stored; otherwise the rolls and the counter are.\<close>

lemma Roll_error:
  assumes "gacha_Roll svc p q n s = (Inl err, s')"
  shows "rolls_of s' = rolls_of s \<and> pity_of s' = pity_of s"
  using assms unfolding gacha_Roll_def svc_repo
  by (auto split: if_splits sum.splits prod.splits
      dest!: GetPity_frame now_frame roll_loop_frame Insert_fail)

lemma Roll_okE:
  assumes "gacha_Roll svc p q n s = (Inr rs, s')"
  obtains pool k where "1 \<le> n" "n \<le> 10" "gs_pools svc q = Inr pool" "po_Cards pool \<noteq> []"
    "length rs = nat n" "own_rolls p q rs" "rolls_of s' = rolls_of s @ map kept rs" "cnt_ok k \<Longrightarrow> pity_of s' p q = k"
    "\<And>h. pool_ok pool \<Longrightarrow> pity_inv (po_PityThreshold pool) h (pity_of s p q) \<Longrightarrow>
       pity_inv (po_PityThreshold pool) (h @ rs) k"
    "\<And>p' q'. id_ok p q \<Longrightarrow> id_ok p' q' \<Longrightarrow> (p', q') \<noteq> (p, q) \<Longrightarrow> pity_of s' p' q' = pity_of s p' q'"
proof -
  from assms obtain pool pity s1 now s2 k s3 u where
      n: "1 \<le> n" "n \<le> 10" and pool: "gs_pools svc q = Inr pool" "po_Cards pool \<noteq> []"
      and g: "gr_GetPity repo p q s = (Inr pity, s1)" and t: "gs_now svc s1 = (now, s2)"
      and l: "roll_loop svc pool p q now (nat n) pity [] s2 = (Inr (rs, k), s3)"
      and i: "gr_InsertRollsAndUpdatePity repo rs p q k s3 = (Inr u, s')"
    unfolding gacha_Roll_def svc_repo
    by (auto split: if_splits sum.splits prod.splits)
  have keep: "rolls_of s3 = rolls_of s" "pity_of s3 = pity_of s"
    using GetPity_frame [OF g] now_frame [OF t] roll_loop_frame [OF l] by auto
  have pity: "pity = pity_of s p q" by (rule GetPity_value [OF g])
  have new: "length rs = nat n" "own_rolls p q rs"
    using roll_loop_rolls [OF l] by auto
  have inv: "pool_ok pool \<Longrightarrow> pity_inv (po_PityThreshold pool) h (pity_of s p q) \<Longrightarrow>
      pity_inv (po_PityThreshold pool) (h @ rs) k" for h
    using roll_loop_pity_inv [OF l, of h] pity by simp
  show ?thesis
    using n pool new keep Insert_rolls [OF i] Insert_pity [OF i] Insert_other [OF i] inv
    by (intro that [of pool k]) auto
qed

lemma history_kept: "own_rolls p q rs \<Longrightarrow>
    history (rolls @ map kept rs) p' q' = history rolls p' q' @ (if (p', q') = (p, q) then map kept rs else [])"
  by (auto simp: history_def own_rolls_def kept_roll filter_map comp_def filter_empty_conv intro!: filter_True)

lemma pity_inv_kept: "pity_inv t (h @ map kept rs) k \<longleftrightarrow> pity_inv t (h @ rs) k"
proof -
  have ssr: "is_ssr (kept r) = is_ssr r" for r by (simp add: is_ssr_def kept_roll)
  have "since_ssr (h @ map kept rs) = since_ssr (h @ rs)" "never_dry t (h @ map kept rs) = never_dry t (h @ rs)"
    by (induction rs rule: rev_induct) (simp_all add: ssr flip: append_assoc)
  then show ?thesis by (simp add: pity_inv_def)
qed

lemma Roll_counters_ok:
  assumes pools: "\<And>q pool k. gs_pools svc q = Inr pool \<Longrightarrow> pool_ok pool \<and>
      (0 \<le> k \<longrightarrow> k < po_PityThreshold pool \<longrightarrow> cnt_ok k)"
    and req: "\<And>pool. gs_pools svc q = Inr pool \<Longrightarrow> id_ok p q"
    and inv: "counters_ok id_ok (gs_pools svc) (rolls_of s) (pity_of s)" and roll: "gacha_Roll svc p q n s = (res, s')"
  shows "counters_ok id_ok (gs_pools svc) (rolls_of s') (pity_of s')"
proof (cases res)
  case (Inl err)
  with roll have "rolls_of s' = rolls_of s \<and> pity_of s' = pity_of s" by (auto dest: Roll_error)
  with inv show ?thesis by simp
next
  case (Inr rs)
  with roll have call: "gacha_Roll svc p q n s = (Inr rs, s')" by simp
  obtain pool k where ok: "gs_pools svc q = Inr pool" "own_rolls p q rs"
      "rolls_of s' = rolls_of s @ map kept rs" "cnt_ok k \<longrightarrow> pity_of s' p q = k"
      "\<forall>h. pool_ok pool \<longrightarrow> pity_inv (po_PityThreshold pool) h (pity_of s p q) \<longrightarrow>
         pity_inv (po_PityThreshold pool) (h @ rs) k"
      "\<forall>p' q'. id_ok p q \<longrightarrow> id_ok p' q' \<longrightarrow> (p', q') \<noteq> (p, q) \<longrightarrow> pity_of s' p' q' = pity_of s p' q'"
    by (rule Roll_okE [OF call]) blast
  have new: "pity_inv (po_PityThreshold pool) (history (rolls_of s) p q @ rs) k"
    using ok(1,5) inv req pools by (auto simp: counters_ok_def)
  then have "0 \<le> k" "k < po_PityThreshold pool"
    by (auto simp: pity_inv_def dest: never_dry_now)
  with ok(1,4) pools have k: "pity_of s' p q = k" by blast
  show ?thesis
    unfolding counters_ok_def
  proof (intro allI impI)
    fix p' q' pool'
    assume q': "id_ok p' q'" "gs_pools svc q' = Inr pool'"
    show "pity_inv (po_PityThreshold pool') (history (rolls_of s') p' q') (pity_of s' p' q')"
    proof (cases "(p', q') = (p, q)")
      case True
      with ok(1,2,3) q' new k show ?thesis by (auto simp: history_kept pity_inv_kept)
    next
      case False
      with ok q' inv req show ?thesis by (auto simp: counters_ok_def history_kept)
    qed
  qed
qed

text \<open>The invariant over a sequence of requests.\<close>

lemma run_counters_ok:
  assumes pools: "\<And>q pool k. gs_pools svc q = Inr pool \<Longrightarrow> pool_ok pool \<and>
      (0 \<le> k \<longrightarrow> k < po_PityThreshold pool \<longrightarrow> cnt_ok k)"
    and "\<forall>(p, q, n)\<in>set reqs. \<forall>pool. gs_pools svc q = Inr pool \<longrightarrow> id_ok p q"
    and "counters_ok id_ok (gs_pools svc) (rolls_of s) (pity_of s)"
  shows "counters_ok id_ok (gs_pools svc) (rolls_of (gacha_run svc reqs s)) (pity_of (gacha_run svc reqs s))"
  using assms(2,3)
proof (induction reqs arbitrary: s)
  case Nil
  then show ?case by simp
next
  case (Cons req reqs)
  obtain p q n where req: "req = (p, q, n)" by (metis prod_cases3)
  have "counters_ok id_ok (gs_pools svc) (rolls_of (snd (gacha_Roll svc p q n s))) (pity_of (snd (gacha_Roll svc p q n s)))"
    using Cons.prems by (intro Roll_counters_ok [OF pools _ _ surjective_pairing]) (auto simp: req)
  with Cons.IH Cons.prems(1) show ?case by (simp add: req)
qed

end

section \<open>The in-memory repository keeps the promise\<close>

lemma pityKey_inj:
  "slash_free q \<Longrightarrow> slash_free q' \<Longrightarrow> pityKey p q = pityKey p' q' \<longleftrightarrow> p = p' \<and> q = q'"
  using sep_key_inj_right [of p "CHR ''/''" q p' q'] by (auto simp: pityKey_def slash_free_def)

lemma stored_pity_insert:
  assumes "inmem_InsertRollsAndUpdatePity rs p q n r = (res, r')"
  shows "stored_pity r' p q = n"
    and "slash_free q \<Longrightarrow> slash_free q' \<Longrightarrow> (p', q') \<noteq> (p, q) \<Longrightarrow>
      stored_pity r' p' q' = stored_pity r p' q'"
    and "g_rolls r' = g_rolls r @ rs"
  using assms by (auto simp: inmem_InsertRollsAndUpdatePity_def stored_pity_def pityKey_inj)

locale inmem_gacha = two_fields f e
  for f :: "('s, GachaRepo) field" and e :: "('s, env) field" +
  fixes pools :: "string \<Rightarrow> Pool result"

sublocale inmem_gacha \<subseteq> client: gacha_client "inmem_gacha_repository f"
  "\<lambda>s. g_rolls (fget f s)" "\<lambda>s. stored_pity (fget f s)" "\<lambda>_. slash_free" "\<lambda>_. True" "\<lambda>r. r"
  "NewGachaService (inmem_gacha_repository f) pools e"
proof unfold_locales
  fix p q s r s'
  assume "gr_GetPity (inmem_gacha_repository f) p q s = (r, s')"
  then show "g_rolls (fget f s') = g_rolls (fget f s) \<and> stored_pity (fget f s') = stored_pity (fget f s)"
    by (auto simp: inmem_gacha_repository_def inmem_GetPity_def elim!: fst_field.on_fieldE)
next
  fix rs p q n s u s' q' p'
  assume "gr_InsertRollsAndUpdatePity (inmem_gacha_repository f) rs p q n s = (Inr u, s')"
  then have ins: "inmem_InsertRollsAndUpdatePity rs p q n (fget f s) = (Inr u, fget f s')"
    by (auto simp: inmem_gacha_repository_def elim!: fst_field.on_fieldE)
  then show "stored_pity (fget f s') p q = n" by (rule stored_pity_insert)
  show "g_rolls (fget f s') = g_rolls (fget f s) @ map (\<lambda>r. r) rs"
    using stored_pity_insert(3) [OF ins] by simp
  assume "slash_free q" "slash_free q'" "(p', q') \<noteq> (p, q)"
  with ins show "stored_pity (fget f s') p' q' = stored_pity (fget f s) p' q'"
    by (rule stored_pity_insert)
qed (auto simp: inmem_gacha_repository_def inmem_GetPity_def inmem_InsertRollsAndUpdatePity_def
    NewGachaService_def on_field_def rand_IntN_def uuid_NewV7_def time_Now_def
    split: prod.splits dest: on_g_keeps_f)

interpretation gacha_pair: inmem_gacha fst_of snd_of pools for pools
  by unfold_locales

text \<open>The service of \<open>main.go\<close> without a database: the static registry over the in-memory store.\<close>

type_synonym gacha_world = "GachaRepo \<times> env"

definition demo_service :: "gacha_world gacha_service" where
  "demo_service = NewGachaService (inmem_gacha_repository fst_of)
     (StaticPoolRegistry_GetPool NewStaticPoolRegistry) snd_of"

lemma registry_pools:
  "StaticPoolRegistry_GetPool NewStaticPoolRegistry q = Inr pool \<longleftrightarrow> q = DemoPoolID \<and> pool = demo_pool"
  by (auto simp: StaticPoolRegistry_GetPool_def NewStaticPoolRegistry_def split: if_splits)

lemma demo_pool_ok: "pool_ok demo_pool" "slash_free DemoPoolID"
  using demo_pool_weights
  by (simp_all add: pool_ok_def demo_pool_def FilterByRarity_def rarity_defs slash_free_def DemoPoolID_def)

abbreviation demo_counters_ok :: "gacha_world \<Rightarrow> bool" where
  "demo_counters_ok s \<equiv> counters_ok (\<lambda>_. slash_free) (StaticPoolRegistry_GetPool NewStaticPoolRegistry)
     (g_rolls (fst s)) (stored_pity (fst s))"

lemma gacha_run_counters_ok: "demo_counters_ok s \<Longrightarrow> demo_counters_ok (gacha_run demo_service reqs s)"
  using gacha_pair.client.run_counters_ok [of "StaticPoolRegistry_GetPool NewStaticPoolRegistry" reqs s]
  by (simp add: demo_service_def registry_pools demo_pool_ok split: prod.splits)

section \<open>Properties\<close>

text \<open>
  C1: the pity guarantee. Start the in-memory server with an empty store and let any players send
  any sequence of roll requests, with any random source, UUID source and clock. Then for every
  player the stored counter is the number of rolls on the demo pool since the player's last SSR,
  and at no point of the player's history have there been 80 rolls in a row without an SSR.
\<close>

theorem pity_guarantee:
  "let s = fst (gacha_run demo_service reqs (NewGachaRepo, e)); h = history (g_rolls s) p DemoPoolID
   in stored_pity s p DemoPoolID = int (since_ssr h) \<and> never_dry 80 h"
proof -
  have "demo_counters_ok (NewGachaRepo, e)"
    by (simp add: counters_ok_def registry_pools history_def NewGachaRepo_def stored_pity_def
        pity_inv_def demo_pool_def)
  from gacha_run_counters_ok [OF this, of reqs]
  have "pity_inv (po_PityThreshold demo_pool)
      (history (g_rolls (fst (gacha_run demo_service reqs (NewGachaRepo, e)))) p DemoPoolID)
      (stored_pity (fst (gacha_run demo_service reqs (NewGachaRepo, e))) p DemoPoolID)"
    by (simp add: counters_ok_def registry_pools demo_pool_ok)
  then show ?thesis by (simp add: pity_inv_def demo_pool_def Let_def)
qed

text \<open>
  C9: \<open>Roll\<close> is all or nothing. Over the in-memory store, a call that fails (bad count, unknown
  pool, no cards, a failing UUID source) leaves rolls and counters untouched; a call that succeeds
  had a count between 1 and 10 and a known pool, returns exactly that many rolls, all for the player
  and pool asked for, and appends exactly those rolls to the store.
\<close>

theorem Roll_all_or_nothing:
  "case gacha_Roll (NewGachaService (inmem_gacha_repository fst_of) pools snd_of) p q n (r, e) of
     (Inl err, r', e') \<Rightarrow> g_rolls r' = g_rolls r \<and> stored_pity r' = stored_pity r
   | (Inr rolls, r', e') \<Rightarrow> 1 \<le> n \<and> n \<le> 10 \<and> (\<exists>pool. pools q = Inr pool) \<and> length rolls = nat n \<and>
       own_rolls p q rolls \<and> g_rolls r' = g_rolls r @ rolls"
proof -
  let ?svc = "NewGachaService (inmem_gacha_repository fst_of) pools snd_of"
  obtain res r' e' where call: "gacha_Roll ?svc p q n (r, e) = (res, r', e')" by (metis surj_pair)
  show ?thesis
  proof (cases res)
    case (Inl err)
    with call gacha_pair.client.Roll_error [of pools p q n "(r, e)" err "(r', e')"] show ?thesis
      by simp
  next
    case (Inr rolls)
    with call have ok: "gacha_Roll ?svc p q n (r, e) = (Inr rolls, r', e')" by simp
    have "1 \<le> n \<and> n \<le> 10 \<and> (\<exists>pool. pools q = Inr pool) \<and>
        length rolls = nat n \<and> own_rolls p q rolls \<and> g_rolls r' = g_rolls r @ rolls"
      by (rule gacha_pair.client.Roll_okE [OF ok]) simp
    with ok show ?thesis by simp
  qed
qed

text \<open>
  History. Over the in-memory store \<open>ListHistory\<close> never fails and changes nothing; it returns the
  player's latest rolls, newest first, as many as asked for, with 10 for a request below 1 and at
  most 100.
\<close>

theorem ListHistory_latest:
  "gacha_ListHistory (NewGachaService (inmem_gacha_repository fst_of) pools snd_of) p limit (r, e) =
     (Inr (take (nat (if limit < 1 then 10 else min limit 100))
        (filter (\<lambda>x. ro_PlayerID x = p) (rev (g_rolls r)))), (r, e))"
  by (simp add: gacha_ListHistory_def NewGachaService_def inmem_gacha_repository_def on_field_def
      inmem_ListRollsByPlayer_def list_rolls_loop_eq fst_of_def min_def)

section \<open>Overlapping requests\<close>

text \<open>
  \<open>Roll\<close> reads the counter in one repository call and writes it in another. The two halves of the
  function, cut at the read, can interleave with those of another request of the same player.
\<close>

definition roll_begin :: "'s gacha_service \<Rightarrow> string \<Rightarrow> string \<Rightarrow> 's \<Rightarrow> int result \<times> 's" where
  "roll_begin svc playerID poolID s = gr_GetPity (gs_repo svc) playerID poolID s"

definition roll_finish ::
  "'s gacha_service \<Rightarrow> Pool \<Rightarrow> string \<Rightarrow> string \<Rightarrow> int \<Rightarrow> int result \<Rightarrow> 's \<Rightarrow> Roll list result \<times> 's" where
  "roll_finish svc pool playerID poolID cnt pity s =
     (case pity of
        Inl err \<Rightarrow> (Inl (Wrap ''repo.GetPity'' err), s)
      | Inr pity \<Rightarrow>
          (let (now, s) = gs_now svc s
           in case roll_loop svc pool playerID poolID now (nat cnt) pity [] s of
                (Inl err, s) \<Rightarrow> (Inl err, s)
              | (Inr (rolls, pity), s) \<Rightarrow>
                  (case gr_InsertRollsAndUpdatePity (gs_repo svc) rolls playerID poolID pity s of
                     (Inl err, s) \<Rightarrow> (Inl (Wrap ''repo.InsertRollsAndUpdatePity'' err), s)
                   | (Inr _, s) \<Rightarrow> (Inr rolls, s))))"

lemma gacha_Roll_halves:
  assumes "1 \<le> n" "n \<le> 10" "gs_pools svc q = Inr pool" "po_Cards pool \<noteq> []"
  shows "gacha_Roll svc p q n s =
    (let (pity, s) = roll_begin svc p q s in roll_finish svc pool p q n pity s)"
  using assms by (auto simp: gacha_Roll_def roll_begin_def roll_finish_def split: prod.splits sum.splits)

text \<open>Two requests of one player: both read before either writes.\<close>

definition overlapping_rolls ::
  "'s gacha_service \<Rightarrow> Pool \<Rightarrow> string \<Rightarrow> string \<Rightarrow> 's \<Rightarrow> Roll list result \<times> Roll list result \<times> 's" where
  "overlapping_rolls svc pool p q s =
     (let (pity1, s) = roll_begin svc p q s; (pity2, s) = roll_begin svc p q s;
          (r1, s) = roll_finish svc pool p q 1 pity1 s; (r2, s) = roll_finish svc pool p q 1 pity2 s
      in (r1, r2, s))"

lemma demo_service_simps [simp]:
  "gr_GetPity (gs_repo demo_service) p q (r, e) = (Inr (stored_pity r p q), (r, e))"
  "gr_InsertRollsAndUpdatePity (gs_repo demo_service) rs p q n (r, e) =
     (Inr (), (snd (inmem_InsertRollsAndUpdatePity rs p q n r), e))"
  "gs_pick demo_service n (r, e) = (int (env_rng e (env_pos e)) mod n, (r, env_tick e))"
  "gs_newV7 demo_service (r, e) = (env_uuid e (env_pos e), (r, env_tick e))"
  "gs_now demo_service (r, e) = (env_clock e (env_pos e), (r, env_tick e))"
  by (simp_all add: demo_service_def NewGachaService_def inmem_gacha_repository_def on_field_def
      inmem_GetPity_def inmem_InsertRollsAndUpdatePity_def rand_IntN_def uuid_NewV7_def time_Now_def
      fst_of_def snd_of_def)

text \<open>A draw of 30 or more on the demo pool is not an SSR.\<close>

lemma demo_pick_miss: "30 \<le> d \<Longrightarrow> d < 1000 \<Longrightarrow> ca_Rarity (pick_for (po_Cards demo_pool) d) \<noteq> RaritySSR"
  by (simp add: pick_for_def demo_pool_def WeightedPick_def int64_small rarity_defs Let_def)

lemma demo_WeightedPick:
  "WeightedPick (gs_pick demo_service) (po_Cards demo_pool) (r, e) =
     (pick_for (po_Cards demo_pool) (int (env_rng e (env_pos e)) mod 1000), (r, env_tick e))"
  by (simp add: WeightedPick_def pick_for_def total_weight_ok demo_pool_weights)
    (simp add: demo_pool_def)

lemma roll_card_miss:
  assumes "0 \<le> k" "k < 79" "30 \<le> int (env_rng e (env_pos e)) mod 1000"
  shows "\<exists>c. roll_card demo_service demo_pool k (r, e) = ((c, False, k + 1), (r, env_tick e)) \<and>
    ca_Rarity c \<noteq> RaritySSR"
proof -
  have T: "po_PityThreshold demo_pool = 80" by (simp add: demo_pool_def)
  have i: "int64 (k + 1) = k + 1" using assms by (intro int64_small) auto
  show ?thesis
    using assms demo_pick_miss [of "int (env_rng e (env_pos e)) mod 1000"]
    by (simp add: roll_card_def demo_WeightedPick T i)
qed

text \<open>The second half of a single roll that read the counter \<open>k\<close> and misses.\<close>

lemma roll_finish_miss:
  assumes "0 \<le> k" "k < 79" "30 \<le> int (env_rng e (Suc (env_pos e))) mod 1000"
    and "env_uuid e (Suc (Suc (env_pos e))) = Inr u"
  shows "\<exists>x. roll_finish demo_service demo_pool p DemoPoolID 1 (Inr k) (r, e) =
      (Inr [x], (snd (inmem_InsertRollsAndUpdatePity [x] p DemoPoolID (k + 1) r),
                 env_tick (env_tick (env_tick e)))) \<and> \<not> is_ssr x"
proof -
  obtain c where "roll_card demo_service demo_pool k (r, env_tick e) =
      ((c, False, k + 1), (r, env_tick (env_tick e)))" "ca_Rarity c \<noteq> RaritySSR"
    using roll_card_miss [of k "env_tick e" r] assms by auto
  with assms(4) show ?thesis by (simp add: roll_finish_def is_ssr_def)
qed

text \<open>
  C20: the guarantee needs requests that do not overlap. When a player's counter is \<open>k < 79\<close> and two
  single rolls overlap, neither of them an SSR, both succeed and both rolls are stored, but the
  counter is \<open>k + 1\<close>: one miss is not counted, so that the player can go more than 80 rolls without
  an SSR.
\<close>

theorem overlapping_rolls_lose_a_miss:
  assumes "30 \<le> int (env_rng e (env_pos e + 1)) mod 1000" "30 \<le> int (env_rng e (env_pos e + 4)) mod 1000"
    and "env_uuid e (env_pos e + 2) = Inr u1" "env_uuid e (env_pos e + 5) = Inr u2"
    and "0 \<le> stored_pity r p DemoPoolID" "stored_pity r p DemoPoolID < 79"
  shows "\<exists>x y r' e'. overlapping_rolls demo_service demo_pool p DemoPoolID (r, e) = (Inr [x], Inr [y], (r', e'))
    \<and> \<not> is_ssr x \<and> \<not> is_ssr y \<and> g_rolls r' = g_rolls r @ [x, y]
    \<and> stored_pity r' p DemoPoolID = stored_pity r p DemoPoolID + 1"
proof -
  let ?k = "stored_pity r p DemoPoolID"
  let ?e = "env_tick (env_tick (env_tick e))"
  obtain x where x: "\<not> is_ssr x" "roll_finish demo_service demo_pool p DemoPoolID 1 (Inr ?k) (r, e) =
      (Inr [x], (snd (inmem_InsertRollsAndUpdatePity [x] p DemoPoolID (?k + 1) r), ?e))"
    using roll_finish_miss [of ?k e u1 p r] assms by auto
  let ?r = "snd (inmem_InsertRollsAndUpdatePity [x] p DemoPoolID (?k + 1) r)"
  obtain y where y: "\<not> is_ssr y" "roll_finish demo_service demo_pool p DemoPoolID 1 (Inr ?k) (?r, ?e) =
      (Inr [y], (snd (inmem_InsertRollsAndUpdatePity [y] p DemoPoolID (?k + 1) ?r),
                 env_tick (env_tick (env_tick ?e))))"
    using roll_finish_miss [of ?k ?e u2 p ?r] assms by (auto simp: add_ac eval_nat_numeral)
  show ?thesis
    using x y by (simp add: overlapping_rolls_def roll_begin_def)
      (simp add: inmem_InsertRollsAndUpdatePity_def stored_pity_def)
qed

theorem overlapping_rolls_lose_a_miss_witness:
  "let e = \<lparr>env_rng = (\<lambda>_. 500), env_uuid = (\<lambda>_. Inr ''id''), env_clock = (\<lambda>_. 0), env_pos = 0\<rparr>
   in \<exists>x y r' e'. overlapping_rolls demo_service demo_pool ''p1'' DemoPoolID (NewGachaRepo, e) =
        (Inr [x], Inr [y], (r', e')) \<and> \<not> is_ssr x \<and> \<not> is_ssr y \<and> length (g_rolls r') = 2 \<and>
        stored_pity r' ''p1'' DemoPoolID = 1"
proof -
  let ?e = "\<lparr>env_rng = (\<lambda>_. 500), env_uuid = (\<lambda>_. Inr ''id''), env_clock = (\<lambda>_. 0), env_pos = 0\<rparr>"
  have "stored_pity NewGachaRepo ''p1'' DemoPoolID = 0" "g_rolls NewGachaRepo = []"
    by (simp_all add: NewGachaRepo_def stored_pity_def)
  then show ?thesis
    using overlapping_rolls_lose_a_miss [of ?e "''id''" "''id''" NewGachaRepo "''p1''"] by fastforce
qed

end
