(* ===== verification/Auth.thy ===== *)
theory Auth
  imports Go_Prelude
begin

text \<open>
  \<open>internal/auth/auth.go\<close>: issuing and validating HS256 tokens, and the claims carried by a
  request context. The JWT library is a parameter, the record \<open>jwt_lib\<close>; what the code relies on is
  the predicate \<open>jwt_laws\<close>, its documented behaviour. Clocks are functions of a world state
  \<open>'w\<close>, since \<open>time.Now\<close> may return another instant at every call.
\<close>

section \<open>Data\<close>

record Claims =
  cl_PlayerID :: string
  cl_Issuer :: string
  cl_Subject :: string
  cl_IssuedAt :: int
  cl_ExpiresAt :: int
  cl_NotBefore :: int

record 'w Issuer =
  is_secret :: string
  is_ttl :: int
  is_now :: "'w \<Rightarrow> int"
  is_issuer :: string

record 'w Validator =
  va_secret :: string
  va_now :: "'w \<Rightarrow> int"
  va_issuer :: string

text \<open>
  The library: \<open>NewNumericDate\<close>, \<open>NewWithClaims(HS256, c).SignedString(k)\<close>, and
  \<open>NewParser(WithValidMethods HS256, WithIssuer iss, WithTimeFunc now).ParseWithClaims\<close>, whose
  result is the claims (\<open>None\<close> when the type assertion \<open>token.Claims.(*Claims)\<close> fails) and
  \<open>token.Valid\<close>.
\<close>

record jwt_lib =
  jwt_NumericDate :: "int \<Rightarrow> int"
  jwt_Sign :: "Claims \<Rightarrow> string \<Rightarrow> string result"
  jwt_Parse :: "string \<Rightarrow> string \<Rightarrow> string \<Rightarrow> int \<Rightarrow> (Claims option \<times> bool) result"

section \<open>Issuer\<close>

definition WithClock :: "('w \<Rightarrow> int) \<Rightarrow> 'w Issuer \<Rightarrow> 'w Issuer" where
  "WithClock fn i = i\<lparr>is_now := fn\<rparr>"

definition WithIssuer :: "string \<Rightarrow> 'w Issuer \<Rightarrow> 'w Issuer" where
  "WithIssuer name i = i\<lparr>is_issuer := name\<rparr>"

definition NewIssuer ::
  "('w \<Rightarrow> int) \<Rightarrow> string \<Rightarrow> int \<Rightarrow> ('w Issuer \<Rightarrow> 'w Issuer) list \<Rightarrow> 'w Issuer result" where
  "NewIssuer time_Now secret ttl opts =
     (if secret = '''' then Inl (ErrorString ''auth: secret must not be empty'')
      else if ttl \<le> 0 then Inl (ErrorString ''auth: ttl must be > 0'')
      else Inr (fold (\<lambda>opt. opt) opts
             \<lparr>is_secret = secret, is_ttl = ttl, is_now = time_Now, is_issuer = ''stagesync''\<rparr>))"

definition Issue :: "jwt_lib \<Rightarrow> 'w Issuer \<Rightarrow> string \<Rightarrow> 'w \<Rightarrow> (string \<times> int) result" where
  "Issue J i playerID w =
     (if playerID = '''' then Inl (ErrorString ''auth: playerID must not be empty'')
      else let now = is_now i w; exp = now + is_ttl i;
               claims = \<lparr>cl_PlayerID = playerID, cl_Issuer = is_issuer i, cl_Subject = playerID,
                         cl_IssuedAt = jwt_NumericDate J now, cl_ExpiresAt = jwt_NumericDate J exp,
                         cl_NotBefore = jwt_NumericDate J now\<rparr>
           in case jwt_Sign J claims (is_secret i) of
                Inl err \<Rightarrow> Inl (Wrap ''sign token'' err)
              | Inr signed \<Rightarrow> Inr (signed, exp))"

section \<open>Validator\<close>

definition WithValidatorClock :: "('w \<Rightarrow> int) \<Rightarrow> 'w Validator \<Rightarrow> 'w Validator" where
  "WithValidatorClock fn v = v\<lparr>va_now := fn\<rparr>"

definition WithValidatorIssuer :: "string \<Rightarrow> 'w Validator \<Rightarrow> 'w Validator" where
  "WithValidatorIssuer name v = v\<lparr>va_issuer := name\<rparr>"

text \<open>\<open>None\<close> is the nil validator: authentication is disabled.\<close>

definition NewValidator ::
  "('w \<Rightarrow> int) \<Rightarrow> string \<Rightarrow> ('w Validator \<Rightarrow> 'w Validator) list \<Rightarrow> 'w Validator option" where
  "NewValidator time_Now secret opts =
     (if secret = '''' then None
      else Some (fold (\<lambda>opt. opt) opts
             \<lparr>va_secret = secret, va_now = time_Now, va_issuer = ''stagesync''\<rparr>))"

definition Validate :: "jwt_lib \<Rightarrow> 'w Validator \<Rightarrow> string \<Rightarrow> 'w \<Rightarrow> Claims result" where
  "Validate J v tokenString w =
     (if tokenString = '''' then Inl (Sentinel ErrInvalidToken)
      else case jwt_Parse J tokenString (va_secret v) (va_issuer v) (va_now v w) of
             Inl err \<Rightarrow> Inl (WrapFront (Sentinel ErrInvalidToken) (error_text err))
           | Inr (claims, valid) \<Rightarrow>
               (case claims of
                  None \<Rightarrow> Inl (Sentinel ErrInvalidToken)
                | Some c \<Rightarrow>
                    if \<not> valid then Inl (Sentinel ErrInvalidToken)
                    else if cl_PlayerID c = ''''
                      then Inl (WrapFront (Sentinel ErrInvalidToken) ''empty player_id'')
                    else Inr c))"

section \<open>Context helpers\<close>

text \<open>The value stored in a context under the private key: the claims, if any.\<close>

type_synonym auth_ctx = "Claims option"

definition InjectClaims :: "auth_ctx \<Rightarrow> Claims \<Rightarrow> auth_ctx" where
  "InjectClaims ctx c = Some c"

definition ClaimsFrom :: "auth_ctx \<Rightarrow> Claims option" where
  "ClaimsFrom ctx = ctx"

definition PlayerIDFrom :: "auth_ctx \<Rightarrow> string \<times> bool" where
  "PlayerIDFrom ctx = (case ClaimsFrom ctx of None \<Rightarrow> ('''', False) | Some c \<Rightarrow> (cl_PlayerID c, True))"

section \<open>Documented behaviour of the JWT library\<close>

text \<open>
  Numeric dates have a precision of one second; signing with HS256 succeeds; a token that was
  signed with the key parses to its claims exactly when the issuer matches and the instant lies in
  \<open>[nbf, exp)\<close>; a token signed with another key is rejected.
\<close>

definition jwt_laws :: "jwt_lib \<Rightarrow> bool" where
  "jwt_laws J \<longleftrightarrow>
     (\<forall>t. jwt_NumericDate J t = t - t mod 1000000000) \<and>
     (\<forall>c k. k \<noteq> '''' \<longrightarrow> (\<exists>t. t \<noteq> '''' \<and> jwt_Sign J c k = Inr t)) \<and>
     (\<forall>c k t iss now. jwt_Sign J c k = Inr t \<longrightarrow> iss \<noteq> '''' \<longrightarrow>
        (if cl_Issuer c = iss \<and> now < cl_ExpiresAt c \<and> cl_NotBefore c \<le> now
         then jwt_Parse J t k iss now = Inr (Some c, True)
         else \<exists>e. jwt_Parse J t k iss now = Inl e)) \<and>
     (\<forall>c k k' t iss now. jwt_Sign J c k = Inr t \<longrightarrow> k' \<noteq> k \<longrightarrow>
        (\<exists>e. jwt_Parse J t k' iss now = Inl e))"

definition whole_seconds :: "int \<Rightarrow> int" where
  "whole_seconds t = t - t mod 1000000000"

lemma whole_seconds_le: "whole_seconds t \<le> t"
  by (simp add: whole_seconds_def)

lemma jwt_NumericDate_law: "jwt_laws J \<Longrightarrow> jwt_NumericDate J t = whole_seconds t"
  by (simp add: jwt_laws_def whole_seconds_def)

lemma jwt_Sign_law:
  assumes "jwt_laws J" "k \<noteq> ''''"
  obtains t where "t \<noteq> ''''" "jwt_Sign J c k = Inr t"
proof -
  from assms have "\<exists>t. t \<noteq> '''' \<and> jwt_Sign J c k = Inr t"
    unfolding jwt_laws_def by blast
  with that show ?thesis by blast
qed

lemma jwt_Parse_own:
  assumes "jwt_laws J" "jwt_Sign J c k = Inr t" "iss \<noteq> ''''"
  shows "if cl_Issuer c = iss \<and> now < cl_ExpiresAt c \<and> cl_NotBefore c \<le> now
         then jwt_Parse J t k iss now = Inr (Some c, True)
         else \<exists>e. jwt_Parse J t k iss now = Inl e"
  using assms unfolding jwt_laws_def by blast

lemma jwt_Parse_foreign:
  assumes "jwt_laws J" "jwt_Sign J c k = Inr t" "k' \<noteq> k"
  shows "\<exists>e. jwt_Parse J t k' iss now = Inl e"
  using assms unfolding jwt_laws_def by blast

lemmas auth_defs = NewIssuer_def Issue_def NewValidator_def Validate_def

section \<open>Properties\<close>

text \<open>Every failure of \<open>Validate\<close> is an \<open>ErrInvalidToken\<close>, so the middleware can map it to 401.\<close>

lemma Validate_error_is_invalid:
  "Validate J v tok w = Inl e \<Longrightarrow> errors_Is e ErrInvalidToken"
  by (auto simp: Validate_def split: if_splits sum.splits option.splits)

lemma Validate_nonempty_player: "Validate J v tok w = Inr c \<Longrightarrow> cl_PlayerID c \<noteq> ''''"
  by (auto simp: Validate_def split: if_splits sum.splits option.splits prod.splits)

lemma Issue_signs:
  assumes "jwt_laws J" "NewIssuer tn secret ttl [] = Inr i" "p \<noteq> ''''"
  obtains tok c where "Issue J i p w = Inr (tok, tn w + ttl)" "tok \<noteq> ''''"
    "jwt_Sign J c secret = Inr tok" "cl_PlayerID c = p" "cl_Issuer c = ''stagesync''"
    "cl_ExpiresAt c = whole_seconds (tn w + ttl)" "cl_NotBefore c = whole_seconds (tn w)"
proof -
  from assms(2) have sec: "secret \<noteq> ''''" and i: "i = \<lparr>is_secret = secret, is_ttl = ttl,
      is_now = tn, is_issuer = ''stagesync''\<rparr>"
    by (auto simp: NewIssuer_def split: if_splits)
  let ?c = "\<lparr>cl_PlayerID = p, cl_Issuer = ''stagesync'', cl_Subject = p,
    cl_IssuedAt = whole_seconds (tn w), cl_ExpiresAt = whole_seconds (tn w + ttl),
    cl_NotBefore = whole_seconds (tn w)\<rparr>"
  from jwt_Sign_law [OF assms(1) sec] obtain tok
    where tok: "tok \<noteq> ''''" "jwt_Sign J ?c secret = Inr tok" by metis
  have "Issue J i p w = Inr (tok, tn w + ttl)"
    using assms(1,3) tok i by (simp add: Issue_def Let_def jwt_NumericDate_law)
  with tok show ?thesis by (intro that [of tok ?c]) auto
qed

text \<open>
  The life of a token. A token that \<open>Issue\<close> hands out at instant \<open>t\<close> with lifetime \<open>ttl\<close> is
  accepted by a validator with the same secret at exactly the instants from the second \<open>t\<close> falls in
  up to, and excluding, the second that \<open>t + ttl\<close> falls in; when it is accepted the claims name the
  player it was issued for; when it is refused the error is \<open>ErrInvalidToken\<close>.
\<close>

theorem issued_token_lifetime:
  assumes J: "jwt_laws J"
    and i: "NewIssuer tn secret ttl [] = Inr i"
    and v: "NewValidator vn secret [] = Some v"
    and p: "p \<noteq> ''''"
  shows "\<exists>tok. Issue J i p w = Inr (tok, tn w + ttl) \<and>
    (case Validate J v tok w' of
       Inr c \<Rightarrow> cl_PlayerID c = p \<and> whole_seconds (tn w) \<le> vn w' \<and> vn w' < whole_seconds (tn w + ttl)
     | Inl e \<Rightarrow> errors_Is e ErrInvalidToken \<and>
         \<not> (whole_seconds (tn w) \<le> vn w' \<and> vn w' < whole_seconds (tn w + ttl)))"
proof -
  obtain tok c where tok: "Issue J i p w = Inr (tok, tn w + ttl)" "tok \<noteq> ''''"
      "jwt_Sign J c secret = Inr tok" "cl_PlayerID c = p" "cl_Issuer c = ''stagesync''"
      "cl_ExpiresAt c = whole_seconds (tn w + ttl)" "cl_NotBefore c = whole_seconds (tn w)"
    using Issue_signs [OF J i p] by metis
  from v have v': "v = \<lparr>va_secret = secret, va_now = vn, va_issuer = ''stagesync''\<rparr>"
    by (auto simp: NewValidator_def split: if_splits)
  have "if vn w' < whole_seconds (tn w + ttl) \<and> whole_seconds (tn w) \<le> vn w'
        then jwt_Parse J tok secret ''stagesync'' (vn w') = Inr (Some c, True)
        else \<exists>e. jwt_Parse J tok secret ''stagesync'' (vn w') = Inl e"
    using jwt_Parse_own [OF J tok(3), of "''stagesync''" "vn w'"] tok(5-7) by simp
  then have "case Validate J v tok w' of
       Inr c \<Rightarrow> cl_PlayerID c = p \<and> whole_seconds (tn w) \<le> vn w' \<and> vn w' < whole_seconds (tn w + ttl)
     | Inl e \<Rightarrow> errors_Is e ErrInvalidToken \<and>
         \<not> (whole_seconds (tn w) \<le> vn w' \<and> vn w' < whole_seconds (tn w + ttl))"
    using tok(2,4) p v' by (auto simp: Validate_def split: if_splits)
  with tok(1) show ?thesis by blast
qed

section \<open>A reference token format\<close>

text \<open>
  A concrete library that satisfies \<open>jwt_laws\<close>: the token spells out the key and the claims in a
  self-delimiting form, and parsing reads them back. It shows that the laws can hold together.
\<close>

definition enc_nat :: "nat \<Rightarrow> string" where
  "enc_nat n = replicate n (CHR ''1'') @ ''0''"

definition dec_nat :: "string \<Rightarrow> nat \<times> string" where
  "dec_nat s = (let n = length (takeWhile (\<lambda>c. c = CHR ''1'') s) in (n, drop (Suc n) s))"

definition enc_str :: "string \<Rightarrow> string" where
  "enc_str x = enc_nat (length x) @ x"

definition dec_str :: "string \<Rightarrow> string \<times> string" where
  "dec_str s = (let (n, r) = dec_nat s in (take n r, drop n r))"

definition enc_int :: "int \<Rightarrow> string" where
  "enc_int i = (if i < 0 then ''1'' else ''0'') @ enc_nat (nat \<bar>i\<bar>)"

definition dec_int :: "string \<Rightarrow> int \<times> string" where
  "dec_int s = (let (n, r) = dec_nat (drop 1 s) in (if take 1 s = ''1'' then - int n else int n, r))"

lemma takeWhile_replicate_1:
  "takeWhile (\<lambda>c. c = CHR ''1'') (replicate n (CHR ''1'') @ CHR ''0'' # r) = replicate n (CHR ''1'')"
  by (induction n) auto

lemma dec_enc_nat [simp]: "dec_nat (enc_nat n @ r) = (n, r)"
  by (simp add: dec_nat_def enc_nat_def takeWhile_replicate_1 Let_def)

lemma dec_enc_str [simp]: "dec_str (enc_str x @ r) = (x, r)"
  by (simp add: dec_str_def enc_str_def)

lemma dec_enc_int [simp]: "dec_int (enc_int i @ r) = (i, r)"
  by (simp add: dec_int_def enc_int_def)

definition ref_Sign :: "Claims \<Rightarrow> string \<Rightarrow> string result" where
  "ref_Sign c k = Inr (enc_str k @ enc_str (cl_PlayerID c) @ enc_str (cl_Issuer c) @ enc_str (cl_Subject c)
     @ enc_int (cl_IssuedAt c) @ enc_int (cl_ExpiresAt c) @ enc_int (cl_NotBefore c))"

definition ref_Read :: "string \<Rightarrow> string \<times> Claims" where
  "ref_Read t =
     (let (k, t1) = dec_str t; (p, t2) = dec_str t1; (iss, t3) = dec_str t2; (sub, t4) = dec_str t3;
          (iat, t5) = dec_int t4; (ex, t6) = dec_int t5; (nbf, t7) = dec_int t6
      in (k, \<lparr>cl_PlayerID = p, cl_Issuer = iss, cl_Subject = sub,
              cl_IssuedAt = iat, cl_ExpiresAt = ex, cl_NotBefore = nbf\<rparr>))"

definition ref_Parse :: "string \<Rightarrow> string \<Rightarrow> string \<Rightarrow> int \<Rightarrow> (Claims option \<times> bool) result" where
  "ref_Parse t k iss now =
     (let (k', c) = ref_Read t
      in if k' = k \<and> cl_Issuer c = iss \<and> now < cl_ExpiresAt c \<and> cl_NotBefore c \<le> now
         then Inr (Some c, True) else Inl (ErrorString ''token is not valid''))"

definition ref_jwt :: jwt_lib where
  "ref_jwt = \<lparr>jwt_NumericDate = whole_seconds, jwt_Sign = ref_Sign, jwt_Parse = ref_Parse\<rparr>"

lemma ref_Read_Sign: "ref_Sign c k = Inr t \<Longrightarrow> ref_Read t = (k, c)"
proof -
  assume "ref_Sign c k = Inr t"
  then have t: "t = enc_str k @ enc_str (cl_PlayerID c) @ enc_str (cl_Issuer c) @ enc_str (cl_Subject c)
     @ enc_int (cl_IssuedAt c) @ enc_int (cl_ExpiresAt c) @ enc_int (cl_NotBefore c)"
    by (simp add: ref_Sign_def)
  have last: "dec_int (enc_int x) = (x, [])" for x
    using dec_enc_int [of x "[]"] by simp
  show ?thesis
    unfolding t ref_Read_def by (simp add: last)
qed

lemma ref_jwt_laws: "jwt_laws ref_jwt"
  unfolding jwt_laws_def
proof (intro conjI allI impI)
  fix c k
  show "\<exists>t. t \<noteq> '''' \<and> jwt_Sign ref_jwt c k = Inr t"
    by (simp add: ref_jwt_def ref_Sign_def enc_str_def enc_nat_def)
qed (auto simp: ref_jwt_def whole_seconds_def ref_Parse_def dest: ref_Read_Sign)

theorem issued_token_lifetime_witness:
  "\<exists>i v. NewIssuer (\<lambda>_::unit. 1500000000) ''k'' 900000000000 [] = Inr i \<and>
     NewValidator (\<lambda>_::unit. 901000000000) ''k'' [] = Some v \<and>
     (\<exists>tok. Issue ref_jwt i ''p1'' () = Inr (tok, 901500000000) \<and>
       (\<exists>e. Validate ref_jwt v tok () = Inl e \<and> errors_Is e ErrInvalidToken))"
proof -
  obtain i where i: "NewIssuer (\<lambda>_::unit. 1500000000) ''k'' 900000000000 [] = Inr i"
    by (simp add: NewIssuer_def)
  obtain v where v: "NewValidator (\<lambda>_::unit. 901000000000) ''k'' [] = Some v"
    by (simp add: NewValidator_def)
  have p: "''p1'' \<noteq> ''''" by simp
  show ?thesis
    using issued_token_lifetime [OF ref_jwt_laws i v p, of "()" "()"]
  proof (elim exE conjE)
    fix tok
    assume "Issue ref_jwt i ''p1'' () = Inr (tok, 1500000000 + 900000000000)"
    moreover assume "case Validate ref_jwt v tok () of
        Inr c \<Rightarrow> cl_PlayerID c = ''p1'' \<and> whole_seconds 1500000000 \<le> 901000000000 \<and>
          901000000000 < whole_seconds (1500000000 + 900000000000)
      | Inl e \<Rightarrow> errors_Is e ErrInvalidToken \<and>
          \<not> (whole_seconds 1500000000 \<le> 901000000000 \<and>
             901000000000 < whole_seconds (1500000000 + 900000000000))"
    ultimately show ?thesis
      using i v by (cases "Validate ref_jwt v tok ()") (auto simp: whole_seconds_def)
  qed
qed

end
