(* ===== verification/Go_Http.thy ===== *)
theory Go_Http
  imports Auth
begin

text \<open>
  The HTTP vocabulary of the handlers: JSON values, requests, and \<open>http.ResponseWriter\<close>. A handler
  only ever calls \<open>Header().Set\<close>, \<open>WriteHeader\<close> and \<open>Write\<close> on its writer, so its effect is the
  list of these calls in order (\<open>rw_op list\<close>) together with the new state; \<open>rw_run\<close> gives them the
  meaning that \<open>net/http\<close> gives them. JSON bodies are kept as values: the decoder reads the first
  value of the body (\<open>None\<close>: it is not JSON), the encoder's bytes are the value it encodes.
\<close>

section \<open>JSON\<close>

datatype json =
    JNull
  | JBool bool
  | JInt int
  | JFloat string
  | JStr string
  | JTime int
  | JArr "json list"
  | JObj "(string \<times> json) list"

text \<open>
  \<open>json.Decoder.Decode\<close> into a struct. Members match a field name up to ASCII case, a later member
  overwrites an earlier one, \<open>null\<close> leaves the field as it is, a value of another type is an error
  (recorded, while decoding goes on), an absent field keeps its zero value. \<open>JTime\<close> occurs in
  responses only.
\<close>

fun dec_string :: "json \<Rightarrow> string option" where
  "dec_string (JStr s) = Some s"
| "dec_string _ = None"

fun dec_int64 :: "json \<Rightarrow> int option" where
  "dec_int64 (JInt n) = (if in_int64 n then Some n else None)"
| "dec_int64 _ = None"

fun dec_bool :: "json \<Rightarrow> bool option" where
  "dec_bool (JBool b) = Some b"
| "dec_bool _ = None"

definition decode_member ::
  "string \<Rightarrow> (json \<Rightarrow> 'a option) \<Rightarrow> string \<times> json \<Rightarrow> 'a \<times> bool \<Rightarrow> 'a \<times> bool" where
  "decode_member name dec m acc =
     (if strings_EqualFold (fst m) name \<and> snd m \<noteq> JNull
      then (case dec (snd m) of Some v \<Rightarrow> (v, snd acc) | None \<Rightarrow> (fst acc, False))
      else acc)"

text \<open>The value of a field, and whether no member of it had a wrong type.\<close>

definition decode_field :: "string \<Rightarrow> (json \<Rightarrow> 'a option) \<Rightarrow> 'a \<Rightarrow> (string \<times> json) list \<Rightarrow> 'a \<times> bool" where
  "decode_field name dec zero ms = fold (decode_member name dec) ms (zero, True)"

text \<open>The members of the object that a struct is decoded from.\<close>

fun json_members :: "json option \<Rightarrow> (string \<times> json) list option" where
  "json_members (Some (JObj ms)) = Some ms"
| "json_members (Some JNull) = Some []"
| "json_members _ = None"

section \<open>Requests\<close>

text \<open>
  \<open>rq_Header\<close>, \<open>rq_Query\<close> and \<open>rq_Param\<close> are \<open>r.Header.Get\<close>, \<open>r.URL.Query().Get\<close> and
  \<open>chi.URLParam\<close> (the empty string when absent); \<open>rq_BodyErr\<close> is the text of the decoder's error;
  \<open>rq_Auth\<close> is the value that \<open>auth.InjectClaims\<close> stored in the request context.
\<close>

record request =
  rq_Method :: string
  rq_Header :: "string \<Rightarrow> string"
  rq_Query :: "string \<Rightarrow> string"
  rq_Param :: "string \<Rightarrow> string"
  rq_RemoteAddr :: string
  rq_Body :: "json option"
  rq_BodyErr :: string
  rq_Auth :: auth_ctx

section \<open>Response writers\<close>

datatype chunk = JsonChunk json | RawChunk string

datatype rw_op = HeaderSet string string | WriteHeader nat | Write chunk

record response_writer =
  rw_hdr :: "(string, string) gomap"
  rw_sent :: "(nat \<times> (string, string) gomap) option"
  rw_out :: "chunk list"

definition new_rw :: response_writer where
  "new_rw = \<lparr>rw_hdr = [], rw_sent = None, rw_out = []\<rparr>"

text \<open>
  The first \<open>WriteHeader\<close> fixes the status and a snapshot of the header; later changes of the
  header map are not sent and a second \<open>WriteHeader\<close> is ignored; the first \<open>Write\<close> implies
  \<open>WriteHeader(200)\<close>.
\<close>

fun rw_send :: "nat \<Rightarrow> response_writer \<Rightarrow> response_writer" where
  "rw_send code w = (case rw_sent w of None \<Rightarrow> w\<lparr>rw_sent := Some (code, rw_hdr w)\<rparr> | Some _ \<Rightarrow> w)"

fun rw_step :: "rw_op \<Rightarrow> response_writer \<Rightarrow> response_writer" where
  "rw_step (HeaderSet k v) w = w\<lparr>rw_hdr := AList.update k v (rw_hdr w)\<rparr>"
| "rw_step (WriteHeader code) w = rw_send code w"
| "rw_step (Write c) w = (rw_send 200 w)\<lparr>rw_out := rw_out w @ [c]\<rparr>"

definition rw_run :: "rw_op list \<Rightarrow> response_writer \<Rightarrow> response_writer" where
  "rw_run ops w = fold rw_step ops w"

text \<open>What the client receives once the handler has returned.\<close>

record response =
  rsp_Status :: nat
  rsp_Header :: "(string, string) gomap"
  rsp_Body :: "chunk list"

definition rw_finish :: "response_writer \<Rightarrow> response" where
  "rw_finish w = (case rw_sent w of
     None \<Rightarrow> \<lparr>rsp_Status = 200, rsp_Header = rw_hdr w, rsp_Body = rw_out w\<rparr>
   | Some (code, h) \<Rightarrow> \<lparr>rsp_Status = code, rsp_Header = h, rsp_Body = rw_out w\<rparr>)"

definition response_of :: "rw_op list \<Rightarrow> response" where
  "response_of ops = rw_finish (rw_run ops new_rw)"

type_synonym 's handler = "request \<Rightarrow> 's \<Rightarrow> rw_op list \<times> 's"

lemma rw_run_simps [simp]:
  "rw_run [] w = w"
  "rw_run (x # xs) w = rw_run xs (rw_step x w)"
  by (simp_all add: rw_run_def)

lemma rw_run_append [simp]: "rw_run (xs @ ys) w = rw_run ys (rw_run xs w)"
  by (simp add: rw_run_def)

text \<open>Once sent, status and header are fixed, and the body only grows.\<close>

lemma rw_step_sent: "rw_sent w = Some r \<Longrightarrow> rw_sent (rw_step x w) = Some r"
  by (cases x) auto

lemma rw_run_sent: "rw_sent w = Some r \<Longrightarrow> rw_sent (rw_run xs w) = Some r"
  by (induction xs arbitrary: w) (auto dest: rw_step_sent simp del: rw_step.simps)

lemma rw_run_out: "\<exists>ys. rw_out (rw_run xs w) = rw_out w @ ys"
proof (induction xs arbitrary: w)
  case Nil
  then show ?case by simp
next
  case (Cons x xs)
  have "\<exists>ys. rw_out (rw_step x w) = rw_out w @ ys"
    by (cases x) (auto split: option.splits)
  with Cons.IH [of "rw_step x w"] show ?case by auto
qed

lemmas rw_defs = response_of_def rw_finish_def new_rw_def

section \<open>endpoint/response.go\<close>

definition writeJSON :: "json \<Rightarrow> rw_op list" where
  "writeJSON v = [HeaderSet ''Content-Type'' ''application/json'', Write (JsonChunk v)]"

lemma response_of_writeJSON [simp]:
  "response_of (writeJSON v) =
     \<lparr>rsp_Status = 200, rsp_Header = [(''Content-Type'', ''application/json'')], rsp_Body = [JsonChunk v]\<rparr>"
  by (simp add: writeJSON_def rw_defs)

text \<open>
  The idiom of the \<open>201 Created\<close> handlers: \<open>w.WriteHeader(code)\<close> and then \<open>writeJSON\<close>. The header
  that \<open>writeJSON\<close> sets comes too late to be sent.
\<close>

lemma response_of_status_then_json [simp]:
  "response_of (WriteHeader code # writeJSON v) =
     \<lparr>rsp_Status = code, rsp_Header = [], rsp_Body = [JsonChunk v]\<rparr>"
  by (simp add: writeJSON_def rw_defs)

end
