(* ===== verification/Apperror.thy ===== *)
theory Apperror
  imports Go_Http
begin

text \<open>
  \<open>internal/apperror\<close>: the error type that the endpoints answer with, its mapping to HTTP status
  codes and its JSON form; and the conversion of validator failures
  (\<open>endpoint/profile.go\<close>, \<open>toValidationError\<close>). The validator itself (\<open>go-playground/validator\<close>) is
  a parameter of the handlers: a function from the tagged fields of a request to its verdict.
\<close>

section \<open>apperror.go\<close>

definition Validation :: "string \<Rightarrow> field_error list \<Rightarrow> go_error" where
  "Validation msg fs = AppError CodeValidation msg fs None"

definition NotFound :: "string \<Rightarrow> string \<Rightarrow> go_error" where
  "NotFound resource ident = AppError CodeNotFound (resource @ '' not found: '' @ ident) [] None"

definition Conflict :: "string \<Rightarrow> go_error" where
  "Conflict msg = AppError CodeConflict msg [] None"

definition Internal :: "string \<Rightarrow> go_error \<Rightarrow> go_error" where
  "Internal msg cause = AppError CodeInternal msg [] (Some cause)"

lemmas apperror_defs = Validation_def NotFound_def Conflict_def Internal_def

section \<open>http.go\<close>

fun StatusOf :: "app_code \<Rightarrow> nat" where
  "StatusOf CodeValidation = 400"
| "StatusOf CodeNotFound = 404"
| "StatusOf CodeConflict = 409"
| "StatusOf CodeInternal = 500"
| "StatusOf (OtherCode _) = 500"

definition field_json :: "field_error \<Rightarrow> json" where
  "field_json f = JObj [(''field'', JStr (fe_Field f)), (''tag'', JStr (fe_Tag f)),
     (''message'', JStr (fe_Message f))]"

text \<open>The struct tags: \<open>fields\<close> is left out when empty, \<open>cause\<close> is not exported.\<close>

definition error_json :: "app_code \<Rightarrow> string \<Rightarrow> field_error list \<Rightarrow> json" where
  "error_json c m fs = JObj ([(''code'', JStr (code_text c)), (''message'', JStr m)] @
     (if fs = [] then [] else [(''fields'', JArr (map field_json fs))]))"

definition writeAppErr :: "app_code \<Rightarrow> string \<Rightarrow> field_error list \<Rightarrow> rw_op list" where
  "writeAppErr c m fs =
     [HeaderSet ''Content-Type'' ''application/json'', WriteHeader (StatusOf c),
      Write (JsonChunk (JObj [(''error'', error_json c m fs)]))]"

definition WriteJSON :: "go_error \<Rightarrow> rw_op list" where
  "WriteJSON err =
     (case errors_As_App err of
        Some (AppError c m fs cause) \<Rightarrow> writeAppErr c m fs
      | _ \<Rightarrow> writeAppErr CodeInternal ''internal error'' [])"

definition error_response :: "app_code \<Rightarrow> string \<Rightarrow> field_error list \<Rightarrow> response" where
  "error_response c m fs =
     \<lparr>rsp_Status = StatusOf c, rsp_Header = [(''Content-Type'', ''application/json'')],
      rsp_Body = [JsonChunk (JObj [(''error'', error_json c m fs)])]\<rparr>"

lemma response_of_writeAppErr [simp]: "response_of (writeAppErr c m fs) = error_response c m fs"
  by (simp add: writeAppErr_def error_response_def rw_defs)

lemma WriteJSON_simps [simp]:
  "WriteJSON (Validation m fs) = writeAppErr CodeValidation m fs"
  "WriteJSON (NotFound r i) = writeAppErr CodeNotFound (r @ '' not found: '' @ i) []"
  "WriteJSON (Conflict m) = writeAppErr CodeConflict m []"
  "WriteJSON (Internal m e) = writeAppErr CodeInternal m []"
  by (simp_all add: WriteJSON_def apperror_defs)

lemma StatusOf_range: "StatusOf c \<in> {400, 404, 409, 500}"
  by (cases c) auto

lemma errors_As_App_shape: "errors_As_App e = Some a \<Longrightarrow> \<exists>c m fs cause. a = AppError c m fs cause"
  by (induction e rule: errors_As_App.induct) auto

section \<open>Validation failures\<close>

datatype vrule = VRequired | VMin nat | VMax nat | VDive

datatype vval =
    VStr string
  | VInt int
  | VTime int
  | VList "(string \<times> vrule list \<times> vval) list list"

type_synonym vstruct = "(string \<times> vrule list \<times> vval) list"

record vfail =
  vf_Field :: string
  vf_Tag :: string
  vf_Param :: string

text \<open>\<open>VErrs\<close> is a \<open>validator.ValidationErrors\<close>, \<open>VOther\<close> any other error of \<open>vldtr.Struct\<close>.\<close>

datatype verdict = VOk | VErrs "vfail list" | VOther

type_synonym validator = "vstruct \<Rightarrow> verdict"

definition humanizeFieldError :: "vfail \<Rightarrow> string" where
  "humanizeFieldError fe =
     (if vf_Tag fe = ''required'' then vf_Field fe @ '' is required''
      else if vf_Tag fe = ''min'' then vf_Field fe @ '' is too short (min='' @ vf_Param fe @ '')''
      else if vf_Tag fe = ''max'' then vf_Field fe @ '' is too long (max='' @ vf_Param fe @ '')''
      else vf_Field fe @ '' is invalid ('' @ vf_Tag fe @ '')'')"

fun toValidationError :: "verdict \<Rightarrow> go_error" where
  "toValidationError (VErrs verr) =
     Validation ''input validation failed''
       (map (\<lambda>fe. \<lparr>fe_Field = vf_Field fe, fe_Tag = vf_Tag fe, fe_Message = humanizeFieldError fe\<rparr>) verr)"
| "toValidationError _ = Validation ''validation failed'' []"

lemma toValidationError_400:
  "\<exists>m fs. WriteJSON (toValidationError v) = writeAppErr CodeValidation m fs"
  by (cases v) auto

section \<open>Properties\<close>


end
