(* ===== verification/Gacha_Endpoint.thy ===== *)
theory Gacha_Endpoint
  imports Gacha_Service Apperror
begin

text \<open>
  \<open>internal/endpoint/gacha.go\<close>: the three handlers, over the service as the handler sees it (the
  interface \<open>GachaService\<close>) and an arbitrary validator.
\<close>

record 's GachaService =
  sv_Roll :: "string \<Rightarrow> string \<Rightarrow> int \<Rightarrow> 's \<Rightarrow> Roll list result \<times> 's"
  sv_ListHistory :: "string \<Rightarrow> int \<Rightarrow> 's \<Rightarrow> Roll list result \<times> 's"
  sv_GetPity :: "string \<Rightarrow> string \<Rightarrow> 's \<Rightarrow> int result \<times> 's"

definition gacha_iface :: "'s gacha_service \<Rightarrow> 's GachaService" where
  "gacha_iface svc = \<lparr>sv_Roll = gacha_Roll svc, sv_ListHistory = gacha_ListHistory svc,
     sv_GetPity = gacha_GetPity svc\<rparr>"

record rollReq =
  rr_PlayerID :: string
  rr_PoolID :: string
  rr_Count :: int

definition decode_rollReq :: "json option \<Rightarrow> rollReq option" where
  "decode_rollReq body =
     (case json_members body of
        None \<Rightarrow> None
      | Some ms \<Rightarrow>
          (let (p, ok1) = decode_field ''player'' dec_string '''' ms;
               (q, ok2) = decode_field ''pool'' dec_string '''' ms;
               (n, ok3) = decode_field ''count'' dec_int64 0 ms
           in if ok1 \<and> ok2 \<and> ok3 then Some \<lparr>rr_PlayerID = p, rr_PoolID = q, rr_Count = n\<rparr> else None))"

definition rollReq_tags :: "rollReq \<Rightarrow> vstruct" where
  "rollReq_tags req =
     [(''player'', [VRequired, VMin 1, VMax 64], VStr (rr_PlayerID req)),
      (''pool'', [VRequired, VMin 1, VMax 64], VStr (rr_PoolID req)),
      (''count'', [VRequired, VMin 1, VMax 10], VInt (rr_Count req))]"

definition rollToDTO :: "Roll \<Rightarrow> json" where
  "rollToDTO r = JObj [(''id'', JStr (ro_ID r)), (''player_id'', JStr (ro_PlayerID r)),
     (''pool_id'', JStr (ro_PoolID r)), (''card_id'', JStr (ro_CardID r)), (''rarity'', JStr (ro_Rarity r)),
     (''is_pity'', JBool (ro_IsPity r)), (''pulled_at'', JTime (ro_PulledAt r))]"

definition rollsToDTO :: "Roll list \<Rightarrow> json" where
  "rollsToDTO rs = JArr (map rollToDTO rs)"

definition roll_error :: "rollReq \<Rightarrow> go_error \<Rightarrow> go_error" where
  "roll_error req err =
     (if errors_Is err ErrPoolNotFound then NotFound ''gacha pool'' (rr_PoolID req)
      else if errors_Is err ErrInvalidCount then Validation (error_text err) []
      else if errors_Is err ErrEmptyPool then Internal ''pool has no cards'' err
      else Internal ''gacha roll'' err)"

definition GachaHandler_Roll :: "'s GachaService \<Rightarrow> validator \<Rightarrow> 's handler" where
  "GachaHandler_Roll svc vldtr r s =
     (case decode_rollReq (rq_Body r) of
        None \<Rightarrow> (WriteJSON (Validation ''invalid JSON body'' []), s)
      | Some req \<Rightarrow>
          (case vldtr (rollReq_tags req) of
             VOk \<Rightarrow>
               (case sv_Roll svc (rr_PlayerID req) (rr_PoolID req) (rr_Count req) s of
                  (Inl err, s) \<Rightarrow> (WriteJSON (roll_error req err), s)
                | (Inr rolls, s) \<Rightarrow> (WriteHeader 201 # writeJSON (rollsToDTO rolls), s))
           | v \<Rightarrow> (WriteJSON (toValidationError v), s)))"

definition GachaHandler_History :: "'s GachaService \<Rightarrow> 's handler" where
  "GachaHandler_History svc r s =
     (let playerID = rq_Param r ''playerId''
      in if playerID = '''' then (WriteJSON (Validation ''playerId path param is required'' []), s)
         else let limit = (if rq_Query r ''limit'' \<noteq> '''' then
                             (case strconv_Atoi (rq_Query r ''limit'') of
                                Some n \<Rightarrow> if n > 0 then n else 10
                              | None \<Rightarrow> 10)
                           else 10)
              in case sv_ListHistory svc playerID limit s of
                   (Inl err, s) \<Rightarrow> (WriteJSON (Internal ''gacha history'' err), s)
                 | (Inr rolls, s) \<Rightarrow> (writeJSON (rollsToDTO rolls), s))"

definition GachaHandler_Pity :: "'s GachaService \<Rightarrow> 's handler" where
  "GachaHandler_Pity svc r s =
     (let playerID = rq_Param r ''playerId''; poolID = rq_Param r ''poolId''
      in if playerID = '''' \<or> poolID = '''' then
           (WriteJSON (Validation ''playerId and poolId are required'' []), s)
         else case sv_GetPity svc playerID poolID s of
                (Inl err, s) \<Rightarrow> (WriteJSON (Internal ''gacha pity'' err), s)
              | (Inr pity, s) \<Rightarrow>
                  (writeJSON (JObj [(''counter'', JInt pity), (''player_id'', JStr playerID),
                                    (''pool_id'', JStr poolID)]), s))"

section \<open>Properties\<close>

lemma roll_error_status:
  "\<exists>c m fs. WriteJSON (roll_error req err) = writeAppErr c m fs \<and>
     c = (if errors_Is err ErrPoolNotFound then CodeNotFound
          else if errors_Is err ErrInvalidCount then CodeValidation else CodeInternal)"
  by (auto simp: roll_error_def)

text \<open>
  C25: the roll endpoint on the in-memory server. Every response is one of 201, 400, 404 and 500.
  A 201 carries the drawn rolls as a JSON array, between one and ten of them, which are exactly the
  rolls that were added to the store; every other response leaves the stored rolls and counters as
  they were. The 201 response is sent with an empty header: the \<open>Content-Type\<close> is set after
  \<open>WriteHeader\<close>.
\<close>

theorem roll_endpoint:
  "case GachaHandler_Roll (gacha_iface demo_service) vldtr rq (r, e) of
     (ops, r', e') \<Rightarrow>
       (\<exists>rolls. response_of ops = \<lparr>rsp_Status = 201, rsp_Header = [],
                   rsp_Body = [JsonChunk (JArr (map rollToDTO rolls))]\<rparr>
          \<and> 1 \<le> length rolls \<and> length rolls \<le> 10 \<and> g_rolls r' = g_rolls r @ rolls)
       \<or> (rsp_Status (response_of ops) \<in> {400, 404, 500}
          \<and> g_rolls r' = g_rolls r \<and> stored_pity r' = stored_pity r)"
proof -
  let ?h = "GachaHandler_Roll (gacha_iface demo_service) vldtr rq (r, e)"
  have bad: "rsp_Status (response_of (WriteJSON (toValidationError v))) = 400" for v
    using toValidationError_400 [of v] by (auto simp: error_response_def)
  have err: "rsp_Status (response_of (WriteJSON (roll_error req er))) \<in> {400, 404, 500}" for req er
    using roll_error_status [of req er] by (auto simp: error_response_def split: if_splits)
  show ?thesis
  proof (cases "decode_rollReq (rq_Body rq)")
    case None
    then show ?thesis by (simp add: GachaHandler_Roll_def error_response_def)
  next
    case (Some req)
    let ?call = "gacha_Roll demo_service (rr_PlayerID req) (rr_PoolID req) (rr_Count req) (r, e)"
    obtain res r' e' where call: "?call = (res, r', e')" by (metis surj_pair)
    have roll: "case res of
        Inl err \<Rightarrow> g_rolls r' = g_rolls r \<and> stored_pity r' = stored_pity r
      | Inr rolls \<Rightarrow> 1 \<le> length rolls \<and> length rolls \<le> 10 \<and> g_rolls r' = g_rolls r @ rolls"
    proof (cases res)
      case (Inl a)
      with call gacha_pair.client.Roll_error show ?thesis
        unfolding demo_service_def by fastforce
    next
      case (Inr rolls)
      with call have "gacha_Roll demo_service (rr_PlayerID req) (rr_PoolID req) (rr_Count req) (r, e)
          = (Inr rolls, r', e')" by simp
      then show ?thesis
        unfolding demo_service_def
        by (elim gacha_pair.client.Roll_okE) (use Inr in auto)
    qed
    show ?thesis
    proof (cases "vldtr (rollReq_tags req)")
      case VOk
      with Some call roll err show ?thesis
        by (cases res) (auto simp: GachaHandler_Roll_def gacha_iface_def rollsToDTO_def)
    qed (use Some bad in \<open>auto simp: GachaHandler_Roll_def simp del: toValidationError.simps\<close>)
  qed
qed

end
