(* ===== verification/Profile.thy ===== *)
theory Profile
  imports Go_World Apperror
begin

text \<open>
  Player profiles: \<open>domain/profile\<close>, the in-memory repository \<open>persistence/inmem/profile_repo.go\<close>,
  \<open>service/profile/service.go\<close> and the handlers of \<open>endpoint/profile.go\<close>. The locale
  \<open>profile_store\<close> is the contract of the \<open>Repository\<close> interface (an insert-only map); the handlers
  are proved correct against it, and the in-memory repository interprets it.
\<close>

section \<open>Domain, Repository interface and service\<close>

record Profile =
  pf_ID :: string
  pf_Name :: string
  pf_CreatedAt :: int

record 's profile_repository =
  pr_Get :: "string \<Rightarrow> 's \<Rightarrow> Profile result \<times> 's"
  pr_Create :: "Profile \<Rightarrow> 's \<Rightarrow> unit result \<times> 's"

record 's profile_service =
  ps_repo :: "'s profile_repository"
  ps_now :: "'s \<Rightarrow> int \<times> 's"

definition GetProfile :: "'s profile_service \<Rightarrow> string \<Rightarrow> 's \<Rightarrow> Profile result \<times> 's" where
  "GetProfile svc ident s =
     (let (r, s) = pr_Get (ps_repo svc) ident s in (wrap_result ''repo get'' r, s))"

definition CreateProfile :: "'s profile_service \<Rightarrow> string \<Rightarrow> string \<Rightarrow> 's \<Rightarrow> Profile result \<times> 's" where
  "CreateProfile svc ident name s =
     (let (now, s) = ps_now svc s;
          p = \<lparr>pf_ID = ident, pf_Name = name, pf_CreatedAt = now\<rparr>
      in case pr_Create (ps_repo svc) p s of
           (Inl err, s) \<Rightarrow> (Inl (Wrap ''repo create'' err), s)
         | (Inr _, s) \<Rightarrow> (Inr p, s))"

section \<open>The in-memory repository\<close>

record ProfileRepo =
  p_items :: "(string, Profile) gomap"

definition NewProfileRepo :: ProfileRepo where
  "NewProfileRepo = \<lparr>p_items = []\<rparr>"

definition inmem_profile_Get :: "string \<Rightarrow> ProfileRepo \<Rightarrow> Profile result \<times> ProfileRepo" where
  "inmem_profile_Get ident r =
     (case map_of (p_items r) ident of
        None \<Rightarrow> (Inl (Sentinel ErrProfileNotFound), r)
      | Some p \<Rightarrow> (Inr p, r))"

definition inmem_profile_Create :: "Profile \<Rightarrow> ProfileRepo \<Rightarrow> unit result \<times> ProfileRepo" where
  "inmem_profile_Create p r =
     (case map_of (p_items r) (pf_ID p) of
        Some _ \<Rightarrow> (Inl (Sentinel ErrProfileAlreadyExists), r)
      | None \<Rightarrow> (Inr (), r\<lparr>p_items := AList.update (pf_ID p) p (p_items r)\<rparr>))"

definition inmem_profile_repository :: "('s, ProfileRepo) field \<Rightarrow> 's profile_repository" where
  "inmem_profile_repository f =
     \<lparr>pr_Get = (\<lambda>k. on_field f (inmem_profile_Get k)),
      pr_Create = (\<lambda>p. on_field f (inmem_profile_Create p))\<rparr>"

definition NewProfileService :: "'s profile_repository \<Rightarrow> ('s, env) field \<Rightarrow> 's profile_service" where
  "NewProfileService repo e = \<lparr>ps_repo = repo, ps_now = on_field e time_Now\<rparr>"

section \<open>Handlers\<close>

record createReq =
  cr_ID :: string
  cr_Name :: string

definition decode_createReq :: "json option \<Rightarrow> createReq option" where
  "decode_createReq body =
     (case json_members body of
        None \<Rightarrow> None
      | Some ms \<Rightarrow>
          (let (i, ok1) = decode_field ''id'' dec_string '''' ms;
               (n, ok2) = decode_field ''name'' dec_string '''' ms
           in if ok1 \<and> ok2 then Some \<lparr>cr_ID = i, cr_Name = n\<rparr> else None))"

definition createReq_tags :: "createReq \<Rightarrow> vstruct" where
  "createReq_tags req =
     [(''id'', [VRequired, VMin 1, VMax 64], VStr (cr_ID req)),
      (''name'', [VRequired, VMin 1, VMax 128], VStr (cr_Name req))]"

definition profile_toDTO :: "Profile \<Rightarrow> json" where
  "profile_toDTO p = JObj [(''id'', JStr (pf_ID p)), (''name'', JStr (pf_Name p)),
     (''created_at'', JTime (pf_CreatedAt p))]"

definition ProfileHandler_Get :: "'s profile_service \<Rightarrow> 's handler" where
  "ProfileHandler_Get svc r s =
     (let ident = rq_Param r ''id''
      in if ident = '''' then (WriteJSON (Validation ''id path param is required'' []), s)
         else case GetProfile svc ident s of
                (Inl err, s) \<Rightarrow>
                  (if errors_Is err ErrProfileNotFound then (WriteJSON (NotFound ''profile'' ident), s)
                   else (WriteJSON (Internal ''get profile'' err), s))
              | (Inr p, s) \<Rightarrow> (writeJSON (profile_toDTO p), s))"

definition ProfileHandler_Create :: "'s profile_service \<Rightarrow> validator \<Rightarrow> 's handler" where
  "ProfileHandler_Create svc vldtr r s =
     (case decode_createReq (rq_Body r) of
        None \<Rightarrow> (WriteJSON (Validation ''invalid JSON body'' []), s)
      | Some req \<Rightarrow>
          (case vldtr (createReq_tags req) of
             VOk \<Rightarrow>
               (case CreateProfile svc (cr_ID req) (cr_Name req) s of
                  (Inl err, s) \<Rightarrow>
                    (if errors_Is err ErrProfileAlreadyExists
                     then (WriteJSON (Conflict ''profile already exists''), s)
                     else (WriteJSON (Internal ''create profile'' err), s))
                | (Inr p, s) \<Rightarrow> (WriteHeader 201 # writeJSON (profile_toDTO p), s))
           | v \<Rightarrow> (WriteJSON (toValidationError v), s)))"

section \<open>What the Repository interface promises\<close>

locale profile_store =
  fixes repo :: "'s profile_repository"
    and profiles :: "'s \<Rightarrow> string \<Rightarrow> Profile option"
  assumes Get_found: "profiles s k = Some p \<Longrightarrow> pr_Get repo k s = (Inr p, s)"
    and Get_missing: "profiles s k = None \<Longrightarrow> pr_Get repo k s = (Inl (Sentinel ErrProfileNotFound), s)"
    and Create_dup: "profiles s (pf_ID p) = Some q \<Longrightarrow>
      pr_Create repo p s = (Inl (Sentinel ErrProfileAlreadyExists), s)"
    and Create_new: "profiles s (pf_ID p) = None \<Longrightarrow>
      \<exists>s'. pr_Create repo p s = (Inr (), s') \<and> profiles s' = (profiles s)(pf_ID p \<mapsto> p)"

text \<open>A service over such a store; reading the clock leaves the profiles alone.\<close>

locale profile_client = profile_store "ps_repo svc" profiles
  for svc :: "'s profile_service" and profiles +
  assumes now_frame: "ps_now svc s = (t, s') \<Longrightarrow> profiles s' = profiles s"
begin

lemma Create_new_profile:
  assumes "profiles s k = None"
  shows "\<exists>t s'. CreateProfile svc k name s =
      (Inr \<lparr>pf_ID = k, pf_Name = name, pf_CreatedAt = t\<rparr>, s')
    \<and> profiles s' = (profiles s)(k \<mapsto> \<lparr>pf_ID = k, pf_Name = name, pf_CreatedAt = t\<rparr>)"
proof -
  obtain t s1 where now: "ps_now svc s = (t, s1)" by (cases "ps_now svc s")
  let ?p = "\<lparr>pf_ID = k, pf_Name = name, pf_CreatedAt = t\<rparr>"
  have "profiles s1 = profiles s" using now by (rule now_frame)
  with assms Create_new [of s1 ?p] obtain s2
    where "pr_Create (ps_repo svc) ?p s1 = (Inr (), s2)" "profiles s2 = (profiles s)(k \<mapsto> ?p)"
    by auto
  with now show ?thesis by (simp add: CreateProfile_def)
qed

lemma Create_existing_profile:
  assumes "profiles s k = Some q"
  shows "\<exists>s'. CreateProfile svc k name s = (Inl (Wrap ''repo create'' (Sentinel ErrProfileAlreadyExists)), s')
    \<and> profiles s' = profiles s"
proof -
  obtain t s1 where now: "ps_now svc s = (t, s1)" by (cases "ps_now svc s")
  then have "profiles s1 = profiles s" by (rule now_frame)
  with assms Create_dup [of s1 "\<lparr>pf_ID = k, pf_Name = name, pf_CreatedAt = t\<rparr>"] now show ?thesis
    by (simp add: CreateProfile_def)
qed

lemma Get_handler:
  assumes "rq_Param r ''id'' = k" "k \<noteq> ''''"
  shows "ProfileHandler_Get svc r s =
    (case profiles s k of
       None \<Rightarrow> WriteJSON (NotFound ''profile'' k) | Some p \<Rightarrow> writeJSON (profile_toDTO p), s)"
  using assms Get_found Get_missing
  by (auto simp: ProfileHandler_Get_def GetProfile_def split: option.splits)

lemma Create_handler:
  assumes "decode_createReq (rq_Body r) = Some req" "vldtr (createReq_tags req) = VOk"
    and "ProfileHandler_Create svc vldtr r s = (ops, s')"
  shows "case profiles s (cr_ID req) of
      Some q \<Rightarrow> rsp_Status (response_of ops) = 409 \<and> profiles s' = profiles s
    | None \<Rightarrow> \<exists>t. let p = \<lparr>pf_ID = cr_ID req, pf_Name = cr_Name req, pf_CreatedAt = t\<rparr>
        in response_of ops = \<lparr>rsp_Status = 201, rsp_Header = [], rsp_Body = [JsonChunk (profile_toDTO p)]\<rparr>
          \<and> profiles s' = (profiles s)(cr_ID req \<mapsto> p)"
proof (cases "profiles s (cr_ID req)")
  case None
  from Create_new_profile [OF this, of "cr_Name req"] obtain t s1 where
    c: "CreateProfile svc (cr_ID req) (cr_Name req) s =
      (Inr \<lparr>pf_ID = cr_ID req, pf_Name = cr_Name req, pf_CreatedAt = t\<rparr>, s1)"
    and p: "profiles s1 = (profiles s)(cr_ID req \<mapsto>
      \<lparr>pf_ID = cr_ID req, pf_Name = cr_Name req, pf_CreatedAt = t\<rparr>)" by blast
  with assms have "s' = s1" by (simp add: ProfileHandler_Create_def)
  with c p None assms show ?thesis
    by (auto simp: ProfileHandler_Create_def Let_def intro!: exI [of _ t])
next
  case (Some q)
  from Create_existing_profile [OF this, of "cr_Name req"] show ?thesis
    using Some assms by (auto simp: ProfileHandler_Create_def error_response_def)
qed

text \<open>No create request changes a profile that exists.\<close>

lemma Create_handler_keeps:
  assumes "profiles s k = Some p"
  shows "profiles (snd (ProfileHandler_Create svc vldtr r s)) k = Some p"
proof (cases "\<exists>req. decode_createReq (rq_Body r) = Some req \<and> vldtr (createReq_tags req) = VOk")
  case True
  then obtain req where "decode_createReq (rq_Body r) = Some req" "vldtr (createReq_tags req) = VOk"
    by blast
  from Create_handler [OF this surjective_pairing [of "ProfileHandler_Create svc vldtr r s"]] assms show ?thesis
    by (auto simp: Let_def split: option.splits)
next
  case False
  with assms show ?thesis
    by (auto simp: ProfileHandler_Create_def split: option.splits verdict.splits)
qed

end

text \<open>The in-memory repository in a field of the state keeps the contract.\<close>

definition stored_profiles :: "ProfileRepo \<Rightarrow> string \<Rightarrow> Profile option" where
  "stored_profiles r = map_of (p_items r)"

locale inmem_profile = two_fields f e
  for f :: "('s, ProfileRepo) field" and e :: "('s, env) field"

sublocale inmem_profile \<subseteq> client: profile_client
  "NewProfileService (inmem_profile_repository f) e" "\<lambda>s. stored_profiles (fget f s)"
  by unfold_locales
    (auto simp: NewProfileService_def inmem_profile_repository_def inmem_profile_Get_def
      inmem_profile_Create_def stored_profiles_def on_field_def time_Now_def update_conv'
      split: option.splits dest: on_g_keeps_f)

interpretation profile_pair: inmem_profile fst_of snd_of
  by unfold_locales

section \<open>Properties\<close>

abbreviation inmem_profile_service :: "(ProfileRepo \<times> env) profile_service" where
  "inmem_profile_service \<equiv> NewProfileService (inmem_profile_repository fst_of) snd_of"

fun profile_requests ::
  "validator \<Rightarrow> request list \<Rightarrow> ProfileRepo \<times> env \<Rightarrow> ProfileRepo \<times> env" where
  "profile_requests vldtr [] s = s"
| "profile_requests vldtr (r # rs) s =
     profile_requests vldtr rs (snd (ProfileHandler_Create inmem_profile_service vldtr r s))"

lemma profile_requests_keep:
  "stored_profiles (fst s) k = Some p \<Longrightarrow> stored_profiles (fst (profile_requests vldtr rs s)) k = Some p"
proof (induction rs arbitrary: s)
  case Nil
  then show ?case by simp
next
  case (Cons r rs)
  with profile_pair.client.Create_handler_keeps [of s k p vldtr r] show ?case by simp
qed

text \<open>
  C22: the life of a profile over HTTP. A well-formed create request for an identifier that is not
  taken is answered with 201 and a profile of that identifier and name; from then on a read of the
  identifier is answered with 200 and the same profile, whatever further create requests were
  handled in between, and each further create request for the identifier is answered with 409.
\<close>

theorem profile_lifecycle:
  assumes "decode_createReq (rq_Body r) = Some req" "vldtr (createReq_tags req) = VOk"
    and "stored_profiles (fst s) (cr_ID req) = None"
    and "rq_Param g ''id'' = cr_ID req" "cr_ID req \<noteq> ''''"
  shows "\<exists>t. let p = \<lparr>pf_ID = cr_ID req, pf_Name = cr_Name req, pf_CreatedAt = t\<rparr>;
      (ops, s1) = ProfileHandler_Create inmem_profile_service vldtr r s;
      s2 = profile_requests vldtr rs s1
    in response_of ops = \<lparr>rsp_Status = 201, rsp_Header = [], rsp_Body = [JsonChunk (profile_toDTO p)]\<rparr>
     \<and> ProfileHandler_Get inmem_profile_service g s2 = (writeJSON (profile_toDTO p), s2)
     \<and> rsp_Status (response_of (fst (ProfileHandler_Create inmem_profile_service vldtr r s2))) = 409"
proof -
  obtain ops s1 where step: "ProfileHandler_Create inmem_profile_service vldtr r s = (ops, s1)"
    by (cases "ProfileHandler_Create inmem_profile_service vldtr r s")
  from profile_pair.client.Create_handler [OF assms(1,2) this] assms(3)
  obtain t where t: "response_of ops = \<lparr>rsp_Status = 201, rsp_Header = [], rsp_Body =
      [JsonChunk (profile_toDTO \<lparr>pf_ID = cr_ID req, pf_Name = cr_Name req, pf_CreatedAt = t\<rparr>)]\<rparr>"
    and p: "stored_profiles (fst s1) (cr_ID req) =
      Some \<lparr>pf_ID = cr_ID req, pf_Name = cr_Name req, pf_CreatedAt = t\<rparr>"
    by (auto simp: Let_def)
  let ?s2 = "profile_requests vldtr rs s1"
  note p2 = profile_requests_keep [OF p, of vldtr rs]
  have "rsp_Status (response_of (fst (ProfileHandler_Create inmem_profile_service vldtr r ?s2))) = 409"
    using profile_pair.client.Create_handler [OF assms(1,2)
        surjective_pairing [of "ProfileHandler_Create inmem_profile_service vldtr r ?s2"]] p2 by simp
  with step t p2 profile_pair.client.Get_handler [OF assms(4,5), of ?s2] show ?thesis
    by (intro exI [of _ t]) simp
qed

theorem profile_lifecycle_witness:
  "let e = \<lparr>env_rng = (\<lambda>_. 0), env_uuid = (\<lambda>_. Inr ''u''), env_clock = int, env_pos = 7\<rparr>;
       r = \<lparr>rq_Method = ''POST'', rq_Header = (\<lambda>_. ''''), rq_Query = (\<lambda>_. ''''), rq_Param = (\<lambda>_. ''p1''),
            rq_RemoteAddr = '''', rq_Body = Some (JObj [(''id'', JStr ''p1''), (''name'', JStr ''Miku'')]),
            rq_BodyErr = '''', rq_Auth = None\<rparr>;
       (ops, s1) = ProfileHandler_Create inmem_profile_service (\<lambda>_. VOk) r (NewProfileRepo, e)
   in \<exists>t. ProfileHandler_Get inmem_profile_service r (profile_requests (\<lambda>_. VOk) [r, r] s1) =
        (writeJSON (profile_toDTO \<lparr>pf_ID = ''p1'', pf_Name = ''Miku'', pf_CreatedAt = t\<rparr>),
         profile_requests (\<lambda>_. VOk) [r, r] s1)"
proof -
  let ?e = "\<lparr>env_rng = (\<lambda>_. 0), env_uuid = (\<lambda>_. Inr ''u''), env_clock = int, env_pos = 7\<rparr>"
  let ?r = "\<lparr>rq_Method = ''POST'', rq_Header = (\<lambda>_. ''''), rq_Query = (\<lambda>_. ''''), rq_Param = (\<lambda>_. ''p1''),
            rq_RemoteAddr = '''', rq_Body = Some (JObj [(''id'', JStr ''p1''), (''name'', JStr ''Miku'')]),
            rq_BodyErr = '''', rq_Auth = None\<rparr>"
  have d: "decode_createReq (rq_Body ?r) = Some \<lparr>cr_ID = ''p1'', cr_Name = ''Miku''\<rparr>"
    by (simp add: decode_createReq_def decode_field_def decode_member_def strings_EqualFold_def
        lower_byte_def)
  have n: "stored_profiles (fst (NewProfileRepo, ?e)) (cr_ID \<lparr>cr_ID = ''p1'', cr_Name = ''Miku''\<rparr>) = None"
    by (simp add: stored_profiles_def NewProfileRepo_def)
  show ?thesis
    using profile_lifecycle [of ?r _ "\<lambda>_. VOk" "(NewProfileRepo, ?e)" ?r "[?r, ?r]", OF d refl n]
    by (auto simp: Let_def simp del: profile_requests.simps split: prod.splits)
qed

end
