(* ===== verification/Ranking.thy ===== *)
theory Ranking
  imports Go_World Apperror
begin

text \<open>
  Rankings: \<open>domain/ranking\<close>, the in-memory leaderboard \<open>persistence/inmem/leaderboard.go\<close> and
  \<open>service/ranking/service.go\<close>. The specification of a ranking is the predicate \<open>is_ranking\<close>, which
  has exactly one solution for every finite table of scores; the locale \<open>ranking_store\<close> states the
  \<open>Store\<close> interface with it.
\<close>

section \<open>Domain\<close>

record Entry =
  en_PlayerID :: string
  en_Score :: int
  en_Rank :: int

definition MaxTopN :: int where "MaxTopN = 100"
definition DefaultTopN :: int where "DefaultTopN = 10"
definition MaxAroundRadius :: int where "MaxAroundRadius = 25"
definition DefaultAroundRadius :: int where "DefaultAroundRadius = 5"

lemmas ranking_consts = MaxTopN_def DefaultTopN_def MaxAroundRadius_def DefaultAroundRadius_def

section \<open>The in-memory leaderboard\<close>

record Leaderboard =
  lb_scores :: "(string, (string, int) gomap) gomap"

definition NewLeaderboard :: Leaderboard where
  "NewLeaderboard = \<lparr>lb_scores = []\<rparr>"

definition inmem_IncrBy :: "string \<Rightarrow> string \<Rightarrow> int \<Rightarrow> Leaderboard \<Rightarrow> int result \<times> Leaderboard" where
  "inmem_IncrBy eventID playerID delta l =
     (let inner = (case map_of (lb_scores l) eventID of None \<Rightarrow> [] | Some m \<Rightarrow> m);
          v = int64 ((case map_of inner playerID of None \<Rightarrow> 0 | Some n \<Rightarrow> n) + delta)
      in (Inr v, l\<lparr>lb_scores := AList.update eventID (AList.update playerID v inner) (lb_scores l)\<rparr>))"

text \<open>The comparison of \<open>sortedLocked\<close>: score descending, then player descending.\<close>

definition entry_less :: "Entry \<Rightarrow> Entry \<Rightarrow> bool" where
  "entry_less a b =
     (if en_Score a \<noteq> en_Score b then en_Score a > en_Score b else en_PlayerID a > en_PlayerID b)"

fun assign_ranks :: "int \<Rightarrow> Entry list \<Rightarrow> Entry list" where
  "assign_ranks i [] = []"
| "assign_ranks i (e # es) = e\<lparr>en_Rank := i + 1\<rparr> # assign_ranks (i + 1) es"

definition sortedLocked :: "Leaderboard \<Rightarrow> string \<Rightarrow> Entry list" where
  "sortedLocked l eventID =
     (case map_of (lb_scores l) eventID of
        None \<Rightarrow> []
      | Some inner \<Rightarrow>
          assign_ranks 0 (sort_Slice entry_less
            (map (\<lambda>(p, sc). \<lparr>en_PlayerID = p, en_Score = sc, en_Rank = 0\<rparr>) inner)))"

definition inmem_Top :: "string \<Rightarrow> int \<Rightarrow> Leaderboard \<Rightarrow> Entry list result \<times> Leaderboard" where
  "inmem_Top eventID n l =
     (let sorted = sortedLocked l eventID;
          n = (if n > int (length sorted) then int (length sorted) else n)
      in if n < 0 then (Inl (Panic ''slice bounds out of range''), l)
         else (Inr (take (nat n) sorted), l))"

definition inmem_Rank :: "string \<Rightarrow> string \<Rightarrow> Leaderboard \<Rightarrow> Entry result \<times> Leaderboard" where
  "inmem_Rank eventID playerID l =
     (case find (\<lambda>e. en_PlayerID e = playerID) (sortedLocked l eventID) of
        Some e \<Rightarrow> (Inr e, l)
      | None \<Rightarrow> (Inl (Sentinel ErrPlayerNotRanked), l))"

fun player_index :: "int \<Rightarrow> string \<Rightarrow> Entry list \<Rightarrow> int" where
  "player_index i playerID [] = -1"
| "player_index i playerID (e # es) =
     (if en_PlayerID e = playerID then i else player_index (i + 1) playerID es)"

definition inmem_Around :: "string \<Rightarrow> string \<Rightarrow> int \<Rightarrow> Leaderboard \<Rightarrow> Entry list result \<times> Leaderboard" where
  "inmem_Around eventID playerID radius l =
     (let sorted = sortedLocked l eventID; idx = player_index 0 playerID sorted
      in if idx < 0 then (Inl (Sentinel ErrPlayerNotRanked), l)
         else let start = int64 (idx - radius); start = (if start < 0 then 0 else start);
                  end' = int64 (idx + radius + 1);
                  end' = (if end' > int (length sorted) then int (length sorted) else end')
              in if int64 (end' - start) < 0 then (Inl (Panic ''makeslice: len out of range''), l)
                 else (Inr (take (nat (end' - start)) (drop (nat start) sorted)), l))"

section \<open>Store interface and service\<close>

record 's ranking_store =
  rs_IncrBy :: "string \<Rightarrow> string \<Rightarrow> int \<Rightarrow> 's \<Rightarrow> int result \<times> 's"
  rs_Top :: "string \<Rightarrow> int \<Rightarrow> 's \<Rightarrow> Entry list result \<times> 's"
  rs_Rank :: "string \<Rightarrow> string \<Rightarrow> 's \<Rightarrow> Entry result \<times> 's"
  rs_Around :: "string \<Rightarrow> string \<Rightarrow> int \<Rightarrow> 's \<Rightarrow> Entry list result \<times> 's"

definition inmem_ranking_store :: "('s, Leaderboard) field \<Rightarrow> 's ranking_store" where
  "inmem_ranking_store f =
     \<lparr>rs_IncrBy = (\<lambda>ev p d. on_field f (inmem_IncrBy ev p d)), rs_Top = (\<lambda>ev n. on_field f (inmem_Top ev n)),
      rs_Rank = (\<lambda>ev p. on_field f (inmem_Rank ev p)),
      rs_Around = (\<lambda>ev p r. on_field f (inmem_Around ev p r))\<rparr>"

definition ranking_Top :: "'s ranking_store \<Rightarrow> string \<Rightarrow> int \<Rightarrow> 's \<Rightarrow> Entry list result \<times> 's" where
  "ranking_Top store eventID n s =
     (let n = (if n \<le> 0 then DefaultTopN else n)
      in if n > MaxTopN then (Inl (Sentinel ErrInvalidLimit), s)
         else let (r, s) = rs_Top store eventID n s in (wrap_result ''store.Top'' r, s))"

definition ranking_Around ::
  "'s ranking_store \<Rightarrow> string \<Rightarrow> string \<Rightarrow> int \<Rightarrow> 's \<Rightarrow> Entry list result \<times> 's" where
  "ranking_Around store eventID playerID radius s =
     (let radius = (if radius < 0 then DefaultAroundRadius else radius)
      in if radius > MaxAroundRadius then (Inl (Sentinel ErrInvalidLimit), s)
         else case rs_Around store eventID playerID radius s of
                (Inl err, s) \<Rightarrow>
                  (if errors_Is err ErrPlayerNotRanked then (Inl err, s)
                   else (Inl (Wrap ''store.Around'' err), s))
              | (Inr entries, s) \<Rightarrow> (Inr entries, s))"

definition ranking_Rank :: "'s ranking_store \<Rightarrow> string \<Rightarrow> string \<Rightarrow> 's \<Rightarrow> Entry result \<times> 's" where
  "ranking_Rank store eventID playerID s =
     (case rs_Rank store eventID playerID s of
        (Inl err, s) \<Rightarrow>
          (if errors_Is err ErrPlayerNotRanked then (Inl err, s)
           else (Inl (Wrap ''store.Rank'' err), s))
      | (Inr entry, s) \<Rightarrow> (Inr entry, s))"

section \<open>Specification of a ranking\<close>

text \<open>Player \<open>p\<close> with score \<open>a\<close> stands before player \<open>q\<close> with score \<open>b\<close>.\<close>

definition beats :: "string \<Rightarrow> int \<Rightarrow> string \<Rightarrow> int \<Rightarrow> bool" where
  "beats p a q b \<longleftrightarrow> a > b \<or> a = b \<and> p > q"

text \<open>
  The entries are exactly the scored players with their scores, each before all those it beats,
  numbered from 1.
\<close>

definition is_ranking :: "(string \<Rightarrow> int option) \<Rightarrow> Entry list \<Rightarrow> bool" where
  "is_ranking m es \<longleftrightarrow>
     (\<forall>p a. m p = Some a \<longleftrightarrow> (\<exists>e\<in>set es. en_PlayerID e = p \<and> en_Score e = a)) \<and>
     sorted_wrt (\<lambda>e d. beats (en_PlayerID e) (en_Score e) (en_PlayerID d) (en_Score d)) es \<and>
     map en_Rank es = map int [1..<Suc (length es)]"

lemma entry_less_beats:
  "entry_less e d \<longleftrightarrow> beats (en_PlayerID e) (en_Score e) (en_PlayerID d) (en_Score d)"
  by (auto simp: entry_less_def beats_def)

interpretation entry_order: strict_weak_less entry_less
  by unfold_locales (auto simp: entry_less_def split: if_splits)

lemma beats_irrefl [simp]: "\<not> beats p a p a"
  by (simp add: beats_def)

lemma beats_asym: "beats p a q b \<Longrightarrow> \<not> beats q b p a"
  by (auto simp: beats_def)

lemma beats_total: "p \<noteq> q \<Longrightarrow> beats p a q b \<or> beats q b p a"
  by (auto simp: beats_def)

subsection \<open>Consequences of the specification\<close>

lemma is_ranking_rank: "is_ranking m es \<Longrightarrow> i < length es \<Longrightarrow> en_Rank (es ! i) = int i + 1"
  by (auto simp: is_ranking_def simp flip: nth_map [of i es en_Rank] simp del: upt_Suc)

lemma is_ranking_strict:
  "is_ranking m es \<Longrightarrow> i < j \<Longrightarrow> j < length es \<Longrightarrow>
     beats (en_PlayerID (es ! i)) (en_Score (es ! i)) (en_PlayerID (es ! j)) (en_Score (es ! j))"
  by (auto simp: is_ranking_def sorted_wrt_iff_nth_less)

lemma is_ranking_distinct: "is_ranking m es \<Longrightarrow> distinct (map en_PlayerID es)"
proof -
  assume r: "is_ranking m es"
  have "en_PlayerID (es ! i) \<noteq> en_PlayerID (es ! j)" if "i < j" "j < length es" for i j
  proof
    assume eq: "en_PlayerID (es ! i) = en_PlayerID (es ! j)"
    have "m (en_PlayerID (es ! i)) = Some (en_Score (es ! i))"
      "m (en_PlayerID (es ! j)) = Some (en_Score (es ! j))"
      using r that unfolding is_ranking_def by (metis nth_mem order.strict_trans)+
    with eq is_ranking_strict [OF r that] show False by simp
  qed
  then show ?thesis by (auto simp: distinct_conv_nth neq_iff)
qed

lemma ex_key: "(\<exists>e\<in>set es. en_PlayerID e = p \<and> en_Score e = a) \<longleftrightarrow>
    (p, a) \<in> set (map (\<lambda>e. (en_PlayerID e, en_Score e)) es)"
  by (auto simp: image_iff)

lemma is_ranking_keys:
  "is_ranking m es \<Longrightarrow> set (map (\<lambda>e. (en_PlayerID e, en_Score e)) es) = {(p, a). m p = Some a}"
  unfolding is_ranking_def ex_key by (auto simp del: set_map)

text \<open>There is only one ranking of a table of scores.\<close>

lemma is_ranking_unique:
  assumes "is_ranking m es" "is_ranking m ds"
  shows "es = ds"
proof -
  let ?key = "\<lambda>e. (en_PlayerID e, en_Score e)"
  let ?le = "\<lambda>x y. beats (fst x) (snd x) (fst y) (snd y)"
  have "set (map ?key es) = set (map ?key ds)"
    using is_ranking_keys [OF assms(1)] is_ranking_keys [OF assms(2)] by simp
  moreover have dist: "distinct (map ?key es)" "distinct (map ?key ds)"
    using is_ranking_distinct [OF assms(1)] is_ranking_distinct [OF assms(2)]
    by (auto simp: distinct_map inj_on_def)
  ultimately have "mset (map ?key es) = mset (map ?key ds)"
    by (simp only: set_eq_iff_mset_eq_distinct)
  moreover have "sorted_wrt ?le (map ?key es)" "sorted_wrt ?le (map ?key ds)"
    using assms by (simp_all add: is_ranking_def sorted_wrt_map)
  ultimately have keys: "map ?key es = map ?key ds"
    by (intro sorted_perm_unique [of ?le]) (auto dest: beats_asym)
  then have len: "length es = length ds" by (metis length_map)
  show ?thesis
  proof (rule nth_equalityI [OF len])
    fix i assume i: "i < length es"
    with len have "?key (es ! i) = ?key (ds ! i)"
      using arg_cong [OF keys, of "\<lambda>xs. xs ! i"] by simp
    with is_ranking_rank [OF assms(1) i] is_ranking_rank [OF assms(2)] i len show "es ! i = ds ! i"
      by simp
  qed
qed

text \<open>The rank of a player is one more than the number of players that beat it.\<close>

lemma is_ranking_count:
  assumes r: "is_ranking m es" and e: "e \<in> set es"
  shows "en_Rank e = 1 + int (card {q. \<exists>b. m q = Some b \<and> beats q b (en_PlayerID e) (en_Score e)})"
proof -
  obtain i where i: "i < length es" "e = es ! i" using e by (metis in_set_conv_nth)
  have "{q. \<exists>b. m q = Some b \<and> beats q b (en_PlayerID e) (en_Score e)} = en_PlayerID ` set (take i es)"
    (is "?L = ?R")
  proof
    show "?R \<subseteq> ?L"
    proof
      fix q assume "q \<in> ?R"
      then obtain j where j: "j < i" "q = en_PlayerID (es ! j)"
        using i by (auto simp: in_set_conv_nth)
      then have "m q = Some (en_Score (es ! j))"
        using r i unfolding is_ranking_def by (metis nth_mem order.strict_trans)
      with is_ranking_strict [OF r j(1) i(1)] i j show "q \<in> ?L" by auto
    qed
    show "?L \<subseteq> ?R"
    proof
      fix q assume "q \<in> ?L"
      then obtain b where b: "m q = Some b" "beats q b (en_PlayerID e) (en_Score e)" by auto
      then obtain d where "d \<in> set es" "en_PlayerID d = q" "en_Score d = b"
        using r unfolding is_ranking_def by metis
      then obtain j where j: "j < length es" "en_PlayerID (es ! j) = q" "en_Score (es ! j) = b"
        by (metis in_set_conv_nth)
      have "j < i"
      proof (rule ccontr)
        assume "\<not> j < i"
        then consider "j = i" | "i < j" by linarith
        then show False
          using b j i is_ranking_strict [OF r _ j(1), of i] beats_asym by cases auto
      qed
      with j show "q \<in> ?R" by (force simp: in_set_conv_nth i)
    qed
  qed
  moreover have "card (en_PlayerID ` set (take i es)) = i"
    using is_ranking_distinct [OF r] i
    by (metis distinct_card distinct_take length_map length_take less_or_eq_imp_le list.set_map
        min.absorb2 take_map)
  ultimately show ?thesis using is_ranking_rank [OF r i(1)] i by simp
qed

subsection \<open>The in-memory leaderboard computes the ranking\<close>

definition board_wf :: "Leaderboard \<Rightarrow> bool" where
  "board_wf l \<longleftrightarrow> gomap_wf (lb_scores l) \<and> (\<forall>(ev, m)\<in>set (lb_scores l). gomap_wf m)"

definition board_scores :: "Leaderboard \<Rightarrow> string \<Rightarrow> string \<Rightarrow> int option" where
  "board_scores l ev = (case map_of (lb_scores l) ev of None \<Rightarrow> Map.empty | Some m \<Rightarrow> map_of m)"

lemma assign_ranks_map:
  "map en_PlayerID (assign_ranks i es) = map en_PlayerID es"
  "map en_Score (assign_ranks i es) = map en_Score es"
  "length (assign_ranks i es) = length es"
  by (induction es arbitrary: i) auto

lemma assign_ranks_keys:
  "map (\<lambda>e. (en_PlayerID e, en_Score e)) (assign_ranks i es) = map (\<lambda>e. (en_PlayerID e, en_Score e)) es"
  by (induction es arbitrary: i) auto

lemma assign_ranks_rank: "map en_Rank (assign_ranks (int i) es) = map int [Suc i..<Suc (i + length es)]"
proof (induction es arbitrary: i)
  case Nil
  then show ?case by simp
next
  case (Cons e es)
  have "assign_ranks (int i + 1) es = assign_ranks (int (Suc i)) es" by (simp add: add.commute)
  with Cons.IH [of "Suc i"] show ?case by (simp add: upt_rec del: upt_Suc)
qed

lemma assign_ranks_nth:
  "k < length es \<Longrightarrow> en_PlayerID (assign_ranks i es ! k) = en_PlayerID (es ! k) \<and>
     en_Score (assign_ranks i es ! k) = en_Score (es ! k)"
  by (metis assign_ranks_map nth_map)

lemma is_ranking_sortedLocked:
  assumes "board_wf l"
  shows "is_ranking (board_scores l ev) (sortedLocked l ev)"
proof (cases "map_of (lb_scores l) ev")
  case None
  then show ?thesis by (simp add: is_ranking_def board_scores_def sortedLocked_def)
next
  case (Some inner)
  let ?raw = "map (\<lambda>(p, sc). \<lparr>en_PlayerID = p, en_Score = sc, en_Rank = 0\<rparr>) inner"
  let ?sorted = "sort_Slice entry_less ?raw"
  let ?es = "assign_ranks 0 ?sorted"
  have wf: "gomap_wf inner" using assms Some by (auto simp: board_wf_def dest: map_of_SomeD)
  have es: "sortedLocked l ev = ?es" and sc: "board_scores l ev = map_of inner"
    using Some by (simp_all add: sortedLocked_def board_scores_def)
  have keys: "(\<exists>e\<in>set ?es. en_PlayerID e = p \<and> en_Score e = a) \<longleftrightarrow> (p, a) \<in> set inner" for p a
    unfolding ex_key assign_ranks_keys by (force simp: image_iff)
  have sorted: "sorted_wrt (\<lambda>e d. beats (en_PlayerID e) (en_Score e) (en_PlayerID d) (en_Score d)) ?es"
  proof -
    have "distinct (map en_PlayerID ?raw)"
      using wf by (simp add: gomap_wf_def comp_def case_prod_unfold)
    then have dist: "distinct (map en_PlayerID ?sorted)"
      by (metis mset_eq_imp_distinct_iff mset_map mset_sort_Slice)
    have s: "sorted_wrt (\<lambda>a b. \<not> entry_less b a) ?sorted"
      using entry_order.sorted_by_sort_Slice by (simp add: sorted_by_def)
    have "entry_less (?sorted ! i) (?sorted ! j)" if "i < j" "j < length ?sorted" for i j
    proof -
      have "en_PlayerID (?sorted ! i) \<noteq> en_PlayerID (?sorted ! j)"
        using dist that by (auto simp: distinct_conv_nth)
      moreover have "\<not> entry_less (?sorted ! j) (?sorted ! i)"
        using s that by (auto simp: sorted_wrt_iff_nth_less)
      ultimately show ?thesis using beats_total unfolding entry_less_beats by blast
    qed
    then show ?thesis
      by (auto simp: sorted_wrt_iff_nth_less assign_ranks_map(3) assign_ranks_nth entry_less_beats)
  qed
  have "map en_Rank ?es = map int [1..<Suc (length ?es)]"
    using assign_ranks_rank [of 0 ?sorted] by (simp add: assign_ranks_map(3))
  with keys sorted wf show ?thesis
    by (simp add: is_ranking_def es sc gomap_wf_def)
qed

lemma board_wf_New [simp]: "board_wf NewLeaderboard"
  by (simp add: board_wf_def NewLeaderboard_def)

lemma board_wf_IncrBy:
  assumes "board_wf l"
  shows "board_wf (snd (inmem_IncrBy ev p d l))"
proof -
  have "gomap_wf (case map_of (lb_scores l) ev of None \<Rightarrow> [] | Some m \<Rightarrow> m)"
    using assms by (auto simp: board_wf_def dest: map_of_SomeD split: option.splits)
  moreover have "gomap_wf m" if "(k, m) \<in> set (AList.update ev x (lb_scores l))" "gomap_wf x" for k m x
    using that assms set_update_subset [of ev x "lb_scores l"] by (auto simp: board_wf_def)
  ultimately show ?thesis using assms by (auto simp: inmem_IncrBy_def board_wf_def Let_def)
qed

definition score_or_0 :: "int option \<Rightarrow> int" where
  "score_or_0 x = (case x of None \<Rightarrow> 0 | Some n \<Rightarrow> n)"

lemma board_scores_IncrBy:
  "inmem_IncrBy ev p d l = (r, l') \<Longrightarrow>
     r = Inr (int64 (score_or_0 (board_scores l ev p) + d)) \<and>
     board_scores l' = (board_scores l)(ev := (board_scores l ev)(p \<mapsto> int64 (score_or_0 (board_scores l ev p) + d)))"
  by (auto simp: inmem_IncrBy_def board_scores_def score_or_0_def Let_def fun_eq_iff update_conv'
      split: option.splits)

text \<open>Searching by player.\<close>

lemma player_index_nth:
  "distinct (map en_PlayerID es) \<Longrightarrow> k < length es \<Longrightarrow> player_index i (en_PlayerID (es ! k)) es = i + int k"
proof (induction es arbitrary: i k)
  case Nil
  then show ?case by simp
next
  case (Cons e es)
  then show ?case by (cases k) auto
qed

lemma player_index_missing: "p \<notin> en_PlayerID ` set es \<Longrightarrow> player_index i p es = -1"
  by (induction es arbitrary: i) auto

lemma find_player:
  "distinct (map en_PlayerID es) \<Longrightarrow> e \<in> set es \<Longrightarrow> find (\<lambda>x. en_PlayerID x = en_PlayerID e) es = Some e"
  by (induction es) auto

text \<open>A slice as a filter on positions.\<close>

lemma filter_window:
  assumes "\<And>i. i < length xs \<Longrightarrow> P (xs ! i) \<longleftrightarrow> lo \<le> i \<and> i < hi" "lo \<le> hi"
  shows "filter P xs = take (hi - lo) (drop lo xs)"
proof -
  have "xs = take lo xs @ take (hi - lo) (drop lo xs) @ drop hi xs"
    using assms(2) by (metis append_take_drop_id drop_drop le_add_diff_inverse2)
  moreover have "filter P (take lo xs) = []"
    using assms(1) by (auto simp: filter_empty_conv in_set_conv_nth)
  moreover have "filter P (drop hi xs) = []"
    using assms(1) by (auto simp: filter_empty_conv in_set_conv_nth)
  moreover have "filter P (take (hi - lo) (drop lo xs)) = take (hi - lo) (drop lo xs)"
    using assms(1) by (auto simp: filter_id_conv in_set_conv_nth)
  ultimately show ?thesis by (metis append_Nil append_Nil2 filter_append)
qed

section \<open>What the Store interface promises\<close>

definition window :: "int \<Rightarrow> Entry \<Rightarrow> Entry list \<Rightarrow> Entry list" where
  "window radius e es = filter (\<lambda>d. \<bar>en_Rank d - en_Rank e\<bar> \<le> radius) es"

text \<open>What a store that is only read promises, and what it promises of increments.\<close>

locale ranking_view =
  fixes store :: "'s ranking_store"
    and scores :: "'s \<Rightarrow> string \<Rightarrow> string \<Rightarrow> int option"
    and ok :: "'s \<Rightarrow> bool"
  assumes ranking_ex: "ok s \<Longrightarrow> \<exists>es. is_ranking (scores s ev) es"
    and Top_ok: "ok s \<Longrightarrow> is_ranking (scores s ev) es \<Longrightarrow> 0 \<le> n \<Longrightarrow> n \<le> MaxTopN \<Longrightarrow>
      rs_Top store ev n s = (Inr (take (nat n) es), s)"
    and Rank_ok: "ok s \<Longrightarrow> is_ranking (scores s ev) es \<Longrightarrow> e \<in> set es \<Longrightarrow>
      rs_Rank store ev (en_PlayerID e) s = (Inr e, s)"
    and Around_ok: "ok s \<Longrightarrow> is_ranking (scores s ev) es \<Longrightarrow> e \<in> set es \<Longrightarrow> int (length es) \<le> 2 ^ 62 \<Longrightarrow>
      0 \<le> radius \<Longrightarrow> radius \<le> MaxAroundRadius \<Longrightarrow>
      rs_Around store ev (en_PlayerID e) radius s = (Inr (window radius e es), s)"
    and unranked: "ok s \<Longrightarrow> scores s ev p = None \<Longrightarrow>
      rs_Rank store ev p s = (Inl (Sentinel ErrPlayerNotRanked), s) \<and>
      rs_Around store ev p radius s = (Inl (Sentinel ErrPlayerNotRanked), s)"
begin

lemma service_Top:
  assumes "ok s" "is_ranking (scores s ev) es"
  shows "ranking_Top store ev n s =
    (if n > MaxTopN then Inl (Sentinel ErrInvalidLimit)
     else Inr (take (nat (if n \<le> 0 then DefaultTopN else n)) es), s)"
  using assms Top_ok [OF assms] by (simp add: ranking_Top_def ranking_consts)

lemma service_Rank:
  assumes "ok s" "is_ranking (scores s ev) es"
  shows "ranking_Rank store ev p s =
    (case scores s ev p of
       None \<Rightarrow> Inl (Sentinel ErrPlayerNotRanked)
     | Some a \<Rightarrow> Inr \<lparr>en_PlayerID = p, en_Score = a,
         en_Rank = 1 + int (card {q. \<exists>b. scores s ev q = Some b \<and> beats q b p a})\<rparr>, s)"
proof (cases "scores s ev p")
  case None
  then show ?thesis using unranked [OF assms(1)] by (simp add: ranking_Rank_def)
next
  case (Some a)
  then obtain e where e: "e \<in> set es" "en_PlayerID e = p" "en_Score e = a"
    using assms(2) unfolding is_ranking_def by metis
  then have "e = \<lparr>en_PlayerID = p, en_Score = a,
         en_Rank = 1 + int (card {q. \<exists>b. scores s ev q = Some b \<and> beats q b p a})\<rparr>"
    using is_ranking_count [OF assms(2) e(1)] by simp
  with Some e Rank_ok [OF assms e(1)] show ?thesis by (simp add: ranking_Rank_def)
qed

lemma service_Around:
  assumes "ok s" "is_ranking (scores s ev) es" "int (length es) \<le> 2 ^ 62"
  shows "ranking_Around store ev p radius s =
    (if radius > MaxAroundRadius then Inl (Sentinel ErrInvalidLimit)
     else case find (\<lambda>e. en_PlayerID e = p) es of
       None \<Rightarrow> Inl (Sentinel ErrPlayerNotRanked)
     | Some e \<Rightarrow> Inr (window (if radius < 0 then DefaultAroundRadius else radius) e es), s)"
proof (cases "find (\<lambda>e. en_PlayerID e = p) es")
  case None
  then have "scores s ev p = None"
    using assms(2) unfolding is_ranking_def find_None_iff by (metis not_None_eq)
  with None unranked [OF assms(1)] show ?thesis by (simp add: ranking_Around_def ranking_consts)
next
  case (Some e)
  then have "e \<in> set es" "en_PlayerID e = p" by (auto simp: find_Some_iff)
  with Some Around_ok [OF assms(1,2) _ assms(3), of e] show ?thesis
    by (auto simp: ranking_Around_def ranking_consts)
qed

end

locale ranking_contract = ranking_view store scores ok
  for store :: "'s ranking_store" and scores and ok +
  assumes IncrBy_ok: "ok s \<Longrightarrow> v = int64 (score_or_0 (scores s ev p) + d) \<Longrightarrow>
      \<exists>s'. rs_IncrBy store ev p d s = (Inr v, s') \<and> ok s' \<and>
        scores s' = (scores s)(ev := (scores s ev)(p \<mapsto> v))"

section \<open>The in-memory leaderboard keeps the contract\<close>

lemma inmem_Around_window:
  assumes wf: "board_wf l" and len: "int (length (sortedLocked l ev)) \<le> 2 ^ 62"
    and e: "e \<in> set (sortedLocked l ev)" and r: "0 \<le> radius" "radius \<le> MaxAroundRadius"
  shows "inmem_Around ev (en_PlayerID e) radius l = (Inr (window radius e (sortedLocked l ev)), l)"
proof -
  let ?es = "sortedLocked l ev"
  note rk = is_ranking_sortedLocked [OF wf, of ev]
  obtain k where k: "k < length ?es" "e = ?es ! k" using e by (metis in_set_conv_nth)
  have idx: "player_index 0 (en_PlayerID e) ?es = int k"
    using player_index_nth [OF is_ranking_distinct [OF rk] k(1), of 0] k by simp
  have i64: "int64 (int k - radius) = int k - radius" "int64 (int k + radius + 1) = int k + radius + 1"
    using k len r by (intro int64_small; simp add: ranking_consts)+
  define lo where "lo = (if int k - radius < 0 then 0 else int k - radius)"
  define hi where "hi = (if int k + radius + 1 > int (length ?es) then int (length ?es) else int k + radius + 1)"
  have bounds: "0 \<le> lo" "lo \<le> hi" "hi \<le> int (length ?es)"
    using k r by (auto simp: lo_def hi_def)
  then have diff: "int64 (hi - lo) = hi - lo" using len by (intro int64_small) auto
  have "window radius e ?es = take (nat hi - nat lo) (drop (nat lo) ?es)"
    unfolding window_def
  proof (rule filter_window)
    fix i assume i: "i < length ?es"
    then show "\<bar>en_Rank (?es ! i) - en_Rank e\<bar> \<le> radius \<longleftrightarrow> nat lo \<le> i \<and> i < nat hi"
      using is_ranking_rank [OF rk i] is_ranking_rank [OF rk k(1)] k r
      by (auto simp: abs_le_iff lo_def hi_def)
  qed (use bounds in auto)
  moreover have "nat hi - nat lo = nat (hi - lo)" using bounds by linarith
  ultimately show ?thesis
    unfolding inmem_Around_def Let_def idx i64 lo_def [symmetric] hi_def [symmetric] diff
    using bounds by simp
qed

locale inmem_board = state_field f for f :: "('s, Leaderboard) field"

sublocale inmem_board \<subseteq> contract: ranking_contract "inmem_ranking_store f"
  "\<lambda>s. board_scores (fget f s)" "\<lambda>s. board_wf (fget f s)"
proof unfold_locales
  fix s ev
  assume "board_wf (fget f s)"
  then show "\<exists>es. is_ranking (board_scores (fget f s) ev) es" by (blast intro: is_ranking_sortedLocked)
next
  fix s v ev p d
  assume wf: "board_wf (fget f s)" and v: "v = int64 (score_or_0 (board_scores (fget f s) ev p) + d)"
  obtain r l where op: "inmem_IncrBy ev p d (fget f s) = (r, l)" by (metis surj_pair)
  with board_scores_IncrBy [OF op] board_wf_IncrBy [OF wf, of ev p d] v
  show "\<exists>s'. rs_IncrBy (inmem_ranking_store f) ev p d s = (Inr v, s') \<and> board_wf (fget f s') \<and>
    board_scores (fget f s') = (board_scores (fget f s))(ev := (board_scores (fget f s) ev)(p \<mapsto> v))"
    by (simp add: inmem_ranking_store_def on_field_def)
next
  fix s ev es and n :: int
  assume wf: "board_wf (fget f s)" and r: "is_ranking (board_scores (fget f s) ev) es" and "0 \<le> n"
  moreover have "es = sortedLocked (fget f s) ev"
    using is_ranking_unique [OF r is_ranking_sortedLocked [OF wf]] .
  ultimately show "rs_Top (inmem_ranking_store f) ev n s = (Inr (take (nat n) es), s)"
    by (simp add: inmem_ranking_store_def inmem_Top_def on_field_def Let_def)
next
  fix s ev es e
  assume wf: "board_wf (fget f s)" and r: "is_ranking (board_scores (fget f s) ev) es" and e: "e \<in> set es"
  have "es = sortedLocked (fget f s) ev"
    using is_ranking_unique [OF r is_ranking_sortedLocked [OF wf]] .
  with e find_player [OF is_ranking_distinct [OF r] e]
  show "rs_Rank (inmem_ranking_store f) ev (en_PlayerID e) s = (Inr e, s)"
    by (simp add: inmem_ranking_store_def inmem_Rank_def on_field_def)
next
  fix s ev es e and radius :: int
  assume wf: "board_wf (fget f s)" and r: "is_ranking (board_scores (fget f s) ev) es" and e: "e \<in> set es"
    and len: "int (length es) \<le> 2 ^ 62" and rad: "0 \<le> radius" "radius \<le> MaxAroundRadius"
  have "es = sortedLocked (fget f s) ev"
    using is_ranking_unique [OF r is_ranking_sortedLocked [OF wf]] .
  with inmem_Around_window [OF wf _ _ rad, of ev e] e len
  show "rs_Around (inmem_ranking_store f) ev (en_PlayerID e) radius s = (Inr (window radius e es), s)"
    by (simp add: inmem_ranking_store_def on_field_def)
next
  fix s ev p and radius :: int
  assume wf: "board_wf (fget f s)" and none: "board_scores (fget f s) ev p = None"
  then have "p \<notin> en_PlayerID ` set (sortedLocked (fget f s) ev)"
    using is_ranking_sortedLocked [OF wf, of ev] unfolding is_ranking_def by force
  then show "rs_Rank (inmem_ranking_store f) ev p s = (Inl (Sentinel ErrPlayerNotRanked), s) \<and>
      rs_Around (inmem_ranking_store f) ev p radius s = (Inl (Sentinel ErrPlayerNotRanked), s)"
    by (auto simp: inmem_ranking_store_def inmem_Rank_def inmem_Around_def on_field_def
        player_index_missing find_None_iff split: option.split)
qed

text \<open>The leaderboard on its own.\<close>

definition id_field :: "('a, 'a) field" where
  "id_field = \<lparr>fget = (\<lambda>s. s), fput = (\<lambda>a s. a)\<rparr>"

lemma fget_id_field [simp]: "fget id_field = (\<lambda>s. s)"
  by (simp add: id_field_def)

interpretation board: inmem_board id_field
  by unfold_locales (simp_all add: id_field_def)

section \<open>Properties\<close>

text \<open>A run of score updates (event, player, delta), and its tally.\<close>

fun increments :: "(string \<times> string \<times> int) list \<Rightarrow> Leaderboard \<Rightarrow> Leaderboard" where
  "increments [] l = l"
| "increments ((ev, p, d) # us) l = increments us (snd (inmem_IncrBy ev p d l))"

definition deltas :: "(string \<times> string \<times> int) list \<Rightarrow> string \<Rightarrow> string \<Rightarrow> int list" where
  "deltas us ev p = map (\<lambda>(_, _, d). d) (filter (\<lambda>(e, q, _). e = ev \<and> q = p) us)"

definition tally :: "(string \<times> string \<times> int) list \<Rightarrow> string \<Rightarrow> string \<Rightarrow> int option" where
  "tally us ev p = (if deltas us ev p = [] then None else Some (int64 (sum_list (deltas us ev p))))"

lemma increments_snoc: "increments (us @ [(ev, p, d)]) l = snd (inmem_IncrBy ev p d (increments us l))"
  by (induction us l rule: increments.induct) auto

lemma deltas_snoc:
  "deltas (us @ [(ev, p, d)]) e q = deltas us e q @ (if e = ev \<and> q = p then [d] else [])"
  by (auto simp: deltas_def)

lemma increments_board:
  "board_wf (increments us NewLeaderboard) \<and> board_scores (increments us NewLeaderboard) = tally us"
proof (induction us rule: rev_induct)
  case Nil
  have "board_scores NewLeaderboard = tally []"
    by (simp add: fun_eq_iff board_scores_def NewLeaderboard_def tally_def deltas_def)
  then show ?case by simp
next
  case (snoc u us)
  obtain ev p d where u: "u = (ev, p, d)" by (metis prod_cases3)
  let ?l = "increments us NewLeaderboard"
  have "board_scores (snd (inmem_IncrBy ev p d ?l)) e q = tally (us @ [u]) e q" for e q
    using board_scores_IncrBy [of ev p d ?l, OF surjective_pairing] snoc.IH
    by (auto simp: u tally_def deltas_snoc score_or_0_def int64_add_left)
  then have "board_scores (snd (inmem_IncrBy ev p d ?l)) = tally (us @ [u])" by blast
  with snoc.IH board_wf_IncrBy [of ?l ev p d] show ?case by (simp add: u increments_snoc)
qed

text \<open>
  C5: the leaderboard ranks the sums. After any sequence of \<open>IncrBy\<close> calls on an empty leaderboard,
  in whatever order Go enumerates its maps, \<open>sortedLocked\<close> returns the one and only ranking of the
  players by their accumulated (64-bit) scores: every scored player once with its score, ordered by
  score and then by player identifier, both descending, with ranks 1, 2, 3 and so on.
\<close>

theorem leaderboard_ranks_sums:
  "is_ranking (tally us ev) (sortedLocked (increments us NewLeaderboard) ev) \<and>
   (\<exists>!es. is_ranking (tally us ev) es)"
proof -
  have "is_ranking (tally us ev) (sortedLocked (increments us NewLeaderboard) ev)"
    using is_ranking_sortedLocked increments_board by metis
  then show ?thesis by (blast intro: is_ranking_unique)
qed

text \<open>
  The order in which the scores of an event are enumerated does not matter. Two leaderboards
  whose score maps for the event have the same entries in different orders give the same ranking.
\<close>

theorem ranking_order_independent:
  assumes "board_wf l" "board_wf l'"
    and "map_of (lb_scores l) ev = Some m" "map_of (lb_scores l') ev = Some m'" "mset m = mset m'"
  shows "sortedLocked l ev = sortedLocked l' ev"
proof -
  have "gomap_wf m" "gomap_wf m'"
    using assms by (auto simp: board_wf_def dest!: map_of_SomeD)
  then have "map_of m = map_of m'"
    using assms(5) by (metis gomap_wf_def map_of_inject_set set_mset_mset)
  then have "board_scores l ev = board_scores l' ev"
    using assms by (simp add: board_scores_def)
  then show ?thesis
    using is_ranking_unique is_ranking_sortedLocked [OF assms(1)] is_ranking_sortedLocked [OF assms(2)]
    by metis
qed

theorem ranking_order_independent_witness:
  "sortedLocked \<lparr>lb_scores = [(''ev'', [(''a'', 5), (''b'', 9)])]\<rparr> ''ev'' =
   sortedLocked \<lparr>lb_scores = [(''ev'', [(''b'', 9), (''a'', 5)])]\<rparr> ''ev''"
  by (rule ranking_order_independent [of _ _ _ "[(''a'', 5), (''b'', 9)]" "[(''b'', 9), (''a'', 5)]"])
    (simp_all add: board_wf_def gomap_wf_def)

lemmas board_answers =
  board.contract.service_Top [unfolded fget_id_field ranking_consts]
  board.contract.service_Rank [unfolded fget_id_field ranking_consts]
  board.contract.service_Around [unfolded fget_id_field ranking_consts]

text \<open>
  The answers of the ranking service on the in-memory leaderboard, for an event with at most
  \<open>2^62\<close> ranked players. \<open>Top\<close> returns the first \<open>n\<close> entries of the ranking (10 for \<open>n \<le> 0\<close>) and refuses
  \<open>n > 100\<close>; \<open>Rank\<close> returns the player's score and one more than the number of players before it;
  \<open>Around\<close> returns the entries whose rank is within the radius (5 for a negative one) of the
  player's own and refuses a radius above 25; a player without a score is \<open>ErrPlayerNotRanked\<close>.
\<close>

theorem ranking_service_answers:
  assumes "board_wf l" "int (length (sortedLocked l ev)) \<le> 2 ^ 62"
  shows "ranking_Top (inmem_ranking_store id_field) ev n l =
      (if n > 100 then Inl (Sentinel ErrInvalidLimit)
       else Inr (take (nat (if n \<le> 0 then 10 else n)) (sortedLocked l ev)), l)
    \<and> ranking_Rank (inmem_ranking_store id_field) ev p l =
      (case board_scores l ev p of
         None \<Rightarrow> Inl (Sentinel ErrPlayerNotRanked)
       | Some a \<Rightarrow> Inr \<lparr>en_PlayerID = p, en_Score = a,
           en_Rank = 1 + int (card {q. \<exists>b. board_scores l ev q = Some b \<and> beats q b p a})\<rparr>, l)
    \<and> ranking_Around (inmem_ranking_store id_field) ev p radius l =
      (if radius > 25 then Inl (Sentinel ErrInvalidLimit)
       else case find (\<lambda>e. en_PlayerID e = p) (sortedLocked l ev) of
         None \<Rightarrow> Inl (Sentinel ErrPlayerNotRanked)
       | Some e \<Rightarrow> Inr (window (if radius < 0 then 5 else radius) e (sortedLocked l ev)), l)"
  using assms is_ranking_sortedLocked [OF assms(1), of ev]
  by (intro conjI board_answers) auto

theorem ranking_service_answers_witness:
  "let l = increments [(''ev'', ''a'', 5), (''ev'', ''b'', 9), (''ev'', ''c'', 7)] NewLeaderboard
   in ranking_Around (inmem_ranking_store id_field) ''ev'' ''b'' 1 l =
        (Inr [\<lparr>en_PlayerID = ''b'', en_Score = 9, en_Rank = 1\<rparr>,
              \<lparr>en_PlayerID = ''c'', en_Score = 7, en_Rank = 2\<rparr>], l)"
proof -
  let ?l = "increments [(''ev'', ''a'', 5), (''ev'', ''b'', 9), (''ev'', ''c'', 7)] NewLeaderboard"
  have es: "sortedLocked ?l ''ev'' =
      [\<lparr>en_PlayerID = ''b'', en_Score = 9, en_Rank = 1\<rparr>, \<lparr>en_PlayerID = ''c'', en_Score = 7, en_Rank = 2\<rparr>,
       \<lparr>en_PlayerID = ''a'', en_Score = 5, en_Rank = 3\<rparr>]"
    by (simp add: inmem_IncrBy_def NewLeaderboard_def sortedLocked_def sort_Slice_def entry_less_def
        int64_small)
  have "board_wf ?l" using increments_board by blast
  from ranking_service_answers [OF this, of "''ev''" 1 "''b''" 1] es show ?thesis
    by (simp add: Let_def window_def del: increments.simps)
qed

end
