(* ===== verification/Ranking_Endpoint.thy ===== *)
theory Ranking_Endpoint
  imports Ranking
begin

text \<open>
  \<open>internal/endpoint/ranking.go\<close>: the two handlers, over the service of any store.
\<close>

section \<open>Handlers\<close>

definition parseIntQueryDefault :: "request \<Rightarrow> string \<Rightarrow> int \<Rightarrow> int" where
  "parseIntQueryDefault r key def =
     (let raw = rq_Query r key
      in if raw = '''' then def
         else case strconv_Atoi raw of None \<Rightarrow> def | Some n \<Rightarrow> n)"

definition entry_toDTO :: "Entry \<Rightarrow> json" where
  "entry_toDTO e = JObj [(''player_id'', JStr (en_PlayerID e)), (''score'', JInt (en_Score e)),
     (''rank'', JInt (en_Rank e))]"

definition toDTOs :: "Entry list \<Rightarrow> json" where
  "toDTOs entries = JArr (map entry_toDTO entries)"

definition topResponse :: "string \<Rightarrow> Entry list \<Rightarrow> json" where
  "topResponse eventID entries = JObj [(''event_id'', JStr eventID),
     (''count'', JInt (int (length entries))), (''entries'', toDTOs entries)]"

definition aroundResponse :: "string \<Rightarrow> string \<Rightarrow> int \<Rightarrow> int \<Rightarrow> int \<Rightarrow> Entry list \<Rightarrow> json" where
  "aroundResponse eventID playerID rank score radius entries =
     JObj [(''event_id'', JStr eventID), (''player_id'', JStr playerID), (''rank'', JInt rank),
           (''score'', JInt score), (''radius'', JInt radius), (''entries'', toDTOs entries)]"

definition RankingHandler_Top :: "'s ranking_store \<Rightarrow> 's handler" where
  "RankingHandler_Top store r s =
     (let eventID = rq_Param r ''eventId''; n = parseIntQueryDefault r ''n'' DefaultTopN
      in case ranking_Top store eventID n s of
           (Inl err, s) \<Rightarrow>
             (if errors_Is err ErrInvalidLimit then
                (WriteJSON (Validation ''n out of range''
                   [\<lparr>fe_Field = ''n'', fe_Tag = ''range'', fe_Message = ''must be 1..100''\<rparr>]), s)
              else (WriteJSON (Internal ''ranking top failed'' err), s))
         | (Inr entries, s) \<Rightarrow> (writeJSON (topResponse eventID entries), s))"

definition RankingHandler_Around :: "'s ranking_store \<Rightarrow> 's handler" where
  "RankingHandler_Around store r s =
     (let eventID = rq_Param r ''eventId''; playerID = rq_Param r ''playerId'';
          radius = parseIntQueryDefault r ''radius'' DefaultAroundRadius
      in case ranking_Around store eventID playerID radius s of
           (Inl err, s) \<Rightarrow>
             (if errors_Is err ErrPlayerNotRanked then (WriteJSON (NotFound ''ranking entry'' playerID), s)
              else if errors_Is err ErrInvalidLimit then
                (WriteJSON (Validation ''radius out of range''
                   [\<lparr>fe_Field = ''radius'', fe_Tag = ''range'', fe_Message = ''must be 0..25''\<rparr>]), s)
              else (WriteJSON (Internal ''ranking around failed'' err), s))
         | (Inr entries, s) \<Rightarrow>
             (let (selfRank, selfScore) =
                (case find (\<lambda>e. en_PlayerID e = playerID) entries of
                   Some e \<Rightarrow> (en_Rank e, en_Score e) | None \<Rightarrow> (0, 0))
              in (writeJSON (aroundResponse eventID playerID selfRank selfScore radius entries), s)))"

section \<open>Properties\<close>

text \<open>A player is in its own window.\<close>

lemma find_in_window:
  assumes "is_ranking m es" "find (\<lambda>e. en_PlayerID e = p) es = Some e" "0 \<le> radius"
  shows "find (\<lambda>e. en_PlayerID e = p) (window radius e es) = Some e"
proof -
  have e: "e \<in> set es" "en_PlayerID e = p" using assms(2) by (auto simp: find_Some_iff)
  have "distinct (map en_PlayerID (window radius e es))"
    using is_ranking_distinct [OF assms(1)] by (simp add: window_def distinct_map_filter)
  from find_player [OF this, of e] e assms(3) show ?thesis by (simp add: window_def)
qed

text \<open>
  C24: the ranking endpoints on the in-memory leaderboard, for an event with at most \<open>2^62\<close> ranked
  players. \<open>Top\<close> answers 200 with a prefix of the ranking or, for \<open>n > 100\<close>, 400; an absent, malformed,
  zero or negative \<open>n\<close> counts as 10. \<open>Around\<close> answers 400 for a radius above 25, 404 for a player
  without a score, and otherwise 200 with the player's window and the rank and score of the player
  itself. The \<open>radius\<close> of the answer is the number that was sent, even where a negative one stands for
  the default of 5. Neither changes the leaderboard and neither answers 500.
\<close>

theorem ranking_endpoints:
  assumes "board_wf l" "int (length (sortedLocked l (rq_Param r ''eventId''))) \<le> 2 ^ 62"
  shows "let ev = rq_Param r ''eventId''; p = rq_Param r ''playerId''; es = sortedLocked l ev;
      n = parseIntQueryDefault r ''n'' 10; radius = parseIntQueryDefault r ''radius'' 5;
      (top, l1) = RankingHandler_Top (inmem_ranking_store id_field) r l;
      (around, l2) = RankingHandler_Around (inmem_ranking_store id_field) r l
    in l1 = l \<and> l2 = l
     \<and> (if n > 100 then rsp_Status (response_of top) = 400
        else top = writeJSON (topResponse ev (take (nat (if n \<le> 0 then 10 else n)) es)))
     \<and> (if radius > 25 then rsp_Status (response_of around) = 400
        else case find (\<lambda>e. en_PlayerID e = p) es of
          None \<Rightarrow> rsp_Status (response_of around) = 404
        | Some e \<Rightarrow> around = writeJSON (aroundResponse ev p (en_Rank e) (en_Score e) radius
            (window (if radius < 0 then 5 else radius) e es)))"
proof -
  let ?ev = "rq_Param r ''eventId''" and ?p = "rq_Param r ''playerId''"
  let ?radius = "parseIntQueryDefault r ''radius'' 5"
  note rk = is_ranking_sortedLocked [OF assms(1), of ?ev]
  note answers = board_answers(1) [OF assms(1) rk] board_answers(3) [OF assms(1) rk assms(2)]
  have self: "find (\<lambda>e. en_PlayerID e = ?p) (window (if ?radius < 0 then 5 else ?radius) e
      (sortedLocked l ?ev)) = Some e"
    if "find (\<lambda>e. en_PlayerID e = ?p) (sortedLocked l ?ev) = Some e" for e
    using that by (intro find_in_window [OF rk]) auto
  have top: "RankingHandler_Top (inmem_ranking_store id_field) r l =
      (if parseIntQueryDefault r ''n'' 10 > 100
       then writeAppErr CodeValidation ''n out of range''
              [\<lparr>fe_Field = ''n'', fe_Tag = ''range'', fe_Message = ''must be 1..100''\<rparr>]
       else writeJSON (topResponse ?ev (take (nat (if parseIntQueryDefault r ''n'' 10 \<le> 0 then 10
              else parseIntQueryDefault r ''n'' 10)) (sortedLocked l ?ev))), l)"
    by (simp add: RankingHandler_Top_def DefaultTopN_def answers Let_def)
  have around: "RankingHandler_Around (inmem_ranking_store id_field) r l =
      (if ?radius > 25 then writeAppErr CodeValidation ''radius out of range''
              [\<lparr>fe_Field = ''radius'', fe_Tag = ''range'', fe_Message = ''must be 0..25''\<rparr>]
       else case find (\<lambda>e. en_PlayerID e = ?p) (sortedLocked l ?ev) of
          None \<Rightarrow> WriteJSON (NotFound ''ranking entry'' ?p)
        | Some e \<Rightarrow> writeJSON (aroundResponse ?ev ?p (en_Rank e) (en_Score e) ?radius
            (window (if ?radius < 0 then 5 else ?radius) e (sortedLocked l ?ev))), l)"
    using self by (auto simp: RankingHandler_Around_def DefaultAroundRadius_def answers Let_def split: option.split)
  show ?thesis
    by (simp add: Let_def top around error_response_def split: option.split)
qed

theorem ranking_endpoints_witness:
  "let r = \<lparr>rq_Method = ''GET'', rq_Header = (\<lambda>_. ''''), rq_Query = (\<lambda>k. if k = ''radius'' then ''-3'' else ''''),
            rq_Param = (\<lambda>k. if k = ''eventId'' then ''ev'' else ''a''), rq_RemoteAddr = '''', rq_Body = None,
            rq_BodyErr = '''', rq_Auth = None\<rparr>;
       l = increments [(''ev'', ''a'', 5), (''ev'', ''b'', 9)] NewLeaderboard
   in fst (RankingHandler_Around (inmem_ranking_store id_field) r l) =
        writeJSON (aroundResponse ''ev'' ''a'' 2 5 (-3)
          [\<lparr>en_PlayerID = ''b'', en_Score = 9, en_Rank = 1\<rparr>, \<lparr>en_PlayerID = ''a'', en_Score = 5, en_Rank = 2\<rparr>])"
proof -
  let ?r = "\<lparr>rq_Method = ''GET'', rq_Header = (\<lambda>_. ''''), rq_Query = (\<lambda>k. if k = ''radius'' then ''-3'' else ''''),
            rq_Param = (\<lambda>k. if k = ''eventId'' then ''ev'' else ''a''), rq_RemoteAddr = '''', rq_Body = None,
            rq_BodyErr = '''', rq_Auth = None\<rparr>"
  let ?l = "increments [(''ev'', ''a'', 5), (''ev'', ''b'', 9)] NewLeaderboard"
  have es: "sortedLocked ?l ''ev'' =
      [\<lparr>en_PlayerID = ''b'', en_Score = 9, en_Rank = 1\<rparr>, \<lparr>en_PlayerID = ''a'', en_Score = 5, en_Rank = 2\<rparr>]"
    by (simp add: inmem_IncrBy_def NewLeaderboard_def sortedLocked_def sort_Slice_def entry_less_def
        int64_small)
  have q: "parseIntQueryDefault ?r ''radius'' 5 = -3"
    by (simp add: parseIntQueryDefault_def strconv_Atoi_def digit_val_def in_int64_def)
  have "board_wf ?l" using increments_board by blast
  from ranking_endpoints [OF this, of ?r] es q show ?thesis
    by (simp add: Let_def window_def case_prod_unfold del: increments.simps)
qed

end
