(* ===== verification/Event.thy ===== *)
theory Event
  imports Ranking
begin

text \<open>
  Events: \<open>domain/event\<close>, the in-memory repository \<open>persistence/inmem/event_repo.go\<close> and
  \<open>service/event/service.go\<close>. The status of an event is a function of the clock; the locale
  \<open>event_store\<close> states the \<open>Repository\<close> interface, and \<open>event_client\<close> the service over it.
\<close>

section \<open>Domain\<close>

datatype Status = StatusUpcoming | StatusOngoing | StatusEnded

fun status_text :: "Status \<Rightarrow> string" where
  "status_text StatusUpcoming = ''UPCOMING''"
| "status_text StatusOngoing = ''ONGOING''"
| "status_text StatusEnded = ''ENDED''"

text \<open>The order in which an event passes through its states.\<close>

fun status_phase :: "Status \<Rightarrow> nat" where
  "status_phase StatusUpcoming = 0"
| "status_phase StatusOngoing = 1"
| "status_phase StatusEnded = 2"

lemma status_phase_inj: "status_phase a = status_phase b \<Longrightarrow> a = b"
  by (cases a; cases b) auto

instantiation Status :: linorder
begin

definition less_eq_Status :: "Status \<Rightarrow> Status \<Rightarrow> bool" where
  "less_eq_Status a b \<longleftrightarrow> status_phase a \<le> status_phase b"

definition less_Status :: "Status \<Rightarrow> Status \<Rightarrow> bool" where
  "less_Status a b \<longleftrightarrow> status_phase a < status_phase b"

instance
  by standard (auto simp: less_eq_Status_def less_Status_def intro: status_phase_inj)

end

record Event =
  ev_ID :: string
  ev_Name :: string
  ev_StartAt :: int
  ev_EndAt :: int
  ev_CreatedAt :: int

definition StatusAt :: "Event \<Rightarrow> int \<Rightarrow> Status" where
  "StatusAt e now =
     (if now < ev_StartAt e then StatusUpcoming
      else if now > ev_EndAt e then StatusEnded
      else StatusOngoing)"

record EventScore =
  sc_EventID :: string
  sc_PlayerID :: string
  sc_Points :: int
  sc_UpdatedAt :: int

record RewardTier =
  rt_EventID :: string
  rt_Tier :: int
  rt_MinPoints :: int
  rt_RewardName :: string

definition EligibleRewards :: "RewardTier list \<Rightarrow> int \<Rightarrow> RewardTier list" where
  "EligibleRewards tiers points = filter (\<lambda>t. points \<ge> rt_MinPoints t) tiers"

text \<open>The zero \<open>time.Time\<close>.\<close>

definition zero_time :: int where
  "zero_time = -62135596800000000000"

section \<open>The in-memory repository\<close>

record EventRepo =
  e_events :: "(string, Event) gomap"
  e_scores :: "(string, EventScore) gomap"
  e_rewards :: "(string, RewardTier list) gomap"

definition NewEventRepo :: EventRepo where
  "NewEventRepo = \<lparr>e_events = [], e_scores = [], e_rewards = []\<rparr>"

definition scoreKey :: "string \<Rightarrow> string \<Rightarrow> string" where
  "scoreKey eventID playerID = eventID @ ''/'' @ playerID"

definition inmem_CreateEvent :: "Event \<Rightarrow> EventRepo \<Rightarrow> unit result \<times> EventRepo" where
  "inmem_CreateEvent e r =
     (case map_of (e_events r) (ev_ID e) of
        Some _ \<Rightarrow> (Inl (Sentinel ErrEventAlreadyExists), r)
      | None \<Rightarrow> (Inr (), r\<lparr>e_events := AList.update (ev_ID e) e (e_events r)\<rparr>))"

definition inmem_GetEvent :: "string \<Rightarrow> EventRepo \<Rightarrow> Event result \<times> EventRepo" where
  "inmem_GetEvent ident r =
     (case map_of (e_events r) ident of
        None \<Rightarrow> (Inl (Sentinel ErrEventNotFound), r)
      | Some e \<Rightarrow> (Inr e, r))"

definition inmem_ListCurrentEvents :: "int \<Rightarrow> EventRepo \<Rightarrow> Event list result \<times> EventRepo" where
  "inmem_ListCurrentEvents now r =
     (let out = filter (\<lambda>e. (ev_StartAt e < now \<or> ev_StartAt e = now) \<and>
                            (ev_EndAt e > now \<or> ev_EndAt e = now)) (map snd (e_events r))
      in (Inr (sort_Slice (\<lambda>a b. ev_EndAt a < ev_EndAt b) out), r))"

definition inmem_AddScore ::
  "string \<Rightarrow> string \<Rightarrow> int \<Rightarrow> int \<Rightarrow> EventRepo \<Rightarrow> unit result \<times> EventRepo" where
  "inmem_AddScore eventID playerID delta now r =
     (let k = scoreKey eventID playerID
      in case map_of (e_scores r) k of
           Some sc \<Rightarrow>
             (Inr (), r\<lparr>e_scores := AList.update k
                (sc\<lparr>sc_Points := int64 (sc_Points sc + delta), sc_UpdatedAt := now\<rparr>) (e_scores r)\<rparr>)
         | None \<Rightarrow>
             (Inr (), r\<lparr>e_scores := AList.update k
                \<lparr>sc_EventID = eventID, sc_PlayerID = playerID, sc_Points = delta, sc_UpdatedAt = now\<rparr>
                (e_scores r)\<rparr>))"

definition inmem_GetScore :: "string \<Rightarrow> string \<Rightarrow> EventRepo \<Rightarrow> EventScore result \<times> EventRepo" where
  "inmem_GetScore eventID playerID r =
     (case map_of (e_scores r) (scoreKey eventID playerID) of
        Some sc \<Rightarrow> (Inr sc, r)
      | None \<Rightarrow> (Inr \<lparr>sc_EventID = eventID, sc_PlayerID = playerID, sc_Points = 0,
                       sc_UpdatedAt = zero_time\<rparr>, r))"

definition stored_tiers :: "EventRepo \<Rightarrow> string \<Rightarrow> RewardTier list" where
  "stored_tiers r eventID = (case map_of (e_rewards r) eventID of None \<Rightarrow> [] | Some ts \<Rightarrow> ts)"

definition inmem_ListRewardTiers :: "string \<Rightarrow> EventRepo \<Rightarrow> RewardTier list result \<times> EventRepo" where
  "inmem_ListRewardTiers eventID r =
     (Inr (sort_Slice (\<lambda>a b. rt_Tier a < rt_Tier b) (stored_tiers r eventID)), r)"

definition inmem_InsertRewardTier :: "RewardTier \<Rightarrow> EventRepo \<Rightarrow> unit result \<times> EventRepo" where
  "inmem_InsertRewardTier t r =
     (Inr (), r\<lparr>e_rewards := AList.update (rt_EventID t) (stored_tiers r (rt_EventID t) @ [t]) (e_rewards r)\<rparr>)"

section \<open>Repository interface and service\<close>

record 's event_repository =
  er_CreateEvent :: "Event \<Rightarrow> 's \<Rightarrow> unit result \<times> 's"
  er_GetEvent :: "string \<Rightarrow> 's \<Rightarrow> Event result \<times> 's"
  er_ListCurrentEvents :: "int \<Rightarrow> 's \<Rightarrow> Event list result \<times> 's"
  er_AddScore :: "string \<Rightarrow> string \<Rightarrow> int \<Rightarrow> 's \<Rightarrow> unit result \<times> 's"
  er_GetScore :: "string \<Rightarrow> string \<Rightarrow> 's \<Rightarrow> EventScore result \<times> 's"
  er_ListRewardTiers :: "string \<Rightarrow> 's \<Rightarrow> RewardTier list result \<times> 's"
  er_InsertRewardTier :: "RewardTier \<Rightarrow> 's \<Rightarrow> unit result \<times> 's"

text \<open>\<open>AddScore\<close> of the in-memory repository reads the clock itself.\<close>

definition inmem_event_repository :: "('s, EventRepo) field \<Rightarrow> ('s, env) field \<Rightarrow> 's event_repository" where
  "inmem_event_repository f e =
     \<lparr>er_CreateEvent = (\<lambda>x. on_field f (inmem_CreateEvent x)),
      er_GetEvent = (\<lambda>k. on_field f (inmem_GetEvent k)),
      er_ListCurrentEvents = (\<lambda>t. on_field f (inmem_ListCurrentEvents t)),
      er_AddScore = (\<lambda>ev p d s. let (now, s) = on_field e time_Now s in on_field f (inmem_AddScore ev p d now) s),
      er_GetScore = (\<lambda>ev p. on_field f (inmem_GetScore ev p)),
      er_ListRewardTiers = (\<lambda>ev. on_field f (inmem_ListRewardTiers ev)),
      er_InsertRewardTier = (\<lambda>t. on_field f (inmem_InsertRewardTier t))\<rparr>"

text \<open>The \<open>LeaderboardWriter\<close> is optional.\<close>

record 's event_service =
  es_repo :: "'s event_repository"
  es_leaderboard :: "(string \<Rightarrow> string \<Rightarrow> int \<Rightarrow> 's \<Rightarrow> int result \<times> 's) option"
  es_now :: "'s \<Rightarrow> int \<times> 's"

definition NewEventService ::
  "'s event_repository \<Rightarrow> (string \<Rightarrow> string \<Rightarrow> int \<Rightarrow> 's \<Rightarrow> int result \<times> 's) option \<Rightarrow>
     ('s, env) field \<Rightarrow> 's event_service" where
  "NewEventService repo lb e = \<lparr>es_repo = repo, es_leaderboard = lb, es_now = on_field e time_Now\<rparr>"

definition maxScoreDelta :: int where "maxScoreDelta = 1000000"

record CreateInput =
  ci_ID :: string
  ci_Name :: string
  ci_StartAt :: int
  ci_EndAt :: int
  ci_Rewards :: "RewardTier list"

fun insert_tiers :: "'s event_repository \<Rightarrow> string \<Rightarrow> RewardTier list \<Rightarrow> 's \<Rightarrow> unit result \<times> 's" where
  "insert_tiers repo ident [] s = (Inr (), s)"
| "insert_tiers repo ident (t # ts) s =
     (case er_InsertRewardTier repo (t\<lparr>rt_EventID := ident\<rparr>) s of
        (Inl err, s) \<Rightarrow> (Inl (Wrap ''repo.InsertRewardTier'' err), s)
      | (Inr _, s) \<Rightarrow> insert_tiers repo ident ts s)"

definition event_Create :: "'s event_service \<Rightarrow> CreateInput \<Rightarrow> 's \<Rightarrow> Event result \<times> 's" where
  "event_Create svc inp s =
     (if \<not> ci_StartAt inp < ci_EndAt inp then (Inl (Sentinel ErrInvalidWindow), s)
      else let (now, s) = es_now svc s;
               e = \<lparr>ev_ID = ci_ID inp, ev_Name = ci_Name inp, ev_StartAt = ci_StartAt inp,
                    ev_EndAt = ci_EndAt inp, ev_CreatedAt = now\<rparr>
           in case er_CreateEvent (es_repo svc) e s of
                (Inl err, s) \<Rightarrow> (Inl (Wrap ''repo.CreateEvent'' err), s)
              | (Inr _, s) \<Rightarrow>
                  (case insert_tiers (es_repo svc) (ci_ID inp) (ci_Rewards inp) s of
                     (Inl err, s) \<Rightarrow> (Inl err, s)
                   | (Inr _, s) \<Rightarrow> (Inr e, s)))"

definition event_Get :: "'s event_service \<Rightarrow> string \<Rightarrow> 's \<Rightarrow> (Event \<times> Status) result \<times> 's" where
  "event_Get svc ident s =
     (case er_GetEvent (es_repo svc) ident s of
        (Inl err, s) \<Rightarrow> (Inl (Wrap ''repo.GetEvent'' err), s)
      | (Inr e, s) \<Rightarrow> let (now, s) = es_now svc s in (Inr (e, StatusAt e now), s))"

definition event_ListCurrent :: "'s event_service \<Rightarrow> 's \<Rightarrow> Event list result \<times> 's" where
  "event_ListCurrent svc s =
     (let (now, s) = es_now svc s; (r, s) = er_ListCurrentEvents (es_repo svc) now s
      in (wrap_result ''repo.ListCurrentEvents'' r, s))"

text \<open>A failing leaderboard is logged and the call succeeds.\<close>

definition leaderboard_incr :: "'s event_service \<Rightarrow> string \<Rightarrow> string \<Rightarrow> int \<Rightarrow> 's \<Rightarrow> 's" where
  "leaderboard_incr svc eventID playerID delta s =
     (case es_leaderboard svc of None \<Rightarrow> s | Some incrBy \<Rightarrow> snd (incrBy eventID playerID delta s))"

definition event_AddScore ::
  "'s event_service \<Rightarrow> string \<Rightarrow> string \<Rightarrow> int \<Rightarrow> 's \<Rightarrow> EventScore result \<times> 's" where
  "event_AddScore svc eventID playerID delta s =
     (if delta \<le> 0 \<or> delta > maxScoreDelta then (Inl (Sentinel ErrInvalidDelta), s)
      else case er_GetEvent (es_repo svc) eventID s of
        (Inl err, s) \<Rightarrow> (Inl (Wrap ''repo.GetEvent'' err), s)
      | (Inr e, s) \<Rightarrow>
          (let (now, s) = es_now svc s
           in if StatusAt e now \<noteq> StatusOngoing then (Inl (Sentinel ErrNotOngoing), s)
              else case er_AddScore (es_repo svc) eventID playerID delta s of
                (Inl err, s) \<Rightarrow> (Inl (Wrap ''repo.AddScore'' err), s)
              | (Inr _, s) \<Rightarrow>
                  (case er_GetScore (es_repo svc) eventID playerID s of
                     (Inl err, s) \<Rightarrow> (Inl (Wrap ''repo.GetScore'' err), s)
                   | (Inr sc, s) \<Rightarrow> (Inr sc, leaderboard_incr svc eventID playerID delta s))))"

definition event_GetScore :: "'s event_service \<Rightarrow> string \<Rightarrow> string \<Rightarrow> 's \<Rightarrow> EventScore result \<times> 's" where
  "event_GetScore svc eventID playerID s =
     (case er_GetEvent (es_repo svc) eventID s of
        (Inl err, s) \<Rightarrow> (Inl (Wrap ''repo.GetEvent'' err), s)
      | (Inr _, s) \<Rightarrow>
          (let (r, s) = er_GetScore (es_repo svc) eventID playerID s in (wrap_result ''repo.GetScore'' r, s)))"

record RewardsView =
  rv_Status :: Status
  rv_Points :: int
  rv_Tiers :: "RewardTier list"
  rv_Eligible :: "RewardTier list"
  rv_Claimable :: bool

definition event_GetRewards :: "'s event_service \<Rightarrow> string \<Rightarrow> string \<Rightarrow> 's \<Rightarrow> RewardsView result \<times> 's" where
  "event_GetRewards svc eventID playerID s =
     (case er_GetEvent (es_repo svc) eventID s of
        (Inl err, s) \<Rightarrow> (Inl (Wrap ''repo.GetEvent'' err), s)
      | (Inr e, s) \<Rightarrow>
          (case er_ListRewardTiers (es_repo svc) eventID s of
             (Inl err, s) \<Rightarrow> (Inl (Wrap ''repo.ListRewardTiers'' err), s)
           | (Inr tiers, s) \<Rightarrow>
               (case er_GetScore (es_repo svc) eventID playerID s of
                  (Inl err, s) \<Rightarrow> (Inl (Wrap ''repo.GetScore'' err), s)
                | (Inr sc, s) \<Rightarrow>
                    (let (t1, s) = es_now svc s; (t2, s) = es_now svc s
                     in (Inr \<lparr>rv_Status = StatusAt e t1, rv_Points = sc_Points sc, rv_Tiers = tiers,
                             rv_Eligible = EligibleRewards tiers (sc_Points sc),
                             rv_Claimable = (StatusAt e t2 = StatusEnded)\<rparr>, s)))))"

section \<open>What the Repository interface promises\<close>

text \<open>What a client can observe of a store.\<close>

record event_view =
  vw_events :: "string \<Rightarrow> Event option"
  vw_points :: "string \<Rightarrow> string \<Rightarrow> int"
  vw_tiers :: "string \<Rightarrow> RewardTier list"

definition ongoing_at :: "Event \<Rightarrow> int \<Rightarrow> bool" where
  "ongoing_at e now \<longleftrightarrow> ev_StartAt e \<le> now \<and> now \<le> ev_EndAt e"

lemma StatusAt_ongoing [simp]: "StatusAt e now = StatusOngoing \<longleftrightarrow> ongoing_at e now"
  by (auto simp: StatusAt_def ongoing_at_def)

text \<open>
  A failing call leaves the view as it was; a successful one changes it as described. Scores of
  different players and events are kept apart for event identifiers with \<open>id_ok\<close>.
\<close>

locale event_store =
  fixes repo :: "'s event_repository"
    and view :: "'s \<Rightarrow> event_view"
    and id_ok :: "string \<Rightarrow> bool"
    and ok :: "'s \<Rightarrow> bool"
  assumes CreateEvent_fail: "er_CreateEvent repo e s = (Inl err, s') \<Longrightarrow> view s' = view s"
    and CreateEvent_ok: "er_CreateEvent repo e s = (Inr u, s') \<Longrightarrow>
      vw_events (view s) (ev_ID e) = None \<and>
      view s' = (view s)\<lparr>vw_events := (vw_events (view s))(ev_ID e \<mapsto> e)\<rparr>"
    and CreateEvent_keeps_ok: "ok s \<Longrightarrow> ok (snd (er_CreateEvent repo e s))"
    and CreateEvent_dup: "er_CreateEvent repo e s = (Inl err, s') \<Longrightarrow>
      errors_Is err ErrEventAlreadyExists \<Longrightarrow> vw_events (view s) (ev_ID e) \<noteq> None"
    and GetEvent_frame: "er_GetEvent repo k s = (r, s') \<Longrightarrow> view s' = view s"
    and GetEvent_ok: "er_GetEvent repo k s = (Inr e, s') \<Longrightarrow> vw_events (view s) k = Some e"
    and GetEvent_missing: "er_GetEvent repo k s = (Inl err, s') \<Longrightarrow>
      errors_Is err ErrEventNotFound \<Longrightarrow> vw_events (view s) k = None"
    and ListCurrent_frame: "er_ListCurrentEvents repo now s = (rl, s') \<Longrightarrow> view s' = view s"
    and ListCurrent_ok: "er_ListCurrentEvents repo now s = (Inr es, s') \<Longrightarrow> ok s \<Longrightarrow>
      set es = {e \<in> ran (vw_events (view s)). ongoing_at e now} \<and> sorted_by (\<lambda>a b. ev_EndAt a < ev_EndAt b) es"
    and AddScore_fail: "er_AddScore repo ev p d s = (Inl err, s') \<Longrightarrow> view s' = view s"
    and AddScore_ok: "er_AddScore repo ev p d s = (Inr u, s') \<Longrightarrow> in_int64 d \<Longrightarrow>
      vw_events (view s') = vw_events (view s) \<and> vw_tiers (view s') = vw_tiers (view s) \<and>
      vw_points (view s') ev p = int64 (vw_points (view s) ev p + d)"
    and AddScore_other: "er_AddScore repo ev p d s = (Inr u, s') \<Longrightarrow> id_ok ev \<Longrightarrow> id_ok ev' \<Longrightarrow>
      (ev', p') \<noteq> (ev, p) \<Longrightarrow> vw_points (view s') ev' p' = vw_points (view s) ev' p'"
    and GetScore_frame: "er_GetScore repo ev p s = (rs, s') \<Longrightarrow> view s' = view s"
    and GetScore_ok: "er_GetScore repo ev p s = (Inr sc, s') \<Longrightarrow> sc_Points sc = vw_points (view s) ev p"
    and Tiers_frame: "er_ListRewardTiers repo ev s = (rt, s') \<Longrightarrow> view s' = view s"
    and Tiers_ok: "er_ListRewardTiers repo ev s = (Inr ts, s') \<Longrightarrow>
      mset ts = mset (vw_tiers (view s) ev) \<and> sorted_by (\<lambda>a b. rt_Tier a < rt_Tier b) ts"
    and InsertTier_fail: "er_InsertRewardTier repo t s = (Inl err, s') \<Longrightarrow> view s' = view s"
    and InsertTier_ok: "er_InsertRewardTier repo t s = (Inr u, s') \<Longrightarrow>
      view s' = (view s)\<lparr>vw_tiers := (vw_tiers (view s))(rt_EventID t := vw_tiers (view s) (rt_EventID t) @ [t])\<rparr>"

locale event_client = event_store "es_repo svc" view id_ok ok
  for svc :: "'s event_service" and view and id_ok and ok +
  assumes now_frame: "es_now svc s = (t, s') \<Longrightarrow> view s' = view s"
    and now_ok: "es_now svc s = (t, s') \<Longrightarrow> ok s \<Longrightarrow> ok s'"
    and incr_frame: "view (leaderboard_incr svc ev p d s) = view s"
begin

lemma AddScore_accepted:
  assumes "event_AddScore svc ev p d s = (Inr sc, s')"
  shows "0 < d \<and> d \<le> maxScoreDelta \<and>
    (\<exists>e t s1. vw_events (view s) ev = Some e \<and> es_now svc s1 = (t, snd (es_now svc s1)) \<and> ongoing_at e t) \<and>
    sc_Points sc = int64 (vw_points (view s) ev p + d) \<and>
    vw_points (view s') ev p = sc_Points sc \<and>
    vw_events (view s') = vw_events (view s) \<and> vw_tiers (view s') = vw_tiers (view s)"
proof -
  obtain e s1 t s2 s3 s4 where st: "0 < d" "d \<le> maxScoreDelta"
      "er_GetEvent (es_repo svc) ev s = (Inr e, s1)" "es_now svc s1 = (t, s2)" "ongoing_at e t"
      "er_AddScore (es_repo svc) ev p d s2 = (Inr (), s3)"
      "er_GetScore (es_repo svc) ev p s3 = (Inr sc, s4)" "s' = leaderboard_incr svc ev p d s4"
    using assms by (auto simp: event_AddScore_def split: if_splits prod.splits sum.splits)
  have v: "view s1 = view s" "view s2 = view s1" "view s4 = view s3" "view s' = view s4"
    using GetEvent_frame [OF st(3)] now_frame [OF st(4)] GetScore_frame [OF st(7)] st(8) incr_frame
    by simp_all
  have "in_int64 d" using st(1,2) by (simp add: in_int64_def maxScoreDelta_def)
  then show ?thesis
    using st(1,2,4,5) GetEvent_ok [OF st(3)] AddScore_ok [OF st(6)] GetScore_ok [OF st(7)]
    by (auto simp: v intro!: exI [of _ t] exI [of _ s1])
qed

lemma AddScore_accepted_other:
  assumes "event_AddScore svc ev p d s = (Inr sc, s')" "id_ok ev" "id_ok ev'" "(ev', p') \<noteq> (ev, p)"
  shows "vw_points (view s') ev' p' = vw_points (view s) ev' p'"
proof -
  obtain e s1 t s2 s3 s4 where st:
      "er_GetEvent (es_repo svc) ev s = (Inr e, s1)" "es_now svc s1 = (t, s2)"
      "er_AddScore (es_repo svc) ev p d s2 = (Inr (), s3)"
      "er_GetScore (es_repo svc) ev p s3 = (Inr sc, s4)" "s' = leaderboard_incr svc ev p d s4"
    using assms(1) by (auto simp: event_AddScore_def split: if_splits prod.splits sum.splits)
  have "view s2 = view s" "view s' = view s3"
    using GetEvent_frame [OF st(1)] now_frame [OF st(2)] GetScore_frame [OF st(4)] st(5) incr_frame
    by simp_all
  with AddScore_other [OF st(3) assms(2-4)] show ?thesis by simp
qed

text \<open>A rejected score is not counted, unless it is the read-back that failed.\<close>

lemma AddScore_rejected:
  assumes "event_AddScore svc ev p d s = (Inl err, s')"
    and "\<And>s r s'. er_GetScore (es_repo svc) ev p s = (r, s') \<Longrightarrow> \<exists>sc. r = Inr sc"
  shows "view s' = view s"
proof -
  obtain r1 s1 where g: "er_GetEvent (es_repo svc) ev s = (r1, s1)" by (metis surj_pair)
  obtain t s2 where n: "es_now svc s1 = (t, s2)" by (metis surj_pair)
  obtain r3 s3 where a: "er_AddScore (es_repo svc) ev p d s2 = (r3, s3)" by (metis surj_pair)
  obtain sc s4 where "er_GetScore (es_repo svc) ev p s3 = (Inr sc, s4)"
    using assms(2) by (metis surj_pair)
  with assms(1) g n a have "s' = s \<or> s' = s1 \<or> s' = s2 \<or> (s' = s3 \<and> (\<exists>err. r3 = Inl err))"
    by (auto simp: event_AddScore_def split: if_splits sum.splits)
  then show ?thesis
    using GetEvent_frame [OF g] now_frame [OF n] AddScore_fail [of ev p d s2 _ s3] a by auto
qed

lemma insert_tiers_view:
  "insert_tiers (es_repo svc) k ts s = (Inr u, s') \<Longrightarrow>
     view s' = (view s)\<lparr>vw_tiers := (vw_tiers (view s))
       (k := vw_tiers (view s) k @ map (\<lambda>t. t\<lparr>rt_EventID := k\<rparr>) ts)\<rparr>"
proof (induction ts arbitrary: s)
  case Nil
  then show ?case by simp
next
  case (Cons t ts)
  then obtain s1 where st: "er_InsertRewardTier (es_repo svc) (t\<lparr>rt_EventID := k\<rparr>) s = (Inr (), s1)"
      "insert_tiers (es_repo svc) k ts s1 = (Inr u, s')"
    by (auto split: prod.splits sum.splits)
  from InsertTier_ok [OF st(1)] Cons.IH [OF st(2)] show ?case by (simp cong: if_cong)
qed

lemma insert_tiers_keeps:
  "insert_tiers (es_repo svc) k ts s = (r, s') \<Longrightarrow>
     vw_events (view s') = vw_events (view s) \<and> vw_points (view s') = vw_points (view s)"
proof (induction ts arbitrary: s)
  case Nil
  then show ?case by simp
next
  case (Cons t ts)
  obtain r1 s1 where step: "er_InsertRewardTier (es_repo svc) (t\<lparr>rt_EventID := k\<rparr>) s = (r1, s1)"
    by (metis surj_pair)
  show ?case
  proof (cases r1)
    case (Inl err)
    with step Cons.prems have "s' = s1" by simp
    with InsertTier_fail step Inl show ?thesis by metis
  next
    case (Inr u)
    with step have ok: "er_InsertRewardTier (es_repo svc) (t\<lparr>rt_EventID := k\<rparr>) s = (Inr u, s1)" by simp
    with Cons.prems have "insert_tiers (es_repo svc) k ts s1 = (r, s')" by simp
    from Cons.IH [OF this] InsertTier_ok [OF ok] show ?thesis by simp
  qed
qed

lemma Create_ok:
  assumes "event_Create svc inp s = (Inr e, s')"
  shows "ev_StartAt e < ev_EndAt e \<and> ev_ID e = ci_ID inp \<and> ev_StartAt e = ci_StartAt inp \<and>
    ev_EndAt e = ci_EndAt inp \<and> ev_Name e = ci_Name inp \<and>
    vw_events (view s) (ev_ID e) = None \<and> vw_events (view s') = (vw_events (view s))(ev_ID e \<mapsto> e) \<and>
    vw_points (view s') = vw_points (view s) \<and>
    vw_tiers (view s') = (vw_tiers (view s))(ev_ID e := vw_tiers (view s) (ev_ID e) @
      map (\<lambda>t. t\<lparr>rt_EventID := ci_ID inp\<rparr>) (ci_Rewards inp))"
proof -
  obtain t s1 s2 where st: "ci_StartAt inp < ci_EndAt inp" "es_now svc s = (t, s1)"
      "e = \<lparr>ev_ID = ci_ID inp, ev_Name = ci_Name inp, ev_StartAt = ci_StartAt inp,
            ev_EndAt = ci_EndAt inp, ev_CreatedAt = t\<rparr>"
      "er_CreateEvent (es_repo svc) e s1 = (Inr (), s2)"
      "insert_tiers (es_repo svc) (ci_ID inp) (ci_Rewards inp) s2 = (Inr (), s')"
    using assms by (auto simp: event_Create_def Let_def split: if_splits prod.splits sum.splits)
  from CreateEvent_ok [OF st(4)] insert_tiers_view [OF st(5)] now_frame [OF st(2)] st(1,3)
  show ?thesis by simp
qed

text \<open>A call adds the event or leaves the events as they are; it does both also when it fails.\<close>

lemma Create_events:
  assumes "event_Create svc inp s = (r, s')"
  shows "vw_events (view s') = vw_events (view s) \<or>
    (vw_events (view s) (ci_ID inp) = None \<and>
     (\<exists>e. vw_events (view s') = (vw_events (view s))(ci_ID inp \<mapsto> e)))"
proof (cases "ci_StartAt inp < ci_EndAt inp")
  case True
  obtain t s1 where now: "es_now svc s = (t, s1)" by (metis surj_pair)
  let ?e = "\<lparr>ev_ID = ci_ID inp, ev_Name = ci_Name inp, ev_StartAt = ci_StartAt inp,
            ev_EndAt = ci_EndAt inp, ev_CreatedAt = t\<rparr>"
  obtain r1 s2 where cr: "er_CreateEvent (es_repo svc) ?e s1 = (r1, s2)" by (metis surj_pair)
  show ?thesis
  proof (cases r1)
    case (Inl err)
    with True now cr assms have "s' = s2" by (simp add: event_Create_def Let_def)
    with CreateEvent_fail cr Inl now_frame [OF now] show ?thesis by metis
  next
    case (Inr u)
    obtain r2 s3 where ins: "insert_tiers (es_repo svc) (ci_ID inp) (ci_Rewards inp) s2 = (r2, s3)"
      by (metis surj_pair)
    with True now cr Inr assms have "s' = s3"
      by (cases r2) (auto simp: event_Create_def Let_def)
    with insert_tiers_keeps [OF ins] CreateEvent_ok [OF cr [unfolded Inr]] now_frame [OF now]
    show ?thesis by auto
  qed
qed (use assms in \<open>auto simp: event_Create_def\<close>)

lemma Create_keeps_points:
  assumes "event_Create svc inp s = (r, s')"
  shows "vw_points (view s') = vw_points (view s)"
  using assms
  by (auto simp: event_Create_def Let_def split: if_splits prod.splits sum.splits
      dest!: now_frame CreateEvent_fail CreateEvent_ok insert_tiers_keeps)

lemma ListCurrent_ok':
  assumes "event_ListCurrent svc s = (Inr es, s')" "ok s"
  shows "\<exists>t s1. es_now svc s = (t, s1) \<and> set es = {e \<in> ran (vw_events (view s)). StatusAt e t = StatusOngoing}
    \<and> sorted_by (\<lambda>a b. ev_EndAt a < ev_EndAt b) es \<and> view s' = view s"
proof -
  obtain t s1 where st: "es_now svc s = (t, s1)"
      "er_ListCurrentEvents (es_repo svc) t s1 = (Inr es, s')"
    using assms(1) by (auto simp: event_ListCurrent_def split: prod.splits)
  with ListCurrent_ok [OF st(2) now_ok [OF st(1) assms(2)]] ListCurrent_frame [OF st(2)]
    now_frame [OF st(1)] show ?thesis by auto
qed

end

section \<open>The in-memory repository keeps the promise\<close>

definition repo_view :: "EventRepo \<Rightarrow> event_view" where
  "repo_view r = \<lparr>vw_events = map_of (e_events r),
     vw_points = (\<lambda>ev p. case map_of (e_scores r) (scoreKey ev p) of None \<Rightarrow> 0 | Some sc \<Rightarrow> sc_Points sc),
     vw_tiers = stored_tiers r\<rparr>"

lemma scoreKey_inj:
  "slash_free ev \<Longrightarrow> slash_free ev' \<Longrightarrow> scoreKey ev p = scoreKey ev' p' \<longleftrightarrow> ev = ev' \<and> p = p'"
  using sep_key_inj_left [of ev "CHR ''/''" p ev' p'] by (auto simp: scoreKey_def slash_free_def)

lemma inmem_AddScore_view:
  assumes "inmem_AddScore ev p d now r = (res, r')"
  shows "res = Inr ()" "e_events r' = e_events r" "e_rewards r' = e_rewards r"
    and "in_int64 d \<Longrightarrow> vw_points (repo_view r') ev p = int64 (vw_points (repo_view r) ev p + d)"
    and "slash_free ev \<Longrightarrow> slash_free ev' \<Longrightarrow> (ev', p') \<noteq> (ev, p) \<Longrightarrow>
      vw_points (repo_view r') ev' p' = vw_points (repo_view r) ev' p'"
proof -
  show "res = Inr ()" "e_events r' = e_events r" "e_rewards r' = e_rewards r"
    using assms by (auto simp: inmem_AddScore_def Let_def split: option.splits)
  show "in_int64 d \<Longrightarrow> vw_points (repo_view r') ev p = int64 (vw_points (repo_view r) ev p + d)"
    using assms by (auto simp: inmem_AddScore_def Let_def repo_view_def int64_id split: option.splits)
  assume "slash_free ev" "slash_free ev'" "(ev', p') \<noteq> (ev, p)"
  then have "scoreKey ev' p' \<noteq> scoreKey ev p" using scoreKey_inj [of ev' ev p' p] by auto
  then show "vw_points (repo_view r') ev' p' = vw_points (repo_view r) ev' p'"
    using assms by (auto simp: inmem_AddScore_def Let_def repo_view_def split: option.splits)
qed

lemma inmem_GetScore_view:
  "\<exists>sc. inmem_GetScore ev p r = (Inr sc, r) \<and> sc_Points sc = vw_points (repo_view r) ev p"
  by (cases "map_of (e_scores r) (scoreKey ev p)") (simp_all add: inmem_GetScore_def repo_view_def)

lemma inmem_GetScore_total [simp]: "fst (inmem_GetScore ev p r) \<noteq> Inl err"
  by (metis fst_conv inmem_GetScore_view Inl_Inr_False)

lemma ran_map_of_wf: "gomap_wf m \<Longrightarrow> ran (map_of m) = snd ` set m"
  by (simp add: gomap_wf_def ran_distinct)

lemma inmem_ListCurrent_view:
  assumes "inmem_ListCurrentEvents now r = (Inr es, r')" "gomap_wf (e_events r)"
  shows "set es = {e \<in> ran (vw_events (repo_view r)). ongoing_at e now}"
    and "sorted_by (\<lambda>a b. ev_EndAt a < ev_EndAt b) es"
proof -
  have es: "es = sort_Slice (\<lambda>a b. ev_EndAt a < ev_EndAt b) (filter (\<lambda>e. (ev_StartAt e < now \<or> ev_StartAt e = now) \<and>
                            (ev_EndAt e > now \<or> ev_EndAt e = now)) (map snd (e_events r)))"
    using assms(1) by (auto simp: inmem_ListCurrentEvents_def Let_def)
  show "sorted_by (\<lambda>a b. ev_EndAt a < ev_EndAt b) es"
    unfolding es by (rule key_less.sorted_by_sort_Slice)
  show "set es = {e \<in> ran (vw_events (repo_view r)). ongoing_at e now}"
    using assms(2) unfolding es by (auto simp: repo_view_def ran_map_of_wf ongoing_at_def)
qed

lemmas inmem_event_defs = inmem_event_repository_def inmem_CreateEvent_def inmem_GetEvent_def
  inmem_GetScore_def inmem_ListRewardTiers_def inmem_InsertRewardTier_def

locale inmem_event = two_fields f e
  for f :: "('s, EventRepo) field" and e :: "('s, env) field" +
  fixes lb :: "(string \<Rightarrow> string \<Rightarrow> int \<Rightarrow> 's \<Rightarrow> int result \<times> 's) option"
  assumes lb_frame: "lb = Some incr \<Longrightarrow> fget f (snd (incr ev p d s)) = fget f s"

sublocale inmem_event \<subseteq> client: event_client
  "NewEventService (inmem_event_repository f e) lb e" "\<lambda>s. repo_view (fget f s)" slash_free
  "\<lambda>s. gomap_wf (e_events (fget f s))"
proof unfold_locales
  fix ev p d s u s'
  assume add: "er_AddScore (es_repo (NewEventService (inmem_event_repository f e) lb e)) ev p d s = (Inr u, s')"
  then obtain now where op: "inmem_AddScore ev p d now (fget f s) = (Inr u, fget f s')"
    by (auto simp: NewEventService_def inmem_event_repository_def split: prod.splits
        elim!: fst_field.on_fieldE dest!: on_g_keeps_f)
  show "vw_events (repo_view (fget f s')) = vw_events (repo_view (fget f s)) \<and>
      vw_tiers (repo_view (fget f s')) = vw_tiers (repo_view (fget f s)) \<and>
      vw_points (repo_view (fget f s')) ev p = int64 (vw_points (repo_view (fget f s)) ev p + d)"
    if "in_int64 d"
    using inmem_AddScore_view(2-4) [OF op] that by (simp add: repo_view_def stored_tiers_def fun_eq_iff)
  show "vw_points (repo_view (fget f s')) ev' p' = vw_points (repo_view (fget f s)) ev' p'"
    if "slash_free ev" "slash_free ev'" "(ev', p') \<noteq> (ev, p)" for ev' p'
    using inmem_AddScore_view(5) [OF op that] .
next
  fix now s es s'
  assume "er_ListCurrentEvents (es_repo (NewEventService (inmem_event_repository f e) lb e)) now s = (Inr es, s')"
    and wf: "gomap_wf (e_events (fget f s))"
  then obtain r' where "inmem_ListCurrentEvents now (fget f s) = (Inr es, r')"
    by (auto simp: NewEventService_def inmem_event_repository_def elim!: fst_field.on_fieldE)
  from inmem_ListCurrent_view [OF this wf]
  show "set es = {e \<in> ran (vw_events (repo_view (fget f s))). ongoing_at e now} \<and>
      sorted_by (\<lambda>a b. ev_EndAt a < ev_EndAt b) es" by blast
next
  fix ev p d s
  show "repo_view (fget f (leaderboard_incr (NewEventService (inmem_event_repository f e) lb e) ev p d s)) =
      repo_view (fget f s)"
    using lb_frame by (simp add: leaderboard_incr_def NewEventService_def split: option.split)
qed (auto simp: NewEventService_def inmem_event_defs inmem_AddScore_def inmem_ListCurrentEvents_def
    repo_view_def on_field_def key_less.sorted_by_sort_Slice stored_tiers_def time_Now_def update_conv' Let_def
    fun_eq_iff split: option.splits prod.splits dest: on_g_keeps_f)

section \<open>The event service of the in-memory server\<close>

record event_world =
  xw_events :: EventRepo
  xw_board :: Leaderboard
  xw_env :: env

definition at_events :: "(event_world, EventRepo) field" where
  "at_events = \<lparr>fget = xw_events, fput = (\<lambda>a s. s\<lparr>xw_events := a\<rparr>)\<rparr>"

definition at_board :: "(event_world, Leaderboard) field" where
  "at_board = \<lparr>fget = xw_board, fput = (\<lambda>a s. s\<lparr>xw_board := a\<rparr>)\<rparr>"

definition at_env :: "(event_world, env) field" where
  "at_env = \<lparr>fget = xw_env, fput = (\<lambda>a s. s\<lparr>xw_env := a\<rparr>)\<rparr>"

lemmas event_world_fields = at_events_def at_board_def at_env_def

lemma event_world_get [simp]: "fget at_events = xw_events" "fget at_board = xw_board" "fget at_env = xw_env"
  by (simp_all add: event_world_fields)

definition demo_event_service :: "event_world event_service" where
  "demo_event_service = NewEventService (inmem_event_repository at_events at_env)
     (Some (rs_IncrBy (inmem_ranking_store at_board))) at_env"

interpretation demo_event: inmem_event at_events at_env "Some (rs_IncrBy (inmem_ranking_store at_board))"
  by unfold_locales
    (auto simp: event_world_fields inmem_ranking_store_def on_field_def split: prod.splits)

interpretation demo_board: inmem_board at_board
  by unfold_locales (auto simp: event_world_fields)

text \<open>What the calls of the repository do to the world, in closed form.\<close>

lemma demo_event_simps [simp]:
  "er_GetEvent (es_repo demo_event_service) k s =
     (case map_of (e_events (xw_events s)) k of None \<Rightarrow> Inl (Sentinel ErrEventNotFound) | Some e \<Rightarrow> Inr e, s)"
  "er_GetScore (es_repo demo_event_service) ev p s = (fst (inmem_GetScore ev p (xw_events s)), s)"
  "er_ListRewardTiers (es_repo demo_event_service) ev s = (fst (inmem_ListRewardTiers ev (xw_events s)), s)"
  "er_ListCurrentEvents (es_repo demo_event_service) t s = (fst (inmem_ListCurrentEvents t (xw_events s)), s)"
  "es_now demo_event_service s =
     (env_clock (xw_env s) (env_pos (xw_env s)), s\<lparr>xw_env := env_tick (xw_env s)\<rparr>)"
  "er_AddScore (es_repo demo_event_service) ev p d s =
     (Inr (), s\<lparr>xw_events := snd (inmem_AddScore ev p d (env_clock (xw_env s) (env_pos (xw_env s))) (xw_events s)),
                xw_env := env_tick (xw_env s)\<rparr>)"
  "er_CreateEvent (es_repo demo_event_service) e s =
     (let (u, r) = inmem_CreateEvent e (xw_events s) in (u, s\<lparr>xw_events := r\<rparr>))"
  "er_InsertRewardTier (es_repo demo_event_service) t' s =
     (Inr (), s\<lparr>xw_events := snd (inmem_InsertRewardTier t' (xw_events s))\<rparr>)"
  "leaderboard_incr demo_event_service ev p d s = s\<lparr>xw_board := snd (inmem_IncrBy ev p d (xw_board s))\<rparr>"
  by (auto simp: demo_event_service_def NewEventService_def inmem_event_repository_def event_world_fields
      on_field_def time_Now_def leaderboard_incr_def inmem_ranking_store_def inmem_AddScore_def
      inmem_GetEvent_def inmem_GetScore_def inmem_ListRewardTiers_def inmem_ListCurrentEvents_def
      inmem_InsertRewardTier_def Let_def split: option.splits prod.splits)

section \<open>Properties\<close>

lemma StatusAt_mono: "t \<le> t' \<Longrightarrow> StatusAt e t \<le> StatusAt e t'"
  by (auto simp: StatusAt_def less_eq_Status_def)

text \<open>
  Which scores are accepted, and what accepting one does, on the in-memory server. A score is
  accepted exactly when the delta is between 1 and 1000000, the event exists, and the clock is
  between its start and its end, both inclusive. An accepted score adds the delta (64-bit) to the
  player's points, adds it to the leaderboard too, and the answer carries the new total; a rejected
  one changes neither points nor leaderboard.
\<close>

theorem AddScore_decision:
  "let accepted = (1 \<le> d \<and> d \<le> 1000000 \<and> (\<exists>e. vw_events (repo_view (xw_events s)) ev = Some e \<and>
        ongoing_at e (env_clock (xw_env s) (env_pos (xw_env s)))))
   in case event_AddScore demo_event_service ev p d s of
        (Inl err, s') \<Rightarrow> \<not> accepted \<and> xw_events s' = xw_events s \<and> xw_board s' = xw_board s
      | (Inr sc, s') \<Rightarrow> accepted \<and>
          sc_Points sc = int64 (vw_points (repo_view (xw_events s)) ev p + d) \<and>
          vw_points (repo_view (xw_events s')) ev p = sc_Points sc \<and>
          board_scores (xw_board s') ev p = Some (int64 (score_or_0 (board_scores (xw_board s) ev p) + d))"
proof -
  let ?t = "env_clock (xw_env s) (env_pos (xw_env s))"
  let ?t' = "env_clock (xw_env s) (Suc (env_pos (xw_env s)))"
  obtain r' where r': "inmem_AddScore ev p d ?t' (xw_events s) = (Inr (), r')"
    using inmem_AddScore_view(1) by (metis surj_pair)
  obtain v l' where l': "inmem_IncrBy ev p d (xw_board s) = (v, l')" by (metis surj_pair)
  obtain sc where sc: "inmem_GetScore ev p r' = (Inr sc, r')" "sc_Points sc = vw_points (repo_view r') ev p"
    using inmem_GetScore_view by blast
  have "in_int64 d" if "0 < d" "d \<le> 1000000" using that by (simp add: in_int64_def)
  then show ?thesis
    using inmem_AddScore_view(4) [OF r'] board_scores_IncrBy [OF l'] r' l' sc
    by (auto simp: event_AddScore_def maxScoreDelta_def repo_view_def Let_def
        split: option.splits)
qed

text \<open>A sequence of writing calls to completion, with the list of the accepted scores.\<close>

datatype event_call = CallCreate CreateInput | CallAddScore string string int

fun event_calls ::
  "event_call list \<Rightarrow> event_world \<Rightarrow> (string \<times> string \<times> int) list \<times> event_world" where
  "event_calls [] s = ([], s)"
| "event_calls (CallCreate inp # cs) s = event_calls cs (snd (event_Create demo_event_service inp s))"
| "event_calls (CallAddScore ev p d # cs) s =
     (case event_AddScore demo_event_service ev p d s of
        (Inl _, s) \<Rightarrow> event_calls cs s
      | (Inr _, s) \<Rightarrow> let (acc, s) = event_calls cs s in ((ev, p, d) # acc, s))"

fun created_id :: "event_call \<Rightarrow> string list" where
  "created_id (CallCreate inp) = [ci_ID inp]"
| "created_id (CallAddScore ev p d) = []"

text \<open>Points and leaderboard hold the tally of the accepted scores.\<close>

definition synced :: "(string \<times> string \<times> int) list \<Rightarrow> event_world \<Rightarrow> bool" where
  "synced acc s \<longleftrightarrow> board_wf (xw_board s) \<and> board_scores (xw_board s) = tally acc \<and>
     (\<forall>ev p. slash_free ev \<longrightarrow> vw_points (repo_view (xw_events s)) ev p = int64 (sum_list (deltas acc ev p))) \<and>
     (\<forall>k\<in>dom (vw_events (repo_view (xw_events s))). slash_free k)"

lemma tally_snoc:
  "tally (acc @ [(ev, p, d)]) =
     (tally acc)(ev := (tally acc ev)(p \<mapsto> int64 (score_or_0 (tally acc ev p) + d)))"
  by (auto simp: fun_eq_iff tally_def deltas_snoc score_or_0_def int64_add_left)

lemma synced_AddScore:
  assumes "synced acc s" "event_AddScore demo_event_service ev p d s = (Inr sc, s')"
  shows "synced (acc @ [(ev, p, d)]) s'"
proof -
  note call = assms(2) [unfolded demo_event_service_def]
  note ok = demo_event.client.AddScore_accepted [OF call, simplified]
  have ev: "slash_free ev" using ok assms(1) by (auto simp: synced_def dom_def)
  have board: "xw_board s' = snd (inmem_IncrBy ev p d (xw_board s))"
    using assms(2) by (auto simp: event_AddScore_def Let_def split: if_splits option.splits sum.splits)
  have "board_wf (xw_board s')" "board_scores (xw_board s') = tally (acc @ [(ev, p, d)])"
    using assms(1) board_wf_IncrBy [of "xw_board s" ev p d]
      board_scores_IncrBy [of ev p d "xw_board s", OF surjective_pairing]
    by (simp_all add: synced_def board tally_snoc)
  moreover have "vw_points (repo_view (xw_events s')) ev' p' =
      int64 (sum_list (deltas (acc @ [(ev, p, d)]) ev' p'))" if "slash_free ev'" for ev' p'
    using demo_event.client.AddScore_accepted_other [OF call ev that, of p', simplified] ok assms(1) that
    by (cases "(ev', p') = (ev, p)") (auto simp: synced_def deltas_snoc int64_add_left)
  ultimately show ?thesis using ok assms(1) by (auto simp: synced_def)
qed

lemma insert_tiers_board:
  "insert_tiers (es_repo demo_event_service) k ts s = (r, s') \<Longrightarrow> xw_board s' = xw_board s"
  by (induction ts arbitrary: s) (auto split: prod.splits)

text \<open>A rejected call reads the clock at most.\<close>

lemma AddScore_rejected_world:
  "event_AddScore demo_event_service ev p d s = (Inl err, s') \<Longrightarrow>
     xw_events s' = xw_events s \<and> xw_board s' = xw_board s"
  by (auto simp: event_AddScore_def Let_def split: if_splits option.splits sum.splits)

lemma synced_Create:
  assumes "synced acc s" "slash_free (ci_ID inp)"
  shows "synced acc (snd (event_Create demo_event_service inp s))"
proof -
  obtain r s' where call: "event_Create demo_event_service inp s = (r, s')" by (metis surj_pair)
  note call' = call [unfolded demo_event_service_def]
  have "xw_board s' = xw_board s"
    using call by (auto simp: event_Create_def Let_def insert_tiers_board split: if_splits prod.splits sum.splits
        dest!: insert_tiers_board)
  moreover have "k \<in> dom (vw_events (repo_view (xw_events s))) \<or> k = ci_ID inp"
    if "k \<in> dom (vw_events (repo_view (xw_events s')))" for k
    using demo_event.client.Create_events [OF call'] that by (auto split: if_splits)
  ultimately show ?thesis
    using assms call demo_event.client.Create_keeps_points [OF call'] unfolding synced_def by fastforce
qed

lemma event_calls_synced:
  assumes "synced old s" "event_calls cs s = (acc, s')" "\<forall>k\<in>set (concat (map created_id cs)). slash_free k"
  shows "synced (old @ acc) s'"
  using assms
proof (induction cs s arbitrary: old acc rule: event_calls.induct)
  case (1 s)
  then show ?case by simp
next
  case (2 inp cs s)
  then show ?case using synced_Create [of old s inp] by simp
next
  case (3 ev p d cs s)
  show ?case
  proof (cases "event_AddScore demo_event_service ev p d s")
    case (Pair r s1)
    show ?thesis
    proof (cases r)
      case (Inl err)
      have "xw_events s1 = xw_events s" "xw_board s1 = xw_board s"
        using AddScore_rejected_world Pair Inl by metis+
      then have "synced old s1" using "3.prems"(1) by (simp add: synced_def)
      with "3.IH"(1) [OF Pair [symmetric]] "3.prems" Pair Inl show ?thesis by auto
    next
      case (Inr sc)
      obtain acc' where acc': "event_calls cs s1 = (acc', s')" "acc = (ev, p, d) # acc'"
        using "3.prems"(2) Pair Inr by (auto split: prod.splits)
      from Inr Pair "3.prems"(1) have "synced (old @ [(ev, p, d)]) s1" by (auto dest: synced_AddScore)
      from "3.IH"(2) [OF Pair [symmetric] Inr this acc'(1)] "3.prems"(3) acc'(2) show ?thesis by simp
    qed
  qed
qed

definition empty_event_world :: "env \<Rightarrow> event_world" where
  "empty_event_world e = \<lparr>xw_events = NewEventRepo, xw_board = NewLeaderboard, xw_env = e\<rparr>"

lemma synced_empty: "synced [] (empty_event_world e)"
proof -
  have "board_scores NewLeaderboard = tally []"
    by (simp add: fun_eq_iff board_scores_def NewLeaderboard_def tally_def deltas_def)
  then show ?thesis
    by (simp add: synced_def empty_event_world_def repo_view_def NewEventRepo_def deltas_def int64_small)
qed

text \<open>
  C4: points and leaderboard agree. Start the in-memory server empty and run any sequence of event
  creations (with identifiers free of \<open>/\<close>) and score submissions, with any clock. Then for every
  such event and every player the stored points are the (64-bit) sum of the accepted deltas, the
  leaderboard holds the same number, and the player is on the leaderboard exactly when a score was
  accepted.
\<close>

theorem points_match_leaderboard:
  assumes "\<forall>k\<in>set (concat (map created_id cs)). slash_free k" "slash_free ev"
  shows "let (acc, s) = event_calls cs (empty_event_world e)
    in vw_points (repo_view (xw_events s)) ev p = int64 (sum_list (deltas acc ev p))
     \<and> board_scores (xw_board s) ev p = (if deltas acc ev p = [] then None
          else Some (vw_points (repo_view (xw_events s)) ev p))"
proof -
  obtain acc s where run: "event_calls cs (empty_event_world e) = (acc, s)" by (metis surj_pair)
  from event_calls_synced [OF synced_empty run assms(1)] assms(2) show ?thesis
    by (simp add: run synced_def tally_def)
qed

theorem points_match_leaderboard_witness:
  "let e = \<lparr>env_rng = (\<lambda>_. 0), env_uuid = (\<lambda>_. Inr ''u''), env_clock = (\<lambda>_. 50), env_pos = 0\<rparr>;
       cs = [CallCreate \<lparr>ci_ID = ''ev'', ci_Name = ''n'', ci_StartAt = 10, ci_EndAt = 90, ci_Rewards = []\<rparr>,
             CallAddScore ''ev'' ''a'' 5, CallAddScore ''ev'' ''a'' 0, CallAddScore ''ev'' ''a'' 7];
       (acc, s) = event_calls cs (empty_event_world e)
   in acc = [(''ev'', ''a'', 5), (''ev'', ''a'', 7)] \<and> vw_points (repo_view (xw_events s)) ''ev'' ''a'' = 12
     \<and> board_scores (xw_board s) ''ev'' ''a'' = Some 12"
proof -
  let ?e = "\<lparr>env_rng = (\<lambda>_. 0), env_uuid = (\<lambda>_. Inr ''u''), env_clock = (\<lambda>_. 50), env_pos = 0\<rparr>"
  let ?cs = "[CallCreate \<lparr>ci_ID = ''ev'', ci_Name = ''n'', ci_StartAt = 10, ci_EndAt = 90, ci_Rewards = []\<rparr>,
             CallAddScore ''ev'' ''a'' 5, CallAddScore ''ev'' ''a'' 0, CallAddScore ''ev'' ''a'' 7]"
  have acc: "fst (event_calls ?cs (empty_event_world ?e)) = [(''ev'', ''a'', 5), (''ev'', ''a'', 7)]"
    by (simp add: event_Create_def event_AddScore_def empty_event_world_def NewEventRepo_def
        inmem_CreateEvent_def inmem_AddScore_def inmem_GetScore_def scoreKey_def ongoing_at_def
        maxScoreDelta_def Let_def)
  have "int64 12 = 12" by (simp add: int64_small)
  with acc points_match_leaderboard [of ?cs "''ev''" ?e "''a''"] show ?thesis
    by (simp add: case_prod_unfold Let_def slash_free_def deltas_def del: event_calls.simps)
qed

text \<open>
  \<open>ListCurrent\<close> on the in-memory server returns exactly the stored events whose status is ongoing
  at the instant of the call, each once, ordered by their end, and changes nothing.
\<close>

theorem ListCurrent_is_ongoing:
  "\<exists>es s'. event_ListCurrent demo_event_service s = (Inr es, s')
    \<and> mset es = mset (filter (\<lambda>e. StatusAt e (env_clock (xw_env s) (env_pos (xw_env s))) = StatusOngoing)
        (map snd (e_events (xw_events s))))
    \<and> sorted_by (\<lambda>a b. ev_EndAt a < ev_EndAt b) es
    \<and> xw_events s' = xw_events s \<and> xw_board s' = xw_board s"
proof -
  have eq: "((ev_StartAt e < t \<or> ev_StartAt e = t) \<and> (ev_EndAt e > t \<or> ev_EndAt e = t)) =
      (StatusAt e t = StatusOngoing)" for e t
    by (auto simp: ongoing_at_def)
  show ?thesis
    by (simp add: event_ListCurrent_def inmem_ListCurrentEvents_def Let_def eq key_less.sorted_by_sort_Slice)
qed

text \<open>
  C21: the rewards view. For a stored event with its start before its end (as \<open>Create\<close> requires) \<open>GetRewards\<close> on the in-memory server succeeds and changes
  no data; the tiers are the stored ones in the order of their number, the eligible ones are exactly
  those whose threshold the player's points reach, and reaching more points never loses one. Status
  and claimability are read from the clock one after the other: when the clock does not run
  backwards, an ended event is claimable, but an event that ends between the two readings is
  reported as claimable and ongoing at once.
\<close>

theorem GetRewards_view:
  assumes "map_of (e_events (xw_events s)) ev = Some e" "ev_StartAt e < ev_EndAt e"
    and "env_clock (xw_env s) (env_pos (xw_env s)) \<le> env_clock (xw_env s) (Suc (env_pos (xw_env s)))"
  shows "\<exists>v s'. event_GetRewards demo_event_service ev p s = (Inr v, s')
    \<and> xw_events s' = xw_events s \<and> xw_board s' = xw_board s
    \<and> rv_Points v = vw_points (repo_view (xw_events s)) ev p
    \<and> mset (rv_Tiers v) = mset (stored_tiers (xw_events s) ev)
    \<and> sorted_by (\<lambda>a b. rt_Tier a < rt_Tier b) (rv_Tiers v)
    \<and> rv_Eligible v = filter (\<lambda>t. rt_MinPoints t \<le> rv_Points v) (rv_Tiers v)
    \<and> (\<forall>more\<ge>rv_Points v. set (rv_Eligible v) \<subseteq> set (EligibleRewards (rv_Tiers v) more))
    \<and> (rv_Status v = StatusEnded \<longrightarrow> rv_Claimable v)
    \<and> (rv_Claimable v \<and> rv_Status v \<noteq> StatusEnded \<longleftrightarrow>
        env_clock (xw_env s) (env_pos (xw_env s)) \<le> ev_EndAt e \<and>
        ev_EndAt e < env_clock (xw_env s) (Suc (env_pos (xw_env s))))"
proof -
  obtain sc where sc: "inmem_GetScore ev p (xw_events s) = (Inr sc, xw_events s)"
      "sc_Points sc = vw_points (repo_view (xw_events s)) ev p"
    using inmem_GetScore_view by blast
  let ?t1 = "env_clock (xw_env s) (env_pos (xw_env s))"
  let ?t2 = "env_clock (xw_env s) (Suc (env_pos (xw_env s)))"
  have ended: "StatusAt e ?t1 = StatusEnded \<Longrightarrow> StatusAt e ?t2 = StatusEnded"
    using assms(3) by (auto simp: StatusAt_def split: if_splits)
  have early: "StatusAt e ?t2 = StatusEnded \<and> StatusAt e ?t1 \<noteq> StatusEnded \<longleftrightarrow>
      ?t1 \<le> ev_EndAt e \<and> ev_EndAt e < ?t2"
    using assms(2,3) by (auto simp: StatusAt_def split: if_splits)
  from assms(1) sc ended early show ?thesis
    by (auto simp: event_GetRewards_def inmem_ListRewardTiers_def EligibleRewards_def Let_def
        key_less.sorted_by_sort_Slice)
qed

theorem GetRewards_view_witness:
  "let x = \<lparr>ev_ID = ''ev'', ev_Name = ''n'', ev_StartAt = 10, ev_EndAt = 90, ev_CreatedAt = 0\<rparr>;
       e = \<lparr>env_rng = (\<lambda>_. 0), env_uuid = (\<lambda>_. Inr ''u''), env_clock = (\<lambda>i. 90 + int i), env_pos = 0\<rparr>;
       s = (empty_event_world e)\<lparr>xw_events := NewEventRepo\<lparr>e_events := [(''ev'', x)]\<rparr>\<rparr>
   in \<exists>v s'. event_GetRewards demo_event_service ''ev'' ''a'' s = (Inr v, s')
        \<and> rv_Claimable v \<and> rv_Status v \<noteq> StatusEnded \<and> rv_Points v = 0"
proof -
  let ?x = "\<lparr>ev_ID = ''ev'', ev_Name = ''n'', ev_StartAt = 10, ev_EndAt = 90, ev_CreatedAt = 0\<rparr>"
  let ?e = "\<lparr>env_rng = (\<lambda>_. 0), env_uuid = (\<lambda>_. Inr ''u''), env_clock = (\<lambda>i. 90 + int i), env_pos = 0\<rparr>"
  let ?s = "(empty_event_world ?e)\<lparr>xw_events := NewEventRepo\<lparr>e_events := [(''ev'', ?x)]\<rparr>\<rparr>"
  have "map_of (e_events (xw_events ?s)) ''ev'' = Some ?x" by simp
  from GetRewards_view [OF this, of "''a''"]
  obtain v s' where "event_GetRewards demo_event_service ''ev'' ''a'' ?s = (Inr v, s')"
      "rv_Claimable v \<and> rv_Status v \<noteq> StatusEnded"
      "rv_Points v = vw_points (repo_view (xw_events ?s)) ''ev'' ''a''"
    by (auto simp: empty_event_world_def)
  then show ?thesis by (auto simp: Let_def repo_view_def NewEventRepo_def)
qed

end
