(* ===== verification/Event_Endpoint.thy ===== *)
theory Event_Endpoint
  imports Event
begin

text \<open>
  \<open>internal/endpoint/event.go\<close>: the six handlers over the event service and an arbitrary validator.
  The text form of instants (\<open>time.Time\<close> in JSON) is read by an arbitrary parser; the clock that the
  handlers read themselves (\<open>time.Now\<close>) is an argument.
\<close>

section \<open>Requests\<close>

record rewardTierReq =
  tq_Tier :: int
  tq_MinPoints :: int
  tq_RewardName :: string

record createEventReq =
  eq_ID :: string
  eq_Name :: string
  eq_StartAt :: int
  eq_EndAt :: int
  eq_Rewards :: "rewardTierReq list"

record addScoreReq =
  aq_PlayerID :: string
  aq_Delta :: int

definition dec_tier :: "json \<Rightarrow> rewardTierReq option" where
  "dec_tier j =
     (case json_members (Some j) of
        None \<Rightarrow> None
      | Some ms \<Rightarrow>
          (let (t, ok1) = decode_field ''tier'' dec_int64 0 ms;
               (m, ok2) = decode_field ''min_points'' dec_int64 0 ms;
               (n, ok3) = decode_field ''reward_name'' dec_string '''' ms
           in if ok1 \<and> ok2 \<and> ok3 then Some \<lparr>tq_Tier = t, tq_MinPoints = m, tq_RewardName = n\<rparr> else None))"

fun dec_tiers :: "json \<Rightarrow> rewardTierReq list option" where
  "dec_tiers (JArr js) =
     (if list_all (\<lambda>j. dec_tier j \<noteq> None) js then Some (map (\<lambda>j. the (dec_tier j)) js) else None)"
| "dec_tiers _ = None"

definition dec_time :: "(string \<Rightarrow> int option) \<Rightarrow> json \<Rightarrow> int option" where
  "dec_time parseTime j = (case j of JStr t \<Rightarrow> parseTime t | _ \<Rightarrow> None)"

definition decode_createEventReq :: "(string \<Rightarrow> int option) \<Rightarrow> json option \<Rightarrow> createEventReq option" where
  "decode_createEventReq parseTime body =
     (case json_members body of
        None \<Rightarrow> None
      | Some ms \<Rightarrow>
          (let (i, ok1) = decode_field ''id'' dec_string '''' ms;
               (n, ok2) = decode_field ''name'' dec_string '''' ms;
               (t1, ok3) = decode_field ''start_at'' (dec_time parseTime) zero_time ms;
               (t2, ok4) = decode_field ''end_at'' (dec_time parseTime) zero_time ms;
               (rs, ok5) = decode_field ''rewards'' dec_tiers [] ms
           in if ok1 \<and> ok2 \<and> ok3 \<and> ok4 \<and> ok5
              then Some \<lparr>eq_ID = i, eq_Name = n, eq_StartAt = t1, eq_EndAt = t2, eq_Rewards = rs\<rparr> else None))"

definition decode_addScoreReq :: "json option \<Rightarrow> addScoreReq option" where
  "decode_addScoreReq body =
     (case json_members body of
        None \<Rightarrow> None
      | Some ms \<Rightarrow>
          (let (p, ok1) = decode_field ''player'' dec_string '''' ms;
               (d, ok2) = decode_field ''delta'' dec_int64 0 ms
           in if ok1 \<and> ok2 then Some \<lparr>aq_PlayerID = p, aq_Delta = d\<rparr> else None))"

definition tier_tags :: "rewardTierReq \<Rightarrow> vstruct" where
  "tier_tags t =
     [(''tier'', [VRequired, VMin 1, VMax 100], VInt (tq_Tier t)), (''min_points'', [VMin 0], VInt (tq_MinPoints t)),
      (''reward_name'', [VRequired, VMin 1, VMax 128], VStr (tq_RewardName t))]"

definition createEventReq_tags :: "createEventReq \<Rightarrow> vstruct" where
  "createEventReq_tags req =
     [(''id'', [VRequired, VMin 1, VMax 64], VStr (eq_ID req)),
      (''name'', [VRequired, VMin 1, VMax 128], VStr (eq_Name req)),
      (''start_at'', [VRequired], VTime (eq_StartAt req)), (''end_at'', [VRequired], VTime (eq_EndAt req)),
      (''rewards'', [VDive], VList (map tier_tags (eq_Rewards req)))]"

definition addScoreReq_tags :: "addScoreReq \<Rightarrow> vstruct" where
  "addScoreReq_tags req =
     [(''player'', [VRequired, VMin 1, VMax 64], VStr (aq_PlayerID req)),
      (''delta'', [VRequired, VMin 1], VInt (aq_Delta req))]"

section \<open>Responses\<close>

definition eventToDTO :: "Event \<Rightarrow> Status \<Rightarrow> json" where
  "eventToDTO e st = JObj [(''id'', JStr (ev_ID e)), (''name'', JStr (ev_Name e)),
     (''start_at'', JTime (ev_StartAt e)), (''end_at'', JTime (ev_EndAt e)),
     (''created_at'', JTime (ev_CreatedAt e)), (''status'', JStr (status_text st))]"

definition scoreDTO :: "EventScore \<Rightarrow> json" where
  "scoreDTO sc = JObj [(''event_id'', JStr (sc_EventID sc)), (''player_id'', JStr (sc_PlayerID sc)),
     (''points'', JInt (sc_Points sc)), (''updated_at'', JTime (sc_UpdatedAt sc))]"

definition tiersToDTO :: "RewardTier list \<Rightarrow> json" where
  "tiersToDTO ts = JArr (map (\<lambda>t. JObj [(''tier'', JInt (rt_Tier t)), (''min_points'', JInt (rt_MinPoints t)),
     (''reward_name'', JStr (rt_RewardName t))]) ts)"

definition rewardsDTO :: "string \<Rightarrow> string \<Rightarrow> RewardsView \<Rightarrow> json" where
  "rewardsDTO eventID playerID v =
     JObj [(''event_id'', JStr eventID), (''player_id'', JStr playerID),
           (''status'', JStr (status_text (rv_Status v))), (''points'', JInt (rv_Points v)),
           (''tiers'', tiersToDTO (rv_Tiers v)), (''eligible'', tiersToDTO (rv_Eligible v)),
           (''claimable'', JBool (rv_Claimable v))]"

section \<open>Handlers\<close>

definition EventHandler_Create ::
  "'s event_service \<Rightarrow> ('s \<Rightarrow> int \<times> 's) \<Rightarrow> (string \<Rightarrow> int option) \<Rightarrow> validator \<Rightarrow> 's handler" where
  "EventHandler_Create svc time_now parseTime vldtr r s =
     (case decode_createEventReq parseTime (rq_Body r) of
        None \<Rightarrow> (WriteJSON (Validation ''invalid JSON body'' []), s)
      | Some req \<Rightarrow>
          (case vldtr (createEventReq_tags req) of
             VOk \<Rightarrow>
               (let rewards = map (\<lambda>rt. \<lparr>rt_EventID = '''', rt_Tier = tq_Tier rt, rt_MinPoints = tq_MinPoints rt,
                                          rt_RewardName = tq_RewardName rt\<rparr>) (eq_Rewards req)
                in case event_Create svc \<lparr>ci_ID = eq_ID req, ci_Name = eq_Name req, ci_StartAt = eq_StartAt req,
                                          ci_EndAt = eq_EndAt req, ci_Rewards = rewards\<rparr> s of
                     (Inl err, s) \<Rightarrow>
                       (if errors_Is err ErrEventAlreadyExists then (WriteJSON (Conflict ''event already exists''), s)
                        else if errors_Is err ErrInvalidWindow then (WriteJSON (Validation (error_text err) []), s)
                        else (WriteJSON (Internal ''create event'' err), s))
                   | (Inr e, s) \<Rightarrow>
                       (let (now, s) = time_now s
                        in (WriteHeader 201 # writeJSON (eventToDTO e (StatusAt e now)), s)))
           | v \<Rightarrow> (WriteJSON (toValidationError v), s)))"

definition EventHandler_Get :: "'s event_service \<Rightarrow> 's handler" where
  "EventHandler_Get svc r s =
     (let ident = rq_Param r ''id''
      in if ident = '''' then (WriteJSON (Validation ''id is required'' []), s)
         else case event_Get svc ident s of
                (Inl err, s) \<Rightarrow>
                  (if errors_Is err ErrEventNotFound then (WriteJSON (NotFound ''event'' ident), s)
                   else (WriteJSON (Internal ''get event'' err), s))
              | (Inr (e, st), s) \<Rightarrow> (writeJSON (eventToDTO e st), s))"

definition EventHandler_ListCurrent :: "'s event_service \<Rightarrow> ('s \<Rightarrow> int \<times> 's) \<Rightarrow> 's handler" where
  "EventHandler_ListCurrent svc time_now r s =
     (case event_ListCurrent svc s of
        (Inl err, s) \<Rightarrow> (WriteJSON (Internal ''list current events'' err), s)
      | (Inr events, s) \<Rightarrow>
          (let (now, s) = time_now s
           in (writeJSON (JArr (map (\<lambda>e. eventToDTO e (StatusAt e now)) events)), s)))"

definition EventHandler_AddScore :: "'s event_service \<Rightarrow> validator \<Rightarrow> 's handler" where
  "EventHandler_AddScore svc vldtr r s =
     (let eventID = rq_Param r ''id''
      in if eventID = '''' then (WriteJSON (Validation ''id is required'' []), s)
         else case decode_addScoreReq (rq_Body r) of
           None \<Rightarrow> (WriteJSON (Validation ''invalid JSON body'' []), s)
         | Some req \<Rightarrow>
             (case vldtr (addScoreReq_tags req) of
                VOk \<Rightarrow>
                  (case event_AddScore svc eventID (aq_PlayerID req) (aq_Delta req) s of
                     (Inl err, s) \<Rightarrow>
                       (if errors_Is err ErrEventNotFound then (WriteJSON (NotFound ''event'' eventID), s)
                        else if errors_Is err ErrNotOngoing then (WriteJSON (Conflict (error_text err)), s)
                        else if errors_Is err ErrInvalidDelta then (WriteJSON (Validation (error_text err) []), s)
                        else (WriteJSON (Internal ''add score'' err), s))
                   | (Inr sc, s) \<Rightarrow> (writeJSON (scoreDTO sc), s))
              | v \<Rightarrow> (WriteJSON (toValidationError v), s)))"

definition EventHandler_GetScore :: "'s event_service \<Rightarrow> 's handler" where
  "EventHandler_GetScore svc r s =
     (let eventID = rq_Param r ''id''; playerID = rq_Param r ''playerId''
      in if eventID = '''' \<or> playerID = '''' then (WriteJSON (Validation ''id and playerId are required'' []), s)
         else case event_GetScore svc eventID playerID s of
                (Inl err, s) \<Rightarrow>
                  (if errors_Is err ErrEventNotFound then (WriteJSON (NotFound ''event'' eventID), s)
                   else (WriteJSON (Internal ''get score'' err), s))
              | (Inr sc, s) \<Rightarrow> (writeJSON (scoreDTO sc), s))"

definition EventHandler_GetRewards :: "'s event_service \<Rightarrow> 's handler" where
  "EventHandler_GetRewards svc r s =
     (let eventID = rq_Param r ''id''; playerID = rq_Param r ''playerId''
      in if eventID = '''' \<or> playerID = '''' then (WriteJSON (Validation ''id and playerId are required'' []), s)
         else case event_GetRewards svc eventID playerID s of
                (Inl err, s) \<Rightarrow>
                  (if errors_Is err ErrEventNotFound then (WriteJSON (NotFound ''event'' eventID), s)
                   else (WriteJSON (Internal ''get rewards'' err), s))
              | (Inr v, s) \<Rightarrow> (writeJSON (rewardsDTO eventID playerID v), s))"

section \<open>Properties\<close>

text \<open>
  C23: the score endpoint on the in-memory server, for a request with an event identifier in the path
  whose body decodes and passes the validator. The response is 400 for a delta outside 1..1000000,
  else 404 for an unknown event, else 409 outside the event's window, else 200, in this order of
  precedence; a 200 carries the player's new total, and every other response leaves points and
  leaderboard as they were.
\<close>

theorem score_endpoint:
  assumes "rq_Param r ''id'' = ev" "ev \<noteq> ''''" "decode_addScoreReq (rq_Body r) = Some req"
    and "vldtr (addScoreReq_tags req) = VOk"
  shows "case EventHandler_AddScore demo_event_service vldtr r s of (ops, s') \<Rightarrow>
      rsp_Status (response_of ops) =
        (if aq_Delta req < 1 \<or> aq_Delta req > 1000000 then 400
         else case vw_events (repo_view (xw_events s)) ev of
           None \<Rightarrow> 404
         | Some e \<Rightarrow> if ongoing_at e (env_clock (xw_env s) (env_pos (xw_env s))) then 200 else 409)
      \<and> (if rsp_Status (response_of ops) = 200
         then vw_points (repo_view (xw_events s')) ev (aq_PlayerID req) =
                int64 (vw_points (repo_view (xw_events s)) ev (aq_PlayerID req) + aq_Delta req)
              \<and> (\<exists>sc. ops = writeJSON (scoreDTO sc) \<and>
                  sc_Points sc = vw_points (repo_view (xw_events s')) ev (aq_PlayerID req))
         else xw_events s' = xw_events s \<and> xw_board s' = xw_board s)"
proof -
  let ?p = "aq_PlayerID req" and ?d = "aq_Delta req"
  let ?t = "env_clock (xw_env s) (env_pos (xw_env s))"
  let ?t' = "env_clock (xw_env s) (Suc (env_pos (xw_env s)))"
  obtain r' where r': "inmem_AddScore ev ?p ?d ?t' (xw_events s) = (Inr (), r')"
    using inmem_AddScore_view(1) by (metis surj_pair)
  obtain sc where sc: "inmem_GetScore ev ?p r' = (Inr sc, r')" "sc_Points sc = vw_points (repo_view r') ev ?p"
    using inmem_GetScore_view by blast
  have i64: "in_int64 ?d" if "1 \<le> ?d" "?d \<le> 1000000" using that by (simp add: in_int64_def)
  have ev: "vw_events (repo_view (xw_events s)) ev = map_of (e_events (xw_events s)) ev"
    by (simp add: repo_view_def)
  consider "?d < 1 \<or> ?d > 1000000" | "1 \<le> ?d" "?d \<le> 1000000" "map_of (e_events (xw_events s)) ev = None"
    | e where "1 \<le> ?d" "?d \<le> 1000000" "map_of (e_events (xw_events s)) ev = Some e" "\<not> ongoing_at e ?t"
    | e where "1 \<le> ?d" "?d \<le> 1000000" "map_of (e_events (xw_events s)) ev = Some e" "ongoing_at e ?t"
    by (metis not_less option.exhaust)
  then show ?thesis
  proof cases
    case 1
    with assms show ?thesis
      by (auto simp: EventHandler_AddScore_def event_AddScore_def maxScoreDelta_def error_response_def Let_def)
  next
    case 2
    with assms show ?thesis
      by (auto simp: EventHandler_AddScore_def event_AddScore_def maxScoreDelta_def error_response_def ev)
  next
    case (3 e)
    with assms show ?thesis
      by (auto simp: EventHandler_AddScore_def event_AddScore_def maxScoreDelta_def error_response_def ev Let_def)
  next
    case (4 e)
    with assms inmem_AddScore_view(4) [OF r' i64] r' sc show ?thesis
      by (auto simp: EventHandler_AddScore_def event_AddScore_def maxScoreDelta_def ev)
  qed
qed

theorem score_endpoint_witness:
  "let x = \<lparr>ev_ID = ''ev'', ev_Name = ''n'', ev_StartAt = 10, ev_EndAt = 90, ev_CreatedAt = 0\<rparr>;
       e = \<lparr>env_rng = (\<lambda>_. 0), env_uuid = (\<lambda>_. Inr ''u''), env_clock = (\<lambda>i. 91), env_pos = 0\<rparr>;
       s = (empty_event_world e)\<lparr>xw_events := NewEventRepo\<lparr>e_events := [(''ev'', x)]\<rparr>\<rparr>;
       r = \<lparr>rq_Method = ''POST'', rq_Header = (\<lambda>_. ''''), rq_Query = (\<lambda>_. ''''), rq_Param = (\<lambda>_. ''ev''),
            rq_RemoteAddr = '''', rq_Body = Some (JObj [(''player'', JStr ''a''), (''delta'', JInt 7)]),
            rq_BodyErr = '''', rq_Auth = None\<rparr>
   in rsp_Status (response_of (fst (EventHandler_AddScore demo_event_service (\<lambda>_. VOk) r s))) = 409"
proof -
  let ?x = "\<lparr>ev_ID = ''ev'', ev_Name = ''n'', ev_StartAt = 10, ev_EndAt = 90, ev_CreatedAt = 0\<rparr>"
  let ?e = "\<lparr>env_rng = (\<lambda>_. 0), env_uuid = (\<lambda>_. Inr ''u''), env_clock = (\<lambda>i. 91), env_pos = 0\<rparr>"
  let ?s = "(empty_event_world ?e)\<lparr>xw_events := NewEventRepo\<lparr>e_events := [(''ev'', ?x)]\<rparr>\<rparr>"
  let ?r = "\<lparr>rq_Method = ''POST'', rq_Header = (\<lambda>_. ''''), rq_Query = (\<lambda>_. ''''), rq_Param = (\<lambda>_. ''ev''),
            rq_RemoteAddr = '''', rq_Body = Some (JObj [(''player'', JStr ''a''), (''delta'', JInt 7)]),
            rq_BodyErr = '''', rq_Auth = None\<rparr>"
  have d: "decode_addScoreReq (rq_Body ?r) = Some \<lparr>aq_PlayerID = ''a'', aq_Delta = 7\<rparr>"
    by (simp add: decode_addScoreReq_def decode_field_def decode_member_def strings_EqualFold_def
        lower_byte_def in_int64_def)
  have "rq_Param ?r ''id'' = ''ev''" by simp
  from score_endpoint [of ?r "''ev''" _ "\<lambda>_. VOk" ?s, OF this _ d] show ?thesis
    by (simp add: case_prod_unfold repo_view_def ongoing_at_def empty_event_world_def)
qed

text \<open>Inserting the tiers never fails in memory.\<close>

lemma insert_tiers_demo: "\<exists>s'. insert_tiers (es_repo demo_event_service) k ts s = (Inr (), s')"
  by (induction ts arbitrary: s) auto

lemma event_Create_demo:
  "\<exists>s'. event_Create demo_event_service inp s =
     (if \<not> ci_StartAt inp < ci_EndAt inp then (Inl (Sentinel ErrInvalidWindow), s)
      else if map_of (e_events (xw_events s)) (ci_ID inp) \<noteq> None
      then (Inl (Wrap ''repo.CreateEvent'' (Sentinel ErrEventAlreadyExists)), s\<lparr>xw_env := env_tick (xw_env s)\<rparr>)
      else (Inr \<lparr>ev_ID = ci_ID inp, ev_Name = ci_Name inp, ev_StartAt = ci_StartAt inp, ev_EndAt = ci_EndAt inp,
                 ev_CreatedAt = env_clock (xw_env s) (env_pos (xw_env s))\<rparr>, s'))"
proof -
  let ?e = "\<lparr>ev_ID = ci_ID inp, ev_Name = ci_Name inp, ev_StartAt = ci_StartAt inp, ev_EndAt = ci_EndAt inp,
             ev_CreatedAt = env_clock (xw_env s) (env_pos (xw_env s))\<rparr>"
  obtain s' where "insert_tiers (es_repo demo_event_service) (ci_ID inp) (ci_Rewards inp)
      (s\<lparr>xw_env := env_tick (xw_env s), xw_events := snd (inmem_CreateEvent ?e (xw_events s))\<rparr>) = (Inr (), s')"
    using insert_tiers_demo by blast
  then show ?thesis
    by (intro exI [of _ s'])
      (auto simp: event_Create_def Let_def inmem_CreateEvent_def split: option.splits)
qed

text \<open>
  The create endpoint on the in-memory server, for a request whose body decodes and passes the
  validator. The response is 400 when the start is not before the end, else 409 when the identifier
  is taken, else 201; it is never 500. After a 201 the store holds the event with the requested
  identifier, name and window and its reward tiers; after any other response the store is as it was.
\<close>

theorem create_event_endpoint:
  assumes "decode_createEventReq parseTime (rq_Body r) = Some req" "vldtr (createEventReq_tags req) = VOk"
  shows "case EventHandler_Create demo_event_service (es_now demo_event_service) parseTime vldtr r s of
    (ops, s') \<Rightarrow>
      let before = repo_view (xw_events s); after = repo_view (xw_events s')
      in rsp_Status (response_of ops) =
           (if \<not> eq_StartAt req < eq_EndAt req then 400
            else if vw_events before (eq_ID req) \<noteq> None then 409 else 201)
       \<and> (if rsp_Status (response_of ops) = 201
          then (\<exists>e. vw_events after = (vw_events before)(eq_ID req \<mapsto> e) \<and> ev_ID e = eq_ID req \<and>
                 ev_Name e = eq_Name req \<and> ev_StartAt e = eq_StartAt req \<and> ev_EndAt e = eq_EndAt req) \<and>
               map (\<lambda>t. (rt_Tier t, rt_MinPoints t, rt_RewardName t)) (vw_tiers after (eq_ID req)) =
               map (\<lambda>t. (rt_Tier t, rt_MinPoints t, rt_RewardName t)) (vw_tiers before (eq_ID req)) @
               map (\<lambda>t. (tq_Tier t, tq_MinPoints t, tq_RewardName t)) (eq_Rewards req)
          else xw_events s' = xw_events s)"
proof -
  let ?inp = "\<lparr>ci_ID = eq_ID req, ci_Name = eq_Name req, ci_StartAt = eq_StartAt req, ci_EndAt = eq_EndAt req,
      ci_Rewards = map (\<lambda>rt. \<lparr>rt_EventID = '''', rt_Tier = tq_Tier rt, rt_MinPoints = tq_MinPoints rt,
                              rt_RewardName = tq_RewardName rt\<rparr>) (eq_Rewards req)\<rparr>"
  obtain s1 where call: "event_Create demo_event_service ?inp s =
     (if \<not> eq_StartAt req < eq_EndAt req then (Inl (Sentinel ErrInvalidWindow), s)
      else if map_of (e_events (xw_events s)) (eq_ID req) \<noteq> None
      then (Inl (Wrap ''repo.CreateEvent'' (Sentinel ErrEventAlreadyExists)), s\<lparr>xw_env := env_tick (xw_env s)\<rparr>)
      else (Inr \<lparr>ev_ID = eq_ID req, ev_Name = eq_Name req, ev_StartAt = eq_StartAt req, ev_EndAt = eq_EndAt req,
                 ev_CreatedAt = env_clock (xw_env s) (env_pos (xw_env s))\<rparr>, s1))"
    using event_Create_demo [of ?inp s, unfolded CreateInput.select_convs] by blast
  have ev: "vw_events (repo_view (xw_events s)) = map_of (e_events (xw_events s))"
    by (simp add: repo_view_def)
  show ?thesis
  proof (cases "eq_StartAt req < eq_EndAt req \<and> map_of (e_events (xw_events s)) (eq_ID req) = None")
    case True
    with call have "event_Create demo_event_service ?inp s =
      (Inr \<lparr>ev_ID = eq_ID req, ev_Name = eq_Name req, ev_StartAt = eq_StartAt req, ev_EndAt = eq_EndAt req,
            ev_CreatedAt = env_clock (xw_env s) (env_pos (xw_env s))\<rparr>, s1)" by simp
    from demo_event.client.Create_ok [OF this [unfolded demo_event_service_def]] True assms call show ?thesis
      by (auto simp: EventHandler_Create_def Let_def ev comp_def)
  next
    case False
    with assms call show ?thesis
      by (auto simp: EventHandler_Create_def Let_def ev error_response_def)
  qed
qed

theorem create_event_endpoint_witness:
  "let e = \<lparr>env_rng = (\<lambda>_. 0), env_uuid = (\<lambda>_. Inr ''u''), env_clock = (\<lambda>i. 91), env_pos = 0\<rparr>;
       parse = (\<lambda>t. if t = ''T1'' then Some 10 else Some 90);
       r = \<lparr>rq_Method = ''POST'', rq_Header = (\<lambda>_. ''''), rq_Query = (\<lambda>_. ''''), rq_Param = (\<lambda>_. ''''),
            rq_RemoteAddr = '''', rq_Body = Some (JObj [(''id'', JStr ''ev''), (''name'', JStr ''n''),
              (''start_at'', JStr ''T1''), (''end_at'', JStr ''T2''), (''rewards'', JArr [])]),
            rq_BodyErr = '''', rq_Auth = None\<rparr>
   in rsp_Status (response_of (fst (EventHandler_Create demo_event_service (es_now demo_event_service) parse
        (\<lambda>_. VOk) r (empty_event_world e)))) = 201"
proof -
  let ?e = "\<lparr>env_rng = (\<lambda>_. 0), env_uuid = (\<lambda>_. Inr ''u''), env_clock = (\<lambda>i. 91), env_pos = 0\<rparr>"
  let ?parse = "\<lambda>t. if t = ''T1'' then Some 10 else Some (90::int)"
  let ?r = "\<lparr>rq_Method = ''POST'', rq_Header = (\<lambda>_. ''''), rq_Query = (\<lambda>_. ''''), rq_Param = (\<lambda>_. ''''),
            rq_RemoteAddr = '''', rq_Body = Some (JObj [(''id'', JStr ''ev''), (''name'', JStr ''n''),
              (''start_at'', JStr ''T1''), (''end_at'', JStr ''T2''), (''rewards'', JArr [])]),
            rq_BodyErr = '''', rq_Auth = None\<rparr>"
  have d: "decode_createEventReq ?parse (rq_Body ?r) =
      Some \<lparr>eq_ID = ''ev'', eq_Name = ''n'', eq_StartAt = 10, eq_EndAt = 90, eq_Rewards = []\<rparr>"
    by (simp add: decode_createEventReq_def decode_field_def decode_member_def strings_EqualFold_def
        lower_byte_def dec_time_def)
  show ?thesis
    using create_event_endpoint [of ?parse ?r _ "\<lambda>_. VOk" "empty_event_world ?e", OF d refl]
    by (simp add: case_prod_unfold Let_def repo_view_def empty_event_world_def NewEventRepo_def)
qed

end
