(* ===== verification/Battle.thy ===== *)
theory Battle
  imports Go_World Apperror
begin

text \<open>
  Battle damage: \<open>domain/battle\<close>, the in-memory repository \<open>persistence/inmem/battle_repo.go\<close>, the
  direct implementation \<open>V1Naive\<close> of \<open>service/battle/service.go\<close>, \<open>Build\<close>, and the handler of
  \<open>endpoint/battle.go\<close>. The queueing implementation is in \<open>Battle_Queue\<close>.
\<close>

section \<open>Domain and repository\<close>

definition MaxDamagePerRequest :: int where "MaxDamagePerRequest = 100000"
definition DefaultInitialHP :: int where "DefaultInitialHP = 10000"

lemmas battle_consts = MaxDamagePerRequest_def DefaultInitialHP_def

record PlayerHP =
  ph_PlayerID :: string
  ph_HP :: int
  ph_UpdatedAt :: int

record BattleRepo =
  b_hp :: "(string, int) gomap"

definition NewBattleRepo :: BattleRepo where
  "NewBattleRepo = \<lparr>b_hp = []\<rparr>"

definition inmem_ApplyDamageNaive :: "string \<Rightarrow> int \<Rightarrow> BattleRepo \<Rightarrow> int result \<times> BattleRepo" where
  "inmem_ApplyDamageNaive playerID damage r =
     (let hp = (case map_of (b_hp r) playerID of None \<Rightarrow> DefaultInitialHP | Some hp \<Rightarrow> hp);
          hp = int64 (hp - damage);
          hp = (if hp < 0 then 0 else hp)
      in (Inr hp, r\<lparr>b_hp := AList.update playerID hp (b_hp r)\<rparr>))"

definition inmem_hp_Get :: "string \<Rightarrow> int \<Rightarrow> BattleRepo \<Rightarrow> PlayerHP result \<times> BattleRepo" where
  "inmem_hp_Get playerID now r =
     (case map_of (b_hp r) playerID of
        None \<Rightarrow> (Inl (Sentinel ErrHPNotFound), r)
      | Some hp \<Rightarrow> (Inr \<lparr>ph_PlayerID = playerID, ph_HP = hp, ph_UpdatedAt = now\<rparr>, r))"

definition inmem_hp_Reset :: "string \<Rightarrow> int \<Rightarrow> BattleRepo \<Rightarrow> unit result \<times> BattleRepo" where
  "inmem_hp_Reset playerID hp r = (Inr (), r\<lparr>b_hp := AList.update playerID hp (b_hp r)\<rparr>)"

section \<open>V1Naive and the handler\<close>

text \<open>The \<open>ApplyDamageNaive\<close> of the repository is the argument.\<close>

definition V1Naive_Apply ::
  "(string \<Rightarrow> int \<Rightarrow> 's \<Rightarrow> int result \<times> 's) \<Rightarrow> string \<Rightarrow> int \<Rightarrow> 's \<Rightarrow> int result \<times> 's" where
  "V1Naive_Apply applyDamage playerID damage s =
     (if damage < 1 \<or> damage > MaxDamagePerRequest then (Inl (Sentinel ErrInvalidDamage), s)
      else let (r, s) = applyDamage playerID damage s in (wrap_result ''apply damage naive'' r, s))"

datatype Applier = V1Naive | V2UserQueue

definition Build :: "string \<Rightarrow> Applier" where
  "Build impl = (if impl = ''queue'' then V2UserQueue else V1Naive)"

record damageReq =
  dq_TargetPlayer :: string
  dq_Damage :: int

definition decode_damageReq :: "json option \<Rightarrow> damageReq option" where
  "decode_damageReq body =
     (case json_members body of
        None \<Rightarrow> None
      | Some ms \<Rightarrow>
          (let (p, ok1) = decode_field ''target_player'' dec_string '''' ms;
               (d, ok2) = decode_field ''damage'' dec_int64 0 ms
           in if ok1 \<and> ok2 then Some \<lparr>dq_TargetPlayer = p, dq_Damage = d\<rparr> else None))"

definition damageReq_tags :: "damageReq \<Rightarrow> vstruct" where
  "damageReq_tags req =
     [(''target_player'', [VRequired, VMin 1, VMax 64], VStr (dq_TargetPlayer req)),
      (''damage'', [VRequired, VMin 1, VMax 100000], VInt (dq_Damage req))]"

definition damageResp :: "string \<Rightarrow> int \<Rightarrow> string \<Rightarrow> json" where
  "damageResp playerID hp impl =
     JObj [(''player_id'', JStr playerID), (''hp'', JInt hp), (''impl'', JStr impl)]"

definition BattleHandler_ApplyDamage ::
  "(string \<Rightarrow> int \<Rightarrow> 's \<Rightarrow> int result \<times> 's) \<Rightarrow> string \<Rightarrow> validator \<Rightarrow> 's handler" where
  "BattleHandler_ApplyDamage applier implLabel vldtr r s =
     (case decode_damageReq (rq_Body r) of
        None \<Rightarrow> (WriteJSON (Validation ''invalid body''
                   [\<lparr>fe_Field = ''body'', fe_Tag = ''json'', fe_Message = rq_BodyErr r\<rparr>]), s)
      | Some req \<Rightarrow>
          (case vldtr (damageReq_tags req) of
             VOk \<Rightarrow>
               (case applier (dq_TargetPlayer req) (dq_Damage req) s of
                  (Inl err, s) \<Rightarrow>
                    (if errors_Is err ErrInvalidDamage then
                       (WriteJSON (Validation ''damage out of range''
                          [\<lparr>fe_Field = ''damage'', fe_Tag = ''range'', fe_Message = ''1..100000''\<rparr>]), s)
                     else (WriteJSON (Internal ''apply damage'' err), s))
                | (Inr hp, s) \<Rightarrow>
                    (WriteHeader 200 # writeJSON (damageResp (dq_TargetPlayer req) hp implLabel), s))
           | v \<Rightarrow> (WriteJSON (toValidationError v), s)))"

section \<open>Hit points\<close>

text \<open>The specification: a player's hit points, which start at 10000 and never fall below zero.\<close>

definition hp_of :: "BattleRepo \<Rightarrow> string \<Rightarrow> int" where
  "hp_of r p = (case map_of (b_hp r) p of None \<Rightarrow> DefaultInitialHP | Some hp \<Rightarrow> hp)"

definition hp_ok :: "BattleRepo \<Rightarrow> bool" where
  "hp_ok r \<longleftrightarrow> (\<forall>p. 0 \<le> hp_of r p \<and> hp_of r p < 2 ^ 63)"

definition damage_ok :: "int \<Rightarrow> bool" where
  "damage_ok d \<longleftrightarrow> 1 \<le> d \<and> d \<le> MaxDamagePerRequest"

lemma hp_of_New [simp]: "hp_of NewBattleRepo p = 10000" "hp_ok NewBattleRepo"
  by (simp_all add: hp_of_def hp_ok_def NewBattleRepo_def battle_consts)

lemma inmem_ApplyDamageNaive_hp:
  assumes "hp_ok r" "damage_ok d" "inmem_ApplyDamageNaive p d r = (res, r')"
  shows "res = Inr (max 0 (hp_of r p - d))" "hp_of r' = (hp_of r)(p := max 0 (hp_of r p - d))" "hp_ok r'"
proof -
  have b: "0 \<le> hp_of r p" "hp_of r p < 2 ^ 63" "1 \<le> d" "d \<le> 100000"
    using assms(1,2) by (auto simp: hp_ok_def damage_ok_def battle_consts)
  then have i: "int64 (hp_of r p - d) = hp_of r p - d" by (intro int64_small) auto
  have app: "inmem_ApplyDamageNaive p d r =
      (Inr (max 0 (hp_of r p - d)), r\<lparr>b_hp := AList.update p (max 0 (hp_of r p - d)) (b_hp r)\<rparr>)"
    using i by (simp add: inmem_ApplyDamageNaive_def Let_def max_def flip: hp_of_def)
  then show "res = Inr (max 0 (hp_of r p - d))" using assms(3) by simp
  show hp: "hp_of r' = (hp_of r)(p := max 0 (hp_of r p - d))"
    using app assms(3) by (auto simp: hp_of_def fun_eq_iff update_conv')
  have "max 0 (hp_of r p - d) < 2 ^ 63" using b by simp
  then show "hp_ok r'" using assms(1) hp by (auto simp: hp_ok_def)
qed

text \<open>
  The contract of a repository of hit points, for players \<open>ids\<close> that it tells apart: a hit that is answered takes
  its damage from that player, down to zero, and is answered with what is left; a hit that fails changes nothing.
\<close>

locale damage_store =
  fixes hit :: "string \<Rightarrow> int \<Rightarrow> 's \<Rightarrow> int result \<times> 's"
    and hp :: "'s \<Rightarrow> string \<Rightarrow> int" and ok :: "'s \<Rightarrow> bool" and ids :: "string set"
  assumes hit_ok: "ok s \<Longrightarrow> p \<in> ids \<Longrightarrow> damage_ok d \<Longrightarrow> hit p d s = (r, s') \<Longrightarrow> ok s'"
    and hit_hp: "ok s \<Longrightarrow> p \<in> ids \<Longrightarrow> damage_ok d \<Longrightarrow> hit p d s = (r, s') \<Longrightarrow> q \<in> ids \<Longrightarrow>
      hp s' q = (if q = p \<and> \<not> isl r then max 0 (hp s p - d) else hp s q)"
    and hit_answer: "ok s \<Longrightarrow> p \<in> ids \<Longrightarrow> damage_ok d \<Longrightarrow> hit p d s = (Inr h, s') \<Longrightarrow> h = max 0 (hp s p - d)"
    and hp_nonneg: "ok s \<Longrightarrow> p \<in> ids \<Longrightarrow> 0 \<le> hp s p"

interpretation inmem_hp: damage_store inmem_ApplyDamageNaive hp_of hp_ok UNIV
proof
  fix r p d x r'
  assume "hp_ok r" "damage_ok d" "inmem_ApplyDamageNaive p d r = (x, r')"
  note h = inmem_ApplyDamageNaive_hp [OF this]
  show "hp_ok r'" by (rule h(3))
  show "hp_of r' q = (if q = p \<and> \<not> isl x then max 0 (hp_of r p - d) else hp_of r q)" for q
    using h(1,2) by simp
next
  fix r p d x r'
  assume "hp_ok r" "damage_ok d" "inmem_ApplyDamageNaive p d r = (Inr x, r')"
  from inmem_ApplyDamageNaive_hp(1) [OF this] show "x = max 0 (hp_of r p - d)" by simp
qed (simp add: hp_ok_def)

text \<open>A batch of hits on one player, in order.\<close>

fun hits :: "string \<Rightarrow> int list \<Rightarrow> BattleRepo \<Rightarrow> int result list \<times> BattleRepo" where
  "hits p [] r = ([], r)"
| "hits p (d # ds) r =
     (let (x, r) = V1Naive_Apply inmem_ApplyDamageNaive p d r; (xs, r) = hits p ds r in (x # xs, r))"

lemma max_0_fold: "(0::int) \<le> b \<Longrightarrow> max 0 (max 0 (a - c) - b) = max 0 (a - (c + b))"
  by (simp add: max_def)

lemma hits_hp:
  assumes "hp_ok r" "list_all damage_ok ds"
  shows "hp_of (snd (hits p ds r)) = (hp_of r)(p := if ds = [] then hp_of r p else max 0 (hp_of r p - sum_list ds))
    \<and> fst (hits p ds r) = map (\<lambda>k. Inr (max 0 (hp_of r p - sum_list (take k ds)))) [1..<Suc (length ds)]"
  using assms
proof (induction ds arbitrary: r)
  case Nil
  then show ?case by simp
next
  case (Cons d ds)
  obtain x r1 where hit: "inmem_ApplyDamageNaive p d r = (x, r1)" by (metis surj_pair)
  have d: "damage_ok d" "list_all damage_ok ds" using Cons.prems by auto
  note one = inmem_ApplyDamageNaive_hp [OF Cons.prems(1) d(1) hit]
  have pos: "0 \<le> sum_list (take k ds)" for k
    using d(2) by (intro sum_list_nonneg) (auto simp: list_all_iff damage_ok_def dest!: in_set_takeD)
  have step: "hits p (d # ds) r = (x # fst (hits p ds r1), snd (hits p ds r1))"
    using d(1) hit one(1) by (auto simp: V1Naive_Apply_def damage_ok_def case_prod_unfold Let_def)
  have fold: "max 0 (max 0 (hp_of r p - d) - sum_list (take k ds)) = max 0 (hp_of r p - (d + sum_list (take k ds)))"
    for k using pos [of k] by (rule max_0_fold)
  have idx: "[Suc 0..<Suc (Suc (length ds))] = Suc 0 # map Suc [Suc 0..<Suc (length ds)]"
    by (cases ds) (simp_all add: map_Suc_upt upt_conv_Cons del: upt_Suc)
  show ?case
    using Cons.IH [OF one(3) d(2)] one(1,2) fold [of "length ds"] fold
    by (auto simp: step idx simp del: upt_Suc hits.simps)
qed

text \<open>
  Damage adds up. On the in-memory store, after any batch of valid hits on one player the hit
  points are the old ones minus the sum of the hits, but not below zero, whatever the order of the
  hits; every hit is answered with the points left after it, and no other player is affected.
\<close>

theorem damage_adds_up:
  assumes "hp_ok r" "list_all damage_ok ds" "ds \<noteq> []" "mset ds' = mset ds"
  shows "hp_of (snd (hits p ds r)) = (hp_of r)(p := max 0 (hp_of r p - sum_list ds))
    \<and> hp_of (snd (hits p ds' r)) = hp_of (snd (hits p ds r))
    \<and> fst (hits p ds r) = map (\<lambda>k. Inr (max 0 (hp_of r p - sum_list (take k ds)))) [1..<Suc (length ds)]"
proof -
  have "list_all damage_ok ds'" "ds' \<noteq> []" "sum_list ds' = sum_list ds"
    using assms(2-4) by (auto simp: list_all_iff sum_mset_sum_list [symmetric] dest: mset_eq_setD)
  with hits_hp [OF assms(1,2), of p] hits_hp [OF assms(1), of ds' p] assms(3) show ?thesis by simp
qed

theorem damage_adds_up_witness:
  "hp_of (snd (hits ''p1'' [4000, 3000, 2500] NewBattleRepo)) ''p1'' = 500
   \<and> fst (hits ''p1'' [4000, 3000, 2500] NewBattleRepo) = [Inr 6000, Inr 3000, Inr 500]"
  using damage_adds_up [of NewBattleRepo "[4000, 3000, 2500]" "[2500, 4000, 3000]" "''p1''"]
  by (simp add: damage_ok_def battle_consts del: hits.simps)

end
