(* ===== verification/Battle_Queue.thy ===== *)
theory Battle_Queue
  imports Battle
begin

text \<open>
  \<open>V2UserQueue\<close> of \<open>service/battle/service.go\<close> as a state machine. Every call of \<open>Apply\<close> is a process
  with its own progress, every player with a queue has one worker process, and the steps of all
  processes interleave freely. A step is one communication or one repository call: entering \<open>Apply\<close>
  (with \<open>getOrCreate\<close>), sending on the bounded channel, giving up in either \<open>select\<close>, the worker
  receiving, calling the repository and answering, and the caller receiving the answer. The context
  of a call can end at any time, so the two steps of giving up are always possible. \<open>v2_sent\<close> and
  \<open>v2_applied\<close> record the history and are not part of the program.
\<close>

section \<open>States and steps\<close>

definition QueueCapacity :: nat where "QueueCapacity = 64"

datatype phase = Enqueueing | Awaiting | Returned "int result"

record queueReq =
  qr_player :: string
  qr_damage :: int
  qr_phase :: phase

datatype worker = WorkerIdle | WorkerApplying nat | WorkerReplying nat "int result"

record 's v2_state =
  v2_repo :: 's
  v2_queues :: "(string, nat list) gomap"
  v2_workers :: "string \<Rightarrow> worker"
  v2_calls :: "nat \<Rightarrow> queueReq option"
  v2_resp :: "nat \<Rightarrow> int result option"
  v2_sent :: "string \<Rightarrow> nat list"
  v2_applied :: "string \<Rightarrow> (nat \<times> int result) list"

definition NewV2UserQueue :: "'s \<Rightarrow> 's v2_state" where
  "NewV2UserQueue repo =
     \<lparr>v2_repo = repo, v2_queues = [], v2_workers = (\<lambda>_. WorkerIdle), v2_calls = (\<lambda>_. None),
      v2_resp = (\<lambda>_. None), v2_sent = (\<lambda>_. []), v2_applied = (\<lambda>_. [])\<rparr>"

definition v2_queue :: "'s v2_state \<Rightarrow> string \<Rightarrow> nat list" where
  "v2_queue st p = (case map_of (v2_queues st) p of None \<Rightarrow> [] | Some q \<Rightarrow> q)"

definition getOrCreate :: "string \<Rightarrow> 's v2_state \<Rightarrow> 's v2_state" where
  "getOrCreate p st =
     (case map_of (v2_queues st) p of
        Some q \<Rightarrow> st
      | None \<Rightarrow> st\<lparr>v2_queues := AList.update p [] (v2_queues st),
                   v2_workers := (v2_workers st)(p := WorkerIdle)\<rparr>)"

definition set_phase :: "nat \<Rightarrow> queueReq \<Rightarrow> phase \<Rightarrow> 's v2_state \<Rightarrow> 's v2_state" where
  "set_phase i c ph st = st\<lparr>v2_calls := (v2_calls st)(i \<mapsto> c\<lparr>qr_phase := ph\<rparr>)\<rparr>"

text \<open>\<open>Apply\<close> up to the first \<open>select\<close>; \<open>i\<close> names the call.\<close>

definition v2_call :: "nat \<Rightarrow> string \<Rightarrow> int \<Rightarrow> 's v2_state \<Rightarrow> 's v2_state option" where
  "v2_call i p d st =
     (if v2_calls st i \<noteq> None then None
      else let c = \<lparr>qr_player = p, qr_damage = d, qr_phase = Enqueueing\<rparr>
           in if d < 1 \<or> d > MaxDamagePerRequest
              then Some (set_phase i c (Returned (Inl (Sentinel ErrInvalidDamage))) st)
              else Some (set_phase i c Enqueueing (getOrCreate p st)))"

text \<open>The first \<open>select\<close>: send when the channel has room, or give up.\<close>

definition v2_send :: "nat \<Rightarrow> 's v2_state \<Rightarrow> 's v2_state option" where
  "v2_send i st =
     (case v2_calls st i of
        Some c \<Rightarrow>
          (let q = v2_queue st (qr_player c)
           in if qr_phase c = Enqueueing \<and> length q < QueueCapacity
              then Some (set_phase i c Awaiting
                     (st\<lparr>v2_queues := AList.update (qr_player c) (q @ [i]) (v2_queues st),
                         v2_sent := (v2_sent st)(qr_player c := v2_sent st (qr_player c) @ [i])\<rparr>))
              else None)
      | None \<Rightarrow> None)"

definition v2_send_timeout :: "nat \<Rightarrow> 's v2_state \<Rightarrow> 's v2_state option" where
  "v2_send_timeout i st =
     (case v2_calls st i of
        Some c \<Rightarrow>
          (if qr_phase c = Enqueueing
           then Some (set_phase i c (Returned (Inl (Wrap ''enqueue'' (Sentinel CtxDone)))) st) else None)
      | None \<Rightarrow> None)"

text \<open>The second \<open>select\<close>: take the answer when there is one, or give up.\<close>

definition v2_receive :: "nat \<Rightarrow> 's v2_state \<Rightarrow> 's v2_state option" where
  "v2_receive i st =
     (case (v2_calls st i, v2_resp st i) of
        (Some c, Some r) \<Rightarrow>
          (if qr_phase c = Awaiting
           then Some (set_phase i c (Returned r) (st\<lparr>v2_resp := (v2_resp st)(i := None)\<rparr>)) else None)
      | _ \<Rightarrow> None)"

definition v2_await_timeout :: "nat \<Rightarrow> 's v2_state \<Rightarrow> 's v2_state option" where
  "v2_await_timeout i st =
     (case v2_calls st i of
        Some c \<Rightarrow>
          (if qr_phase c = Awaiting
           then Some (set_phase i c (Returned (Inl (Wrap ''await'' (Sentinel CtxDone)))) st) else None)
      | None \<Rightarrow> None)"

text \<open>The worker's loop: receive, call the repository, answer.\<close>

definition worker_take :: "string \<Rightarrow> 's v2_state \<Rightarrow> 's v2_state option" where
  "worker_take p st =
     (case (v2_workers st p, v2_queue st p) of
        (WorkerIdle, i # q) \<Rightarrow>
          Some (st\<lparr>v2_queues := AList.update p q (v2_queues st),
                   v2_workers := (v2_workers st)(p := WorkerApplying i)\<rparr>)
      | _ \<Rightarrow> None)"

definition worker_apply ::
  "(string \<Rightarrow> int \<Rightarrow> 's \<Rightarrow> int result \<times> 's) \<Rightarrow> string \<Rightarrow> 's v2_state \<Rightarrow> 's v2_state option" where
  "worker_apply applyDamage p st =
     (case v2_workers st p of
        WorkerApplying i \<Rightarrow>
          (case v2_calls st i of
             Some c \<Rightarrow>
               (let (r, repo) = applyDamage (qr_player c) (qr_damage c) (v2_repo st)
                in Some (st\<lparr>v2_repo := repo, v2_workers := (v2_workers st)(p := WorkerReplying i r),
                            v2_applied := (v2_applied st)(p := v2_applied st p @ [(i, r)])\<rparr>))
           | None \<Rightarrow> None)
      | _ \<Rightarrow> None)"

definition worker_reply :: "string \<Rightarrow> 's v2_state \<Rightarrow> 's v2_state option" where
  "worker_reply p st =
     (case v2_workers st p of
        WorkerReplying i r \<Rightarrow>
          Some (st\<lparr>v2_resp := (v2_resp st)(i \<mapsto> r), v2_workers := (v2_workers st)(p := WorkerIdle)\<rparr>)
      | _ \<Rightarrow> None)"

datatype action =
    Call nat string int | Send nat | SendTimeout nat | Receive nat | AwaitTimeout nat
  | Take string | ApplyHit string | Reply string

fun v2_step ::
  "(string \<Rightarrow> int \<Rightarrow> 's \<Rightarrow> int result \<times> 's) \<Rightarrow> action \<Rightarrow> 's v2_state \<Rightarrow> 's v2_state option" where
  "v2_step f (Call i p d) st = v2_call i p d st"
| "v2_step f (Send i) st = v2_send i st"
| "v2_step f (SendTimeout i) st = v2_send_timeout i st"
| "v2_step f (Receive i) st = v2_receive i st"
| "v2_step f (AwaitTimeout i) st = v2_await_timeout i st"
| "v2_step f (Take p) st = worker_take p st"
| "v2_step f (ApplyHit p) st = worker_apply f p st"
| "v2_step f (Reply p) st = worker_reply p st"

lemmas v2_defs = v2_call_def v2_send_def v2_send_timeout_def v2_receive_def v2_await_timeout_def
  worker_take_def worker_apply_def worker_reply_def set_phase_def getOrCreate_def v2_queue_def

text \<open>The states that the calls and workers can reach, in any interleaving.\<close>

inductive v2_reachable ::
  "(string \<Rightarrow> int \<Rightarrow> 's \<Rightarrow> int result \<times> 's) \<Rightarrow> 's v2_state \<Rightarrow> 's v2_state \<Rightarrow> bool" for f st0 where
  v2_start: "v2_reachable f st0 st0"
| v2_next: "v2_reachable f st0 st \<Longrightarrow> v2_step f a st = Some st' \<Longrightarrow> v2_reachable f st0 st'"

inductive_cases v2_reachableE: "v2_reachable f st0 st"

section \<open>The invariant\<close>

fun inflight :: "worker \<Rightarrow> nat list" where
  "inflight (WorkerApplying i) = [i]"
| "inflight _ = []"

text \<open>Per player: requests are handled in the order they were sent, and none is lost.\<close>

definition fifo :: "'s v2_state \<Rightarrow> string \<Rightarrow> bool" where
  "fifo st p \<longleftrightarrow>
     v2_sent st p = map fst (v2_applied st p) @ inflight (v2_workers st p) @ v2_queue st p"

definition sent_ok :: "'s v2_state \<Rightarrow> string \<Rightarrow> bool" where
  "sent_ok st p \<longleftrightarrow> distinct (v2_sent st p) \<and>
     (\<forall>i\<in>set (v2_sent st p). \<exists>c. v2_calls st i = Some c \<and> qr_player c = p \<and> damage_ok (qr_damage c) \<and>
        qr_phase c \<noteq> Enqueueing)"

definition worker_ok :: "'s v2_state \<Rightarrow> string \<Rightarrow> bool" where
  "worker_ok st p \<longleftrightarrow> length (v2_queue st p) \<le> QueueCapacity \<and>
     (\<forall>i r. v2_workers st p = WorkerReplying i r \<longrightarrow> (i, r) \<in> set (v2_applied st p)) \<and>
     (map_of (v2_queues st) p = None \<longrightarrow> v2_workers st p = WorkerIdle)"

text \<open>Per call: what its progress says about the history.\<close>

definition call_ok :: "'s v2_state \<Rightarrow> nat \<Rightarrow> queueReq \<Rightarrow> bool" where
  "call_ok st i c \<longleftrightarrow>
     (qr_phase c = Enqueueing \<longrightarrow> damage_ok (qr_damage c) \<and> map_of (v2_queues st) (qr_player c) \<noteq> None) \<and>
     (qr_phase c = Awaiting \<longrightarrow> i \<in> set (v2_sent st (qr_player c))) \<and>
     (\<forall>hp. qr_phase c = Returned (Inr hp) \<longrightarrow> (i, Inr hp) \<in> set (v2_applied st (qr_player c)))"

definition resp_ok :: "'s v2_state \<Rightarrow> bool" where
  "resp_ok st \<longleftrightarrow> (\<forall>i r. v2_resp st i = Some r \<longrightarrow> (\<exists>p. (i, r) \<in> set (v2_applied st p)))"

definition v2_inv :: "'s v2_state \<Rightarrow> bool" where
  "v2_inv st \<longleftrightarrow> (\<forall>p. fifo st p) \<and> (\<forall>p. sent_ok st p) \<and> (\<forall>p. worker_ok st p) \<and>
     (\<forall>i c. v2_calls st i = Some c \<longrightarrow> call_ok st i c) \<and> resp_ok st"

lemma v2_invD:
  assumes "v2_inv st"
  shows "fifo st p" "sent_ok st p" "worker_ok st p" "v2_calls st i = Some c \<Longrightarrow> call_ok st i c" "resp_ok st"
  using assms by (auto simp: v2_inv_def)

lemma v2_invI:
  assumes "\<And>p. fifo st p" "\<And>p. sent_ok st p" "\<And>p. worker_ok st p"
    and "\<And>i c. v2_calls st i = Some c \<Longrightarrow> call_ok st i c" "resp_ok st"
  shows "v2_inv st"
  using assms by (simp add: v2_inv_def)

lemma fifo_sent: "fifo st p \<Longrightarrow> (i, r) \<in> set (v2_applied st p) \<Longrightarrow> i \<in> set (v2_sent st p)"
  unfolding fifo_def by force

text \<open>An answer exists only for a request of that player.\<close>

lemma applied_player:
  assumes "v2_inv st" "(i, r) \<in> set (v2_applied st p)" "v2_calls st i = Some c"
  shows "qr_player c = p"
  using fifo_sent [OF v2_invD(1) [OF assms(1)] assms(2)] v2_invD(2) [OF assms(1), of p] assms(3)
  by (auto simp: sent_ok_def)

text \<open>The steps that change the progress of one call and nothing else.\<close>

lemma set_phase_simps [simp]:
  "v2_queue (set_phase i c ph st) = v2_queue st" "v2_queues (set_phase i c ph st) = v2_queues st"
  "v2_workers (set_phase i c ph st) = v2_workers st" "v2_sent (set_phase i c ph st) = v2_sent st"
  "v2_applied (set_phase i c ph st) = v2_applied st" "v2_resp (set_phase i c ph st) = v2_resp st"
  "v2_calls (set_phase i c ph st) = (v2_calls st)(i \<mapsto> c\<lparr>qr_phase := ph\<rparr>)"
  "v2_repo (set_phase i c ph st) = v2_repo st"
  by (simp_all add: set_phase_def fun_eq_iff v2_queue_def)

lemma set_phase_parts [simp]:
  "fifo (set_phase i c ph st) = fifo st" "worker_ok (set_phase i c ph st) = worker_ok st"
  "call_ok (set_phase i c ph st) = call_ok st" "resp_ok (set_phase i c ph st) = resp_ok st"
  by (simp_all add: fun_eq_iff fifo_def worker_ok_def call_ok_def resp_ok_def)

lemma v2_inv_set_phase:
  assumes inv: "v2_inv st" and c: "v2_calls st i = Some c" "ph \<noteq> Enqueueing"
    and ok: "call_ok st i (c\<lparr>qr_phase := ph\<rparr>)"
  shows "v2_inv (set_phase i c ph st)"
proof (rule v2_invI)
  show "sent_ok (set_phase i c ph st) p" for p
    using v2_invD(2) [OF inv, of p] c by (auto simp: sent_ok_def)
  show "call_ok (set_phase i c ph st) j d" if "v2_calls (set_phase i c ph st) j = Some d" for j d
    using v2_invD(4) [OF inv, of j d] that ok by (auto split: if_splits)
qed (use v2_invD [OF inv] in simp_all)

lemma v2_inv_send_timeout: "v2_inv st \<Longrightarrow> v2_send_timeout i st = Some st' \<Longrightarrow> v2_inv st'"
  by (auto simp: v2_send_timeout_def call_ok_def split: option.splits if_splits intro!: v2_inv_set_phase)

lemma v2_inv_await_timeout: "v2_inv st \<Longrightarrow> v2_await_timeout i st = Some st' \<Longrightarrow> v2_inv st'"
  by (auto simp: v2_await_timeout_def call_ok_def split: option.splits if_splits intro!: v2_inv_set_phase)

lemma resp_parts [simp]:
  "fifo (st\<lparr>v2_resp := x\<rparr>) = fifo st" "worker_ok (st\<lparr>v2_resp := x\<rparr>) = worker_ok st"
  "call_ok (st\<lparr>v2_resp := x\<rparr>) = call_ok st" "sent_ok (st\<lparr>v2_resp := x\<rparr>) = sent_ok st"
  by (simp_all add: fun_eq_iff fifo_def worker_ok_def call_ok_def sent_ok_def v2_queue_def)

lemma v2_inv_resp_drop: "v2_inv st \<Longrightarrow> v2_inv (st\<lparr>v2_resp := (v2_resp st)(i := None)\<rparr>)"
  by (auto simp: v2_inv_def resp_ok_def)

lemma v2_inv_receive:
  assumes inv: "v2_inv st" and step: "v2_receive i st = Some st'"
  shows "v2_inv st'"
proof -
  obtain c r where c: "v2_calls st i = Some c" "v2_resp st i = Some r"
    and st': "st' = set_phase i c (Returned r) (st\<lparr>v2_resp := (v2_resp st)(i := None)\<rparr>)"
    using step by (auto simp: v2_receive_def split: option.splits if_splits)
  obtain p where "(i, r) \<in> set (v2_applied st p)"
    using v2_invD(5) [OF inv] c(2) by (auto simp: resp_ok_def)
  with applied_player [OF inv _ c(1)] have "(i, r) \<in> set (v2_applied st (qr_player c))" by blast
  with c(1) show ?thesis
    unfolding st'
    by (intro v2_inv_set_phase v2_inv_resp_drop inv) (auto simp: call_ok_def)
qed

text \<open>A new call.\<close>

lemma getOrCreate_simps [simp]:
  "v2_queue (getOrCreate p st) = v2_queue st" "v2_sent (getOrCreate p st) = v2_sent st"
  "v2_applied (getOrCreate p st) = v2_applied st" "v2_calls (getOrCreate p st) = v2_calls st"
  "v2_resp (getOrCreate p st) = v2_resp st" "v2_repo (getOrCreate p st) = v2_repo st"
  "map_of (v2_queues (getOrCreate p st)) q = None \<longleftrightarrow> q \<noteq> p \<and> map_of (v2_queues st) q = None"
  by (auto simp: getOrCreate_def fun_eq_iff v2_queue_def update_conv' split: option.splits)

lemma getOrCreate_workers: "v2_inv st \<Longrightarrow> v2_workers (getOrCreate p st) = v2_workers st"
  using v2_invD(3) [of st p]
  by (auto simp: getOrCreate_def worker_ok_def fun_eq_iff split: option.splits)

lemma v2_inv_getOrCreate:
  assumes inv: "v2_inv st"
  shows "v2_inv (getOrCreate p st)"
proof (rule v2_invI)
  note w = getOrCreate_workers [OF inv, of p]
  show "fifo (getOrCreate p st) q" for q
    using v2_invD(1) [OF inv, of q] by (simp add: fifo_def w)
  show "sent_ok (getOrCreate p st) q" for q
    using v2_invD(2) [OF inv, of q] by (simp add: sent_ok_def)
  show "worker_ok (getOrCreate p st) q" for q
    using v2_invD(3) [OF inv, of q] by (auto simp: worker_ok_def w)
  show "call_ok (getOrCreate p st) i c" if "v2_calls (getOrCreate p st) i = Some c" for i c
    using v2_invD(4) [OF inv, of i c] that by (auto simp: call_ok_def)
  show "resp_ok (getOrCreate p st)" using v2_invD(5) [OF inv] by (simp add: resp_ok_def)
qed

lemma v2_inv_new_call:
  assumes inv: "v2_inv st" and fresh: "v2_calls st i = None"
    and ok: "call_ok st i (c\<lparr>qr_phase := ph\<rparr>)"
  shows "v2_inv (set_phase i c ph st)"
proof (rule v2_invI)
  show "sent_ok (set_phase i c ph st) p" for p
    using v2_invD(2) [OF inv, of p] fresh by (force simp: sent_ok_def)
  show "call_ok (set_phase i c ph st) j d" if "v2_calls (set_phase i c ph st) j = Some d" for j d
    using v2_invD(4) [OF inv, of j d] that ok by (auto split: if_splits)
qed (use v2_invD [OF inv] in simp_all)

lemma v2_inv_call: "v2_inv st \<Longrightarrow> v2_call i p d st = Some st' \<Longrightarrow> v2_inv st'"
  by (auto simp: v2_call_def Let_def call_ok_def damage_ok_def split: if_splits
      intro!: v2_inv_new_call v2_inv_getOrCreate)

text \<open>The steps on the channel.\<close>

lemma v2_queue_update:
  "v2_queue (st\<lparr>v2_queues := AList.update p q (v2_queues st)\<rparr>) = (v2_queue st)(p := q)"
  by (auto simp: fun_eq_iff v2_queue_def update_conv')

lemma v2_inv_send:
  assumes inv: "v2_inv st" and step: "v2_send i st = Some st'"
  shows "v2_inv st'"
proof -
  obtain c where c: "v2_calls st i = Some c" "qr_phase c = Enqueueing"
      "length (v2_queue st (qr_player c)) < QueueCapacity"
    and st': "st' = set_phase i c Awaiting
      (st\<lparr>v2_queues := AList.update (qr_player c) (v2_queue st (qr_player c) @ [i]) (v2_queues st),
          v2_sent := (v2_sent st)(qr_player c := v2_sent st (qr_player c) @ [i])\<rparr>)"
    using step by (auto simp: v2_send_def Let_def split: option.splits if_splits)
  let ?p = "qr_player c"
  have q: "v2_queue st' = (v2_queue st)(?p := v2_queue st ?p @ [i])"
    unfolding st' by (auto simp: fun_eq_iff v2_queue_def update_conv')
  have unsent: "i \<notin> set (v2_sent st p)" for p
    using v2_invD(2) [OF inv, of p] c by (auto simp: sent_ok_def)
  have dmg: "damage_ok (qr_damage c)" using v2_invD(4) [OF inv c(1)] c(2) by (simp add: call_ok_def)
  show ?thesis
  proof (rule v2_invI)
    show "fifo st' p" for p
      using v2_invD(1) [OF inv, of p] by (simp add: fifo_def q) (auto simp: st')
    show "sent_ok st' p" for p
      using v2_invD(2) [OF inv, of p] unsent [of p] c dmg by (auto simp: sent_ok_def st')
    show "worker_ok st' p" for p
      using v2_invD(3) [OF inv, of p] c(3) by (simp add: worker_ok_def q) (auto simp: st' update_conv')
    show "call_ok st' j d" if "v2_calls st' j = Some d" for j d
      using v2_invD(4) [OF inv, of j d] that by (auto simp: st' call_ok_def update_conv' split: if_splits)
    show "resp_ok st'" using v2_invD(5) [OF inv] by (simp add: resp_ok_def st')
  qed
qed

lemma v2_inv_take:
  assumes inv: "v2_inv st" and step: "worker_take p st = Some st'"
  shows "v2_inv st'"
proof -
  obtain i q where w: "v2_workers st p = WorkerIdle" "v2_queue st p = i # q"
    and st': "st' = st\<lparr>v2_queues := AList.update p q (v2_queues st),
                       v2_workers := (v2_workers st)(p := WorkerApplying i)\<rparr>"
    using step by (auto simp: worker_take_def split: worker.splits list.splits)
  have q: "v2_queue st' = (v2_queue st)(p := q)"
    unfolding st' by (auto simp: fun_eq_iff v2_queue_def update_conv')
  show ?thesis
  proof (rule v2_invI)
    show "fifo st' x" for x
      using v2_invD(1) [OF inv, of x] w by (simp add: fifo_def q) (auto simp: st')
    show "sent_ok st' x" for x using v2_invD(2) [OF inv, of x] by (simp add: sent_ok_def st')
    show "worker_ok st' x" for x
      using v2_invD(3) [OF inv, of x] w by (simp add: worker_ok_def q) (auto simp: st' update_conv')
    show "call_ok st' j d" if "v2_calls st' j = Some d" for j d
      using v2_invD(4) [OF inv, of j d] that by (auto simp: st' call_ok_def update_conv')
    show "resp_ok st'" using v2_invD(5) [OF inv] by (simp add: resp_ok_def st')
  qed
qed

lemma v2_inv_apply:
  assumes inv: "v2_inv st" and step: "worker_apply f p st = Some st'"
  shows "v2_inv st'"
proof -
  obtain i c r repo where w: "v2_workers st p = WorkerApplying i" "v2_calls st i = Some c"
    and st': "st' = st\<lparr>v2_repo := repo, v2_workers := (v2_workers st)(p := WorkerReplying i r),
                       v2_applied := (v2_applied st)(p := v2_applied st p @ [(i, r)])\<rparr>"
    using step by (auto simp: worker_apply_def split: worker.splits option.splits prod.splits)
  have q: "v2_queue st' = v2_queue st" unfolding st' by (simp add: fun_eq_iff v2_queue_def)
  show ?thesis
  proof (rule v2_invI)
    show "fifo st' x" for x
      using v2_invD(1) [OF inv, of x] w by (simp add: fifo_def q) (auto simp: st')
    show "sent_ok st' x" for x using v2_invD(2) [OF inv, of x] by (simp add: sent_ok_def st')
    show "worker_ok st' x" for x
      using v2_invD(3) [OF inv, of x] w by (simp add: worker_ok_def q) (auto simp: st')
    show "call_ok st' j d" if "v2_calls st' j = Some d" for j d
      using v2_invD(4) [OF inv, of j d] that by (auto simp: st' call_ok_def)
    show "resp_ok st'"
      using v2_invD(5) [OF inv] unfolding resp_ok_def st' by (simp; metis UnCI)
  qed
qed

lemma v2_inv_reply:
  assumes inv: "v2_inv st" and step: "worker_reply p st = Some st'"
  shows "v2_inv st'"
proof -
  obtain i r where w: "v2_workers st p = WorkerReplying i r"
    and st': "st' = st\<lparr>v2_resp := (v2_resp st)(i \<mapsto> r), v2_workers := (v2_workers st)(p := WorkerIdle)\<rparr>"
    using step by (auto simp: worker_reply_def split: worker.splits)
  have q: "v2_queue st' = v2_queue st" unfolding st' by (simp add: fun_eq_iff v2_queue_def)
  show ?thesis
  proof (rule v2_invI)
    show "fifo st' x" for x
      using v2_invD(1) [OF inv, of x] w by (simp add: fifo_def q) (auto simp: st')
    show "sent_ok st' x" for x using v2_invD(2) [OF inv, of x] by (simp add: sent_ok_def st')
    show "worker_ok st' x" for x
      using v2_invD(3) [OF inv, of x] w by (simp add: worker_ok_def q) (auto simp: st')
    show "call_ok st' j d" if "v2_calls st' j = Some d" for j d
      using v2_invD(4) [OF inv, of j d] that by (auto simp: st' call_ok_def)
    show "resp_ok st'"
      using v2_invD(5) [OF inv] v2_invD(3) [OF inv, of p] w by (auto simp: resp_ok_def worker_ok_def st')
  qed
qed

lemmas v2_inv_steps = v2_inv_call v2_inv_send v2_inv_send_timeout v2_inv_receive v2_inv_await_timeout
  v2_inv_take v2_inv_apply v2_inv_reply

lemma v2_inv_step: "v2_inv st \<Longrightarrow> v2_step f a st = Some st' \<Longrightarrow> v2_inv st'"
  by (cases a) (auto dest: v2_inv_steps)

lemma v2_inv_New: "v2_inv (NewV2UserQueue repo)"
  by (simp add: v2_inv_def fifo_def sent_ok_def worker_ok_def resp_ok_def NewV2UserQueue_def v2_queue_def)

lemma v2_inv_reachable: "v2_reachable f st0 st \<Longrightarrow> v2_inv st0 \<Longrightarrow> v2_inv st"
  by (induction rule: v2_reachable.induct) (auto dest: v2_inv_step)

section \<open>Hit points under the queue\<close>

definition damages :: "'s v2_state \<Rightarrow> string \<Rightarrow> int list" where
  "damages st p = map (\<lambda>(i, r). qr_damage (the (v2_calls st i))) (v2_applied st p)"

text \<open>No step changes the target or the damage of a call.\<close>

lemma v2_step_calls:
  assumes "v2_step f a st = Some st'" "v2_calls st i = Some c"
  shows "\<exists>c'. v2_calls st' i = Some c' \<and> qr_damage c' = qr_damage c \<and> qr_player c' = qr_player c"
  using assms
  by (cases a) (auto simp: v2_call_def v2_send_def v2_send_timeout_def v2_receive_def v2_await_timeout_def
      worker_take_def worker_apply_def worker_reply_def Let_def
      split: if_splits option.splits worker.splits list.splits prod.splits)

lemma v2_step_applied:
  assumes "v2_step f a st = Some st'" "\<nexists>p. a = ApplyHit p"
  shows "v2_applied st' = v2_applied st" "v2_repo st' = v2_repo st"
  using assms
  by (cases a; auto simp: v2_call_def v2_send_def v2_send_timeout_def v2_receive_def v2_await_timeout_def
      worker_take_def worker_reply_def Let_def
      split: if_splits option.splits worker.splits list.splits)+

text \<open>The requests that were answered with hit points, and their damage.\<close>

definition landed :: "'s v2_state \<Rightarrow> string \<Rightarrow> (nat \<times> int result) list" where
  "landed st p = filter (\<lambda>(_, r). \<not> isl r) (v2_applied st p)"

definition landed_damages :: "'s v2_state \<Rightarrow> string \<Rightarrow> int list" where
  "landed_damages st p = map (\<lambda>(i, r). qr_damage (the (v2_calls st i))) (landed st p)"

text \<open>Every call is for one of the players.\<close>

definition targets :: "string set \<Rightarrow> 's v2_state \<Rightarrow> bool" where
  "targets ids st \<longleftrightarrow> (\<forall>i c. v2_calls st i = Some c \<longrightarrow> qr_player c \<in> ids)"

lemma targets_step: "v2_step f a st = Some st' \<Longrightarrow> targets ids st' \<Longrightarrow> targets ids st"
  unfolding targets_def using v2_step_calls by metis

lemma applied_call:
  assumes "v2_inv st" "(i, r) \<in> set (v2_applied st p)"
  shows "\<exists>c. v2_calls st i = Some c \<and> qr_player c = p \<and> damage_ok (qr_damage c)"
  using fifo_sent [OF v2_invD(1) [OF assms(1)] assms(2)] v2_invD(2) [OF assms(1), of p]
  by (auto simp: sent_ok_def)

lemma landed_frame:
  assumes "v2_inv st" "v2_step f a st = Some st'" "v2_applied st' p = v2_applied st p"
  shows "landed_damages st' p = landed_damages st p"
proof -
  have "qr_damage (the (v2_calls st' i)) = qr_damage (the (v2_calls st i))"
    if mem: "(i, r) \<in> set (v2_applied st p)" for i r
  proof -
    obtain c where "v2_calls st i = Some c" using applied_call [OF assms(1) mem] by blast
    with v2_step_calls [OF assms(2) this] show ?thesis by auto
  qed
  with assms(3) show ?thesis by (auto simp: landed_damages_def landed_def)
qed

text \<open>What the worker does, on any repository.\<close>

lemma worker_applyE:
  assumes "v2_inv st" "worker_apply f p st = Some st'"
  obtains i c r repo where "v2_calls st i = Some c" "qr_player c = p" "damage_ok (qr_damage c)"
    "f p (qr_damage c) (v2_repo st) = (r, repo)"
    "st' = st\<lparr>v2_repo := repo, v2_workers := (v2_workers st)(p := WorkerReplying i r),
              v2_applied := (v2_applied st)(p := v2_applied st p @ [(i, r)])\<rparr>"
proof -
  obtain i c r repo where w: "v2_workers st p = WorkerApplying i" "v2_calls st i = Some c"
    and hit: "f (qr_player c) (qr_damage c) (v2_repo st) = (r, repo)"
    and st': "st' = st\<lparr>v2_repo := repo, v2_workers := (v2_workers st)(p := WorkerReplying i r),
                       v2_applied := (v2_applied st)(p := v2_applied st p @ [(i, r)])\<rparr>"
    using assms(2) by (auto simp: worker_apply_def split: worker.splits option.splits prod.splits)
  have "i \<in> set (v2_sent st p)" using v2_invD(1) [OF assms(1), of p] w by (simp add: fifo_def)
  with v2_invD(2) [OF assms(1), of p] w have "qr_player c = p" "damage_ok (qr_damage c)"
    by (auto simp: sent_ok_def)
  with w hit st' that show thesis by blast
qed

text \<open>
  The hit points of \<open>p\<close>, on any repository with the contract: the initial ones minus the damage of the answered
  requests, and the answers are the points left.
\<close>

definition hp_follows :: "int \<Rightarrow> int \<Rightarrow> int result list \<Rightarrow> int list \<Rightarrow> bool" where
  "hp_follows h0 h rs ds \<longleftrightarrow> h = max 0 (h0 - sum_list ds) \<and>
     rs = map (\<lambda>k. Inr (max 0 (h0 - sum_list (take (Suc k) ds)))) [0..<length ds]"

lemma hp_follows_snoc:
  assumes "hp_follows h0 h rs ds" "0 \<le> d"
  shows "hp_follows h0 (max 0 (h - d)) (rs @ [Inr (max 0 (h - d))]) (ds @ [d])"
  using assms max_0_fold [OF assms(2), of h0 "sum_list ds"] by (auto simp: hp_follows_def)

context damage_store
begin

definition store_inv :: "'s \<Rightarrow> 's v2_state \<Rightarrow> bool" where
  "store_inv s0 st \<longleftrightarrow> ok (v2_repo st) \<and>
     (\<forall>p\<in>ids. hp_follows (hp s0 p) (hp (v2_repo st) p) (map snd (landed st p)) (landed_damages st p))"

lemma store_inv_apply:
  assumes inv: "v2_inv st" "store_inv s0 st" "targets ids st" and step: "worker_apply hit p st = Some st'"
  shows "store_inv s0 st'"
  using inv(1) step
proof (rule worker_applyE)
  fix i c r repo
  assume c: "v2_calls st i = Some c" "qr_player c = p" "damage_ok (qr_damage c)"
    and hit: "hit p (qr_damage c) (v2_repo st) = (r, repo)"
    and st': "st' = st\<lparr>v2_repo := repo, v2_workers := (v2_workers st)(p := WorkerReplying i r),
              v2_applied := (v2_applied st)(p := v2_applied st p @ [(i, r)])\<rparr>"
  have ok: "ok (v2_repo st)" "p \<in> ids" using inv(2,3) c(1,2) by (auto simp: store_inv_def targets_def)
  have l: "landed st' q = landed st q @ (if q = p \<and> \<not> isl r then [(i, r)] else [])"
    "landed_damages st' q = landed_damages st q @ (if q = p \<and> \<not> isl r then [qr_damage c] else [])" for q
    using c(1) by (auto simp: landed_def landed_damages_def st')
  have "hp_follows (hp s0 q) (hp repo q) (map snd (landed st' q)) (landed_damages st' q)" if q: "q \<in> ids" for q
  proof -
    have old: "hp_follows (hp s0 q) (hp (v2_repo st) q) (map snd (landed st q)) (landed_damages st q)"
      using inv(2) q by (simp add: store_inv_def)
    show ?thesis
    proof (cases "q = p \<and> \<not> isl r")
      case True
      then obtain h where r: "r = Inr h" by (cases r) auto
      have h: "h = max 0 (hp (v2_repo st) p - qr_damage c)" by (rule hit_answer [OF ok c(3) hit [unfolded r]])
      have "0 \<le> qr_damage c" using c(3) by (simp add: damage_ok_def)
      from hp_follows_snoc [OF old this] True r h hit_hp [OF ok c(3) hit q] show ?thesis by (simp add: l)
    next
      case False
      with hit_hp [OF ok c(3) hit q] old show ?thesis unfolding l if_not_P [OF False] by simp
    qed
  qed
  with hit_ok [OF ok c(3) hit] show ?thesis by (simp add: store_inv_def st')
qed

lemma store_inv_reachable:
  assumes "v2_reachable hit (NewV2UserQueue s0) st" "ok s0" "targets ids st"
  shows "store_inv s0 st"
  using assms
proof (induction rule: v2_reachable.induct)
  case v2_start
  then show ?case
    using hp_nonneg by (simp add: store_inv_def hp_follows_def landed_damages_def landed_def NewV2UserQueue_def)
next
  case (v2_next st a st')
  have inv: "v2_inv st" by (rule v2_inv_reachable [OF v2_next.hyps(1) v2_inv_New])
  have tgt: "targets ids st" by (rule targets_step [OF v2_next.hyps(2) v2_next.prems(2)])
  note IH = v2_next.IH [OF v2_next.prems(1) tgt]
  show ?case
  proof (cases "\<exists>p. a = ApplyHit p")
    case True
    with v2_next.hyps(2) IH inv tgt show ?thesis by (auto dest: store_inv_apply)
  next
    case False
    note same = v2_step_applied [OF v2_next.hyps(2) False]
    have "landed_damages st' = landed_damages st" using landed_frame [OF inv v2_next.hyps(2)] same by (simp add: fun_eq_iff)
    with same have "store_inv s0 st' = store_inv s0 st" by (simp add: store_inv_def landed_def)
    with IH show ?thesis by blast
  qed
qed

end

text \<open>The in-memory repository answers every hit, so all that was applied has landed.\<close>

lemma inmem_all_landed:
  assumes "v2_reachable inmem_ApplyDamageNaive st0 st" "v2_applied st0 = (\<lambda>_. [])"
  shows "landed st p = v2_applied st p"
proof -
  have "list_all (\<lambda>(_, r). \<not> isl r) (v2_applied st q)" for q
    using assms
  proof (induction rule: v2_reachable.induct)
    case (v2_next st a st')
    show ?case
    proof (cases "\<exists>p. a = ApplyHit p")
      case True
      with v2_next show ?thesis
        by (auto simp: worker_apply_def inmem_ApplyDamageNaive_def Let_def split: worker.splits option.splits)
    next
      case False
      with v2_next show ?thesis by (simp add: v2_step_applied(1) [OF v2_next.hyps(2) False])
    qed
  qed simp
  then show ?thesis by (auto simp: landed_def list_all_iff)
qed

lemma inmem_queue_hp:
  assumes "hp_ok r0" "v2_reachable inmem_ApplyDamageNaive (NewV2UserQueue r0) st"
  shows "hp_follows (hp_of r0 p) (hp_of (v2_repo st) p) (map snd (v2_applied st p)) (damages st p)"
proof -
  have "landed st = v2_applied st"
    using inmem_all_landed [OF assms(2)] by (simp add: NewV2UserQueue_def fun_eq_iff)
  moreover from this have "landed_damages st = damages st"
    by (simp add: landed_damages_def damages_def fun_eq_iff)
  ultimately show ?thesis
    using inmem_hp.store_inv_reachable [OF assms(2,1)] by (simp add: inmem_hp.store_inv_def targets_def)
qed

section \<open>The workers make progress\<close>

lemma v2_reachable_trans: "v2_reachable f b c \<Longrightarrow> v2_reachable f a b \<Longrightarrow> v2_reachable f a c"
  by (induction rule: v2_reachable.induct) (auto intro: v2_reachable.intros)

lemma v2_reachable_step: "v2_step f a st = Some st' \<Longrightarrow> v2_reachable f st st'"
  by (auto intro: v2_reachable.intros)

text \<open>A busy worker finishes its request; calls and what was sent stay as they are.\<close>

lemma worker_finishes:
  assumes inv: "v2_inv st"
  shows "\<exists>st'. v2_reachable f st st' \<and> v2_inv st' \<and> v2_workers st' p = WorkerIdle \<and>
    v2_calls st' = v2_calls st \<and> v2_sent st' = v2_sent st \<and> v2_queue st' p = v2_queue st p"
proof (cases "v2_workers st p")
  case WorkerIdle
  with inv show ?thesis by (auto intro: v2_start)
next
  case (WorkerReplying i r)
  then have step: "v2_step f (Reply p) st =
      Some (st\<lparr>v2_resp := (v2_resp st)(i \<mapsto> r), v2_workers := (v2_workers st)(p := WorkerIdle)\<rparr>)"
    by (simp add: worker_reply_def)
  show ?thesis
    by (rule exI, intro conjI, rule v2_reachable_step [OF step], rule v2_inv_step [OF inv step])
      (simp_all add: v2_queue_def)
next
  case (WorkerApplying i)
  then have "i \<in> set (v2_sent st p)" using v2_invD(1) [OF inv, of p] by (simp add: fifo_def)
  then obtain c where c: "v2_calls st i = Some c" using v2_invD(2) [OF inv, of p] by (auto simp: sent_ok_def)
  obtain r repo where hit: "f (qr_player c) (qr_damage c) (v2_repo st) = (r, repo)" by (metis surj_pair)
  let ?st1 = "st\<lparr>v2_repo := repo, v2_workers := (v2_workers st)(p := WorkerReplying i r),
                 v2_applied := (v2_applied st)(p := v2_applied st p @ [(i, r)])\<rparr>"
  have s1: "v2_step f (ApplyHit p) st = Some ?st1" using WorkerApplying c hit by (simp add: worker_apply_def)
  let ?st2 = "?st1\<lparr>v2_resp := (v2_resp ?st1)(i \<mapsto> r), v2_workers := (v2_workers ?st1)(p := WorkerIdle)\<rparr>"
  have s2: "v2_step f (Reply p) ?st1 = Some ?st2" by (simp add: worker_reply_def)
  have "v2_reachable f st ?st2" using v2_reachable_step [OF s1] s2 by (rule v2_next)
  moreover have "v2_inv ?st2" by (rule v2_inv_step [OF v2_inv_step [OF inv s1] s2])
  ultimately show ?thesis by (intro exI [of _ ?st2]) (simp add: v2_queue_def)
qed

lemma queue_drains:
  assumes "v2_inv st"
  shows "\<exists>st'. v2_reachable f st st' \<and> v2_inv st' \<and> v2_calls st' = v2_calls st \<and>
    v2_sent st' = v2_sent st \<and> v2_queue st' p = [] \<and> map fst (v2_applied st' p) = v2_sent st p"
  using assms
proof (induction "length (v2_queue st p)" arbitrary: st)
  case 0
  obtain st' where st': "v2_reachable f st st'" "v2_inv st'" "v2_workers st' p = WorkerIdle"
      "v2_calls st' = v2_calls st" "v2_sent st' = v2_sent st" "v2_queue st' p = v2_queue st p"
    using worker_finishes [OF "0.prems", of f p] by blast
  with "0.hyps" v2_invD(1) [OF st'(2), of p] show ?case
    by (intro exI [of _ st']) (simp add: fifo_def)
next
  case (Suc n)
  obtain st1 where st1: "v2_reachable f st st1" "v2_inv st1" "v2_workers st1 p = WorkerIdle"
      "v2_calls st1 = v2_calls st" "v2_sent st1 = v2_sent st" "v2_queue st1 p = v2_queue st p"
    using worker_finishes [OF Suc.prems, of f p] by blast
  obtain i q where q: "v2_queue st1 p = i # q" using Suc.hyps(2) st1(6) by (cases "v2_queue st p") auto
  let ?st2 = "st1\<lparr>v2_queues := AList.update p q (v2_queues st1),
                  v2_workers := (v2_workers st1)(p := WorkerApplying i)\<rparr>"
  have step: "v2_step f (Take p) st1 = Some ?st2" using st1(3) q by (simp add: worker_take_def)
  have "v2_queue ?st2 p = q" by (simp add: v2_queue_def)
  moreover have "length (v2_queue st p) = Suc (length q)" using st1(6) q by (metis length_Cons)
  ultimately have len: "n = length (v2_queue ?st2 p)" using Suc.hyps(2) by simp
  obtain st' where "v2_reachable f ?st2 st'" "v2_inv st'" "v2_calls st' = v2_calls ?st2"
      "v2_sent st' = v2_sent ?st2" "v2_queue st' p = []" "map fst (v2_applied st' p) = v2_sent ?st2 p"
    using Suc.hyps(1) [OF len v2_inv_step [OF st1(2) step]] by blast
  moreover have "v2_reachable f st ?st2" using st1(1) step by (rule v2_next)
  ultimately show ?case using st1 by (intro exI [of _ st']) (auto intro: v2_reachable_trans)
qed

section \<open>Properties\<close>

text \<open>
  C2: the queue serialises and loses nothing. In every reachable state, under every interleaving of
  callers, workers and expiring contexts, and for every player: the channel holds at most 64
  requests; the requests that were sent are, in the order of sending and without repetition, those
  already applied, at most one in the worker's hands, and those in the channel; and the stored hit
  points are the initial ones minus the damage of the applied requests, but not below zero, where the
  k-th applied request was answered with the points left after the first k.
\<close>

theorem queue_serialises:
  assumes "hp_ok r0" "v2_reachable inmem_ApplyDamageNaive (NewV2UserQueue r0) st"
  shows "length (v2_queue st p) \<le> 64
    \<and> v2_sent st p = map fst (v2_applied st p) @ inflight (v2_workers st p) @ v2_queue st p
    \<and> distinct (v2_sent st p)
    \<and> hp_of (v2_repo st) p = max 0 (hp_of r0 p - sum_list (damages st p))
    \<and> map snd (v2_applied st p) =
        map (\<lambda>k. Inr (max 0 (hp_of r0 p - sum_list (take (Suc k) (damages st p))))) [0..<length (damages st p)]"
proof -
  have inv: "v2_inv st" by (rule v2_inv_reachable [OF assms(2) v2_inv_New])
  show ?thesis
    using v2_invD(1,2,3) [OF inv, of p] inmem_queue_hp [OF assms, of p]
    unfolding fifo_def sent_ok_def worker_ok_def hp_follows_def QueueCapacity_def by blast
qed

text \<open>A run of given steps; \<open>None\<close> when one of them is not possible.\<close>

fun v2_run ::
  "(string \<Rightarrow> int \<Rightarrow> 's \<Rightarrow> int result \<times> 's) \<Rightarrow> action list \<Rightarrow> 's v2_state \<Rightarrow> 's v2_state option" where
  "v2_run f [] st = Some st"
| "v2_run f (a # as) st = (case v2_step f a st of None \<Rightarrow> None | Some st' \<Rightarrow> v2_run f as st')"

lemma v2_run_append: "v2_run f (as @ bs) st = Option.bind (v2_run f as st) (v2_run f bs)"
  by (induction f as st rule: v2_run.induct) (auto split: option.splits)

lemma v2_run_reachable: "v2_run f as st = Some st' \<Longrightarrow> v2_reachable f st st'"
proof (induction f as st rule: v2_run.induct)
  case (1 f st)
  then show ?case by (simp add: v2_start)
next
  case (2 f a as st)
  then obtain st1 where "v2_step f a st = Some st1" "v2_reachable f st1 st'"
    by (auto split: option.splits)
  then show ?case by (blast intro: v2_reachable_trans v2_reachable_step)
qed

theorem queue_serialises_witness:
  "\<exists>st. v2_run inmem_ApplyDamageNaive
      [Call 1 ''p'' 3000, Call 2 ''p'' 8000, Send 2, Send 1, Take ''p'', ApplyHit ''p'', Reply ''p'', Receive 2,
       Take ''p'', ApplyHit ''p''] (NewV2UserQueue NewBattleRepo) = Some st
    \<and> v2_sent st ''p'' = [2, 1] \<and> damages st ''p'' = [8000, 3000]
    \<and> hp_of (v2_repo st) ''p'' = 0 \<and> map snd (v2_applied st ''p'') = [Inr 2000, Inr 0]"
proof -
  let ?as = "[Call 1 ''p'' 3000, Call 2 ''p'' 8000, Send 2, Send 1, Take ''p'', ApplyHit ''p'', Reply ''p'', Receive 2,
       Take ''p'', ApplyHit ''p'']"
  obtain st where run: "v2_run inmem_ApplyDamageNaive ?as (NewV2UserQueue NewBattleRepo) = Some st"
      "v2_sent st ''p'' = [2, 1]" "damages st ''p'' = [8000, 3000]"
    by (simp add: NewV2UserQueue_def v2_defs NewBattleRepo_def battle_consts QueueCapacity_def Let_def
        inmem_ApplyDamageNaive_def int64_small damages_def)
  from queue_serialises [OF hp_of_New(2) v2_run_reachable [OF run(1)], of "''p''"] run show ?thesis by simp
qed

text \<open>
  What the caller is told. In every reachable state a call that was answered with a number had a
  damage between 1 and 100000 and was applied exactly once, and the number is the points left after
  it.
\<close>

theorem queue_answers:
  assumes "hp_ok r0" "v2_reachable inmem_ApplyDamageNaive (NewV2UserQueue r0) st"
    and "v2_calls st i = Some c" "qr_phase c = Returned (Inr hp)"
  shows "\<exists>k < length (v2_applied st (qr_player c)). v2_applied st (qr_player c) ! k = (i, Inr hp)
    \<and> hp = max 0 (hp_of r0 (qr_player c) - sum_list (take (Suc k) (damages st (qr_player c))))
    \<and> damages st (qr_player c) ! k = qr_damage c \<and> damage_ok (qr_damage c)
    \<and> distinct (map fst (v2_applied st (qr_player c)))"
proof -
  let ?p = "qr_player c"
  have inv: "v2_inv st" by (rule v2_inv_reachable [OF assms(2) v2_inv_New])
  have mem: "(i, Inr hp) \<in> set (v2_applied st ?p)"
    using v2_invD(4) [OF inv assms(3)] assms(4) by (simp add: call_ok_def)
  then obtain k where k: "k < length (v2_applied st ?p)" "v2_applied st ?p ! k = (i, Inr hp)"
    by (metis in_set_conv_nth)
  have len: "length (damages st ?p) = length (v2_applied st ?p)" by (simp add: damages_def)
  have "map snd (v2_applied st ?p) ! k = Inr (max 0 (hp_of r0 ?p - sum_list (take (Suc k) (damages st ?p))))"
    using inmem_queue_hp [OF assms(1,2), of ?p] k(1) len unfolding hp_follows_def by (metis (no_types, lifting)
        add_0 length_upt minus_nat.diff_0 nth_map nth_upt)
  with k have "hp = max 0 (hp_of r0 ?p - sum_list (take (Suc k) (damages st ?p)))" by simp
  moreover have "damages st ?p ! k = qr_damage c" using k assms(3) by (simp add: damages_def)
  moreover have "damage_ok (qr_damage c)"
    using fifo_sent [OF v2_invD(1) [OF inv] mem] v2_invD(2) [OF inv, of ?p] assms(3) by (auto simp: sent_ok_def)
  moreover have "distinct (map fst (v2_applied st ?p))"
    using v2_invD(1,2) [OF inv, of ?p] by (simp add: fifo_def sent_ok_def)
  ultimately show ?thesis using k by blast
qed

theorem queue_answers_witness:
  "\<exists>st c. v2_run inmem_ApplyDamageNaive
      [Call 1 ''p'' 3000, Send 1, Take ''p'', ApplyHit ''p'', Reply ''p'', Receive 1]
      (NewV2UserQueue NewBattleRepo) = Some st
    \<and> v2_calls st 1 = Some c \<and> qr_phase c = Returned (Inr 7000)
    \<and> (\<exists>k. v2_applied st ''p'' ! k = (1, Inr 7000) \<and> damages st ''p'' ! k = 3000)"
proof -
  let ?as = "[Call 1 ''p'' 3000, Send 1, Take ''p'', ApplyHit ''p'', Reply ''p'', Receive 1]"
  let ?c = "\<lparr>qr_player = ''p'', qr_damage = 3000, qr_phase = Returned (Inr 7000)\<rparr>"
  obtain st where run: "v2_run inmem_ApplyDamageNaive ?as (NewV2UserQueue NewBattleRepo) = Some st"
      "v2_calls st 1 = Some ?c"
    by (simp add: NewV2UserQueue_def v2_defs NewBattleRepo_def battle_consts QueueCapacity_def Let_def
        inmem_ApplyDamageNaive_def int64_small)
  from queue_answers [OF hp_of_New(2) v2_run_reachable [OF run(1)] run(2)] run show ?thesis by auto
qed



section \<open>Termination of the worker\<close>

definition worker_actions :: "string \<Rightarrow> action set" where
  "worker_actions p = {Take p, ApplyHit p, Reply p}"

text \<open>The steps the worker of a player still has to take: three for each queued request.\<close>

definition backlog :: "'s v2_state \<Rightarrow> string \<Rightarrow> nat" where
  "backlog st p = 3 * length (v2_queue st p) +
     (case v2_workers st p of WorkerIdle \<Rightarrow> 0 | WorkerApplying _ \<Rightarrow> 2 | WorkerReplying _ _ \<Rightarrow> 1)"

text \<open>Every step of the worker is one step less, and as long as some are left one is possible.\<close>

lemma backlog_step:
  "v2_step f a st = Some st' \<Longrightarrow> a \<in> worker_actions p \<Longrightarrow> backlog st p = Suc (backlog st' p)"
  by (auto simp: worker_actions_def backlog_def worker_take_def worker_apply_def worker_reply_def
      v2_queue_def split: worker.splits list.splits option.splits prod.splits)

lemma worker_step_calls:
  "v2_step f a st = Some st' \<Longrightarrow> a \<in> worker_actions p \<Longrightarrow> v2_calls st' = v2_calls st \<and> v2_sent st' = v2_sent st"
  by (auto simp: worker_actions_def worker_take_def worker_apply_def worker_reply_def
      split: worker.splits list.splits option.splits prod.splits)

lemma worker_not_stuck:
  assumes inv: "v2_inv st" and busy: "backlog st p > 0"
  shows "\<exists>a\<in>worker_actions p. \<exists>st'. v2_step f a st = Some st'"
proof (cases "v2_workers st p")
  case WorkerIdle
  with busy obtain i q where "v2_queue st p = i # q" by (cases "v2_queue st p") (auto simp: backlog_def)
  with WorkerIdle show ?thesis by (simp add: worker_actions_def worker_take_def)
next
  case (WorkerApplying i)
  then have "i \<in> set (v2_sent st p)" using v2_invD(1) [OF inv, of p] by (simp add: fifo_def)
  then obtain c where "v2_calls st i = Some c" using v2_invD(2) [OF inv, of p] by (auto simp: sent_ok_def)
  with WorkerApplying show ?thesis by (simp add: worker_actions_def worker_apply_def split: prod.splits)
next
  case (WorkerReplying i r)
  then show ?thesis by (simp add: worker_actions_def worker_reply_def)
qed

lemma backlog_0: "backlog st p = 0 \<longleftrightarrow> v2_queue st p = [] \<and> v2_workers st p = WorkerIdle"
  by (auto simp: backlog_def split: worker.splits)

lemma backlog_run:
  "v2_run f as st = Some st' \<Longrightarrow> set as \<subseteq> worker_actions p \<Longrightarrow>
     backlog st p = length as + backlog st' p \<and> v2_sent st' = v2_sent st"
  by (induction f as st rule: v2_run.induct)
    (auto split: option.splits dest: backlog_step worker_step_calls)

text \<open>
  C18: the worker terminates on what it was given. From every reachable state, the worker of a player
  scheduled alone takes a bounded number of steps, three for each queued request and those that
  complete the one in its hands, whatever the repository answers: a sequence of its steps is never
  longer than that, is never stuck before, and when it has that length the queue is empty, the worker
  waits and every request ever sent for the player has been applied, in the order of sending.
\<close>

theorem worker_terminates:
  assumes "v2_reachable f (NewV2UserQueue r0) st" "v2_run f as st = Some st'" "set as \<subseteq> worker_actions p"
  shows "length as \<le> backlog st p
    \<and> (length as < backlog st p \<longrightarrow> (\<exists>a\<in>worker_actions p. v2_run f (as @ [a]) st \<noteq> None))
    \<and> (length as = backlog st p \<longrightarrow> v2_queue st' p = [] \<and> v2_workers st' p = WorkerIdle
         \<and> map fst (v2_applied st' p) = v2_sent st p)"
proof -
  have inv: "v2_inv st'"
    by (rule v2_inv_reachable [OF v2_reachable_trans [OF v2_run_reachable [OF assms(2)] assms(1)] v2_inv_New])
  note run = backlog_run [OF assms(2,3)]
  have "\<exists>a\<in>worker_actions p. v2_run f (as @ [a]) st \<noteq> None" if "length as < backlog st p"
  proof -
    from that run have "backlog st' p > 0" by linarith
    from worker_not_stuck [OF inv this, of f] obtain a st2
      where "a \<in> worker_actions p" "v2_step f a st' = Some st2" by blast
    with assms(2) show ?thesis by (intro bexI [of _ a]) (simp_all add: v2_run_append)
  qed
  moreover have "v2_queue st' p = [] \<and> v2_workers st' p = WorkerIdle \<and> map fst (v2_applied st' p) = v2_sent st p"
    if "length as = backlog st p"
    using that run v2_invD(1) [OF inv, of p] by (simp add: fifo_def backlog_0)
  ultimately show ?thesis using run by simp
qed

theorem worker_terminates_witness:
  "\<exists>st st'. v2_run inmem_ApplyDamageNaive [Call 1 ''p'' 3000, Send 1] (NewV2UserQueue NewBattleRepo) = Some st
    \<and> backlog st ''p'' = 3
    \<and> v2_run inmem_ApplyDamageNaive [Take ''p'', ApplyHit ''p'', Reply ''p''] st = Some st'
    \<and> v2_queue st' ''p'' = [] \<and> v2_workers st' ''p'' = WorkerIdle \<and> map fst (v2_applied st' ''p'') = [1]"
proof -
  let ?as = "[Take ''p'', ApplyHit ''p'', Reply ''p'']"
  obtain st where run: "v2_run inmem_ApplyDamageNaive [Call 1 ''p'' 3000, Send 1] (NewV2UserQueue NewBattleRepo) = Some st"
      "backlog st ''p'' = 3" "v2_sent st ''p'' = [1]" "v2_run inmem_ApplyDamageNaive ?as st \<noteq> None"
    by (simp add: NewV2UserQueue_def v2_defs NewBattleRepo_def battle_consts QueueCapacity_def Let_def
        inmem_ApplyDamageNaive_def int64_small backlog_def)
  then obtain st' where st': "v2_run inmem_ApplyDamageNaive ?as st = Some st'" by blast
  have "set ?as \<subseteq> worker_actions ''p''" by (simp add: worker_actions_def)
  from worker_terminates [OF v2_run_reachable [OF run(1)] st' this] run st' show ?thesis by auto
qed

end
