(* ===== verification/Idempotency.thy ===== *)
theory Idempotency
  imports Go_World Go_Http
begin

text \<open>
  Idempotency keys: the in-memory store \<open>internal/idempotency/inmem.go\<close> and the middleware
  \<open>endpoint/idempotency.go\<close> with its recording writer. A response body is the list of the chunks that
  were written; a replay writes them in one go. The middleware is a function from handlers to
  handlers over the \<open>Store\<close> interface; its lemmas are proved once in the locale \<open>idem_frame\<close>.
\<close>

section \<open>Store interface and in-memory store\<close>

record idem_entry =
  ie_Status :: nat
  ie_Body :: "chunk list"

text \<open>\<open>Get\<close> answers \<open>Some\<close> for a hit and \<open>None\<close> for a miss.\<close>

record 's idem_store =
  is_Get :: "string \<Rightarrow> 's \<Rightarrow> idem_entry option result \<times> 's"
  is_Set :: "string \<Rightarrow> idem_entry \<Rightarrow> 's \<Rightarrow> unit result \<times> 's"

record InmemStore =
  im_entries :: "(string, idem_entry \<times> int) gomap"
  im_ttl :: int

definition NewInmemStore :: "int \<Rightarrow> InmemStore" where
  "NewInmemStore ttl =
     (let ttl = (if ttl \<le> 0 then 300000000000 else ttl) in \<lparr>im_entries = [], im_ttl = ttl\<rparr>)"

definition InmemStore_Get ::
  "('s, InmemStore) field \<Rightarrow> ('s \<Rightarrow> int \<times> 's) \<Rightarrow> string \<Rightarrow> 's \<Rightarrow> idem_entry option result \<times> 's" where
  "InmemStore_Get f now key s =
     (case map_of (im_entries (fget f s)) key of
        None \<Rightarrow> (Inr None, s)
      | Some (entry, expiresAt) \<Rightarrow>
          (let (t, s) = now s
           in if t > expiresAt
              then (Inr None, fput f ((fget f s)\<lparr>im_entries := AList.delete key (im_entries (fget f s))\<rparr>) s)
              else (Inr (Some entry), s)))"

definition InmemStore_put ::
  "('s, InmemStore) field \<Rightarrow> ('s \<Rightarrow> int \<times> 's) \<Rightarrow> string \<Rightarrow> idem_entry \<Rightarrow> 's \<Rightarrow> unit result \<times> 's" where
  "InmemStore_put f now key entry s =
     (let (t, s) = now s; m = fget f s
      in (Inr (), fput f (m\<lparr>im_entries := AList.update key (entry, t + im_ttl m) (im_entries m)\<rparr>) s))"

definition InmemStore_Set ::
  "('s, InmemStore) field \<Rightarrow> ('s \<Rightarrow> int \<times> 's) \<Rightarrow> string \<Rightarrow> idem_entry \<Rightarrow> 's \<Rightarrow> unit result \<times> 's" where
  "InmemStore_Set f now key entry s =
     (case map_of (im_entries (fget f s)) key of
        Some (_, expiresAt) \<Rightarrow>
          (let (t, s) = now s
           in if t < expiresAt then (Inr (), s) else InmemStore_put f now key entry s)
      | None \<Rightarrow> InmemStore_put f now key entry s)"

definition InmemStore_Sweep :: "int \<Rightarrow> InmemStore \<Rightarrow> int \<times> InmemStore" where
  "InmemStore_Sweep now m =
     (int (length (filter (\<lambda>(k, entry, expiresAt). now > expiresAt) (im_entries m))),
      m\<lparr>im_entries := filter (\<lambda>(k, entry, expiresAt). \<not> now > expiresAt) (im_entries m)\<rparr>)"

definition inmem_idem_store :: "('s, InmemStore) field \<Rightarrow> ('s \<Rightarrow> int \<times> 's) \<Rightarrow> 's idem_store" where
  "inmem_idem_store f now = \<lparr>is_Get = InmemStore_Get f now, is_Set = InmemStore_Set f now\<rparr>"

section \<open>The recording writer\<close>

record recordedWriter =
  rec_body :: "chunk list"
  rec_status :: nat
  rec_wrote :: bool

definition new_recorder :: recordedWriter where
  "new_recorder = \<lparr>rec_body = [], rec_status = 200, rec_wrote = False\<rparr>"

text \<open>A call on the recorder: the calls it passes on to the wrapped writer, and its new state.\<close>

definition rec_WriteHeader :: "nat \<Rightarrow> recordedWriter \<Rightarrow> rw_op list \<times> recordedWriter" where
  "rec_WriteHeader code w =
     (if rec_wrote w then ([], w)
      else ([WriteHeader code], w\<lparr>rec_status := code, rec_wrote := True\<rparr>))"

definition rec_Write :: "chunk \<Rightarrow> recordedWriter \<Rightarrow> rw_op list \<times> recordedWriter" where
  "rec_Write b w =
     (let (ops, w) = (if \<not> rec_wrote w then rec_WriteHeader 200 w else ([], w))
      in (ops @ [Write b], w\<lparr>rec_body := rec_body w @ [b]\<rparr>))"

fun rec_call :: "rw_op \<Rightarrow> recordedWriter \<Rightarrow> rw_op list \<times> recordedWriter" where
  "rec_call (HeaderSet k v) w = ([HeaderSet k v], w)"
| "rec_call (WriteHeader code) w = rec_WriteHeader code w"
| "rec_call (Write b) w = rec_Write b w"

fun rec_run :: "rw_op list \<Rightarrow> recordedWriter \<Rightarrow> rw_op list \<times> recordedWriter" where
  "rec_run [] w = ([], w)"
| "rec_run (x # xs) w = (let (ops, w) = rec_call x w; (ops', w) = rec_run xs w in (ops @ ops', w))"

section \<open>The middleware\<close>

definition scopedIdempotencyKey :: "auth_ctx \<Rightarrow> string \<Rightarrow> string" where
  "scopedIdempotencyKey ctx key =
     (let (player, ok) = PlayerIDFrom ctx
      in if ok \<and> player \<noteq> '''' then player @ '':'' @ key else ''anon:'' @ key)"

definition idem_replay :: "idem_entry \<Rightarrow> rw_op list" where
  "idem_replay entry =
     HeaderSet ''Idempotency-Replayed'' ''true'' # WriteHeader (ie_Status entry) # map Write (ie_Body entry)"

text \<open>Run the handler on the recorder and store what was recorded; a failing store is logged.\<close>

definition idem_execute :: "'s idem_store \<Rightarrow> 's handler \<Rightarrow> string \<Rightarrow> 's handler" where
  "idem_execute store next scoped r s =
     (let (ops, s) = next r s; (ops, rec') = rec_run ops new_recorder;
          (_, s) = is_Set store scoped \<lparr>ie_Status = rec_status rec', ie_Body = rec_body rec'\<rparr> s
      in (ops, s))"

definition Idempotency :: "'s idem_store option \<Rightarrow> 's handler \<Rightarrow> 's handler" where
  "Idempotency store next r s =
     (case store of
        None \<Rightarrow> next r s
      | Some store \<Rightarrow>
          (let key = rq_Header r ''Idempotency-Key''
           in if key = '''' \<or> rq_Method r = ''GET'' \<or> rq_Method r = ''HEAD'' then next r s
              else let scoped = scopedIdempotencyKey (rq_Auth r) key
                   in case is_Get store scoped s of
                        (Inl err, s) \<Rightarrow> idem_execute store next scoped r s
                      | (Inr (Some entry), s) \<Rightarrow> (idem_replay entry, s)
                      | (Inr None, s) \<Rightarrow> idem_execute store next scoped r s))"

section \<open>The recorder is transparent\<close>

text \<open>The recorder agrees with the writer it wraps on whether the header went out.\<close>

lemma rec_call_sim:
  assumes "rec_wrote c \<longleftrightarrow> rw_sent w \<noteq> None" "rec_call x c = (ops, c')"
  shows "rw_run ops w = rw_step x w \<and> (rec_wrote c' \<longleftrightarrow> rw_sent (rw_step x w) \<noteq> None)"
  using assms
  by (cases x) (auto simp: rec_WriteHeader_def rec_Write_def split: if_splits option.splits)

lemma rec_run_sim:
  assumes "rec_wrote c \<longleftrightarrow> rw_sent w \<noteq> None" "rec_run xs c = (ops, c')"
  shows "rw_run ops w = rw_run xs w"
  using assms
proof (induction xs arbitrary: c w ops)
  case Nil
  then show ?case by simp
next
  case (Cons x xs)
  obtain ops1 c1 where one: "rec_call x c = (ops1, c1)" by (metis surj_pair)
  obtain ops2 where two: "rec_run xs c1 = (ops2, c')" "ops = ops1 @ ops2"
    using Cons.prems(2) one by (auto split: prod.splits)
  from rec_call_sim [OF Cons.prems(1) one] Cons.IH [OF _ two(1), of "rw_step x w"] two(2)
  show ?case by auto
qed

lemma recorder_transparent: "response_of (fst (rec_run ops new_recorder)) = response_of ops"
proof -
  obtain ops' c where run: "rec_run ops new_recorder = (ops', c)" by (metis surj_pair)
  have "rw_run ops' new_rw = rw_run ops new_rw"
    by (rule rec_run_sim [OF _ run]) (simp add: new_recorder_def new_rw_def)
  then show ?thesis by (simp add: run response_of_def)
qed

text \<open>What was recorded is the status and the body of the response.\<close>

lemma rec_run_records:
  assumes "rec_wrote c \<longleftrightarrow> rw_sent w \<noteq> None" "rec_run xs c = (ops, c')"
    and "rec_body c = rw_out w" "\<forall>st h. rw_sent w = Some (st, h) \<longrightarrow> rec_status c = st"
    and "\<not> rec_wrote c \<longrightarrow> rec_status c = 200"
  shows "rec_status c' = rsp_Status (rw_finish (rw_run xs w)) \<and> rec_body c' = rsp_Body (rw_finish (rw_run xs w))"
  using assms
proof (induction xs arbitrary: c w ops)
  case Nil
  then show ?case by (auto simp: rw_finish_def split: option.splits)
next
  case (Cons x xs)
  obtain ops1 c1 where one: "rec_call x c = (ops1, c1)" by (metis surj_pair)
  obtain ops2 where two: "rec_run xs c1 = (ops2, c')" "ops = ops1 @ ops2"
    using Cons.prems(2) one by (auto split: prod.splits)
  have "rec_body c1 = rw_out (rw_step x w)"
    "\<forall>st h. rw_sent (rw_step x w) = Some (st, h) \<longrightarrow> rec_status c1 = st"
    "\<not> rec_wrote c1 \<longrightarrow> rec_status c1 = 200"
    using one Cons.prems
    by (cases x; auto simp: rec_WriteHeader_def rec_Write_def split: if_splits option.splits)+
  with rec_call_sim [OF Cons.prems(1) one] Cons.IH [OF _ two(1), of "rw_step x w"] two(2)
  show ?case by auto
qed

lemma recorder_records:
  "snd (rec_run ops new_recorder) = c \<Longrightarrow>
     rec_status c = rsp_Status (response_of ops) \<and> rec_body c = rsp_Body (response_of ops)"
  unfolding response_of_def
  by (rule rec_run_records [of new_recorder]) (auto simp: new_recorder_def new_rw_def prod_eq_iff)

lemma rw_run_writes: "rw_sent w = Some x \<Longrightarrow> rw_run (map Write bs) w = w\<lparr>rw_out := rw_out w @ bs\<rparr>"
  by (induction bs arbitrary: w) auto

lemma response_of_replay:
  "response_of (idem_replay entry) =
     \<lparr>rsp_Status = ie_Status entry, rsp_Header = [(''Idempotency-Replayed'', ''true'')],
      rsp_Body = ie_Body entry\<rparr>"
  by (simp add: idem_replay_def rw_defs rw_run_writes)

section \<open>The middleware over any store\<close>

text \<open>A store whose operations leave the rest of the state, \<open>app\<close>, alone.\<close>

locale idem_frame =
  fixes store :: "'s idem_store" and app :: "'s \<Rightarrow> 'a"
  assumes Get_frame: "is_Get store k s = (r, s') \<Longrightarrow> app s' = app s"
    and Set_frame: "is_Set store k x s = (u, s') \<Longrightarrow> app s' = app s"
begin

lemma passes_through:
  assumes "rq_Header r ''Idempotency-Key'' = '''' \<or> rq_Method r \<in> {''GET'', ''HEAD''}"
  shows "Idempotency (Some store) h r s = h r s"
  using assms by (auto simp: Idempotency_def Let_def)

lemma execute_app:
  assumes "idem_execute store h k r s = (ops, s')"
  shows "response_of ops = response_of (fst (h r s)) \<and> app s' = app (snd (h r s))"
proof -
  obtain ops1 s1 where h: "h r s = (ops1, s1)" by (metis surj_pair)
  have "ops = fst (rec_run ops1 new_recorder)" and s': "app s' = app s1"
    using assms h Set_frame by (auto simp: idem_execute_def split: prod.splits)
  then show ?thesis by (simp add: h recorder_transparent)
qed

text \<open>A request is either replayed, leaving the application untouched, or handled once.\<close>

lemma replayed_or_handled:
  assumes "Idempotency (Some store) h r s = (ops, s')"
  shows "(\<exists>entry. ops = idem_replay entry \<and> app s' = app s) \<or>
    (\<exists>s1. app s1 = app s \<and> response_of ops = response_of (fst (h r s1)) \<and> app s' = app (snd (h r s1)))"
proof (cases "rq_Header r ''Idempotency-Key'' = '''' \<or> rq_Method r \<in> {''GET'', ''HEAD''}")
  case True
  from passes_through [OF this] assms show ?thesis by auto
next
  case False
  let ?k = "scopedIdempotencyKey (rq_Auth r) (rq_Header r ''Idempotency-Key'')"
  obtain g s1 where g: "is_Get store ?k s = (g, s1)" by (metis surj_pair)
  have app: "app s1 = app s" using g by (rule Get_frame)
  show ?thesis
  proof (cases "\<exists>entry. g = Inr (Some entry)")
    case True
    with False g assms app show ?thesis by (auto simp: Idempotency_def)
  next
    case miss: False
    have "idem_execute store h ?k r s1 = (ops, s')"
      using False g assms miss by (auto simp: Idempotency_def Let_def split: sum.splits option.splits)
    from execute_app [OF this] app show ?thesis by blast
  qed
qed

end

section \<open>The in-memory store\<close>

record 'a idem_world =
  iw_app :: 'a
  iw_store :: InmemStore
  iw_env :: env

definition at_store :: "('a idem_world, InmemStore) field" where
  "at_store = \<lparr>fget = iw_store, fput = (\<lambda>a s. s\<lparr>iw_store := a\<rparr>)\<rparr>"

definition idem_now :: "'a idem_world \<Rightarrow> int \<times> 'a idem_world" where
  "idem_now s = (env_clock (iw_env s) (env_pos (iw_env s)), s\<lparr>iw_env := env_tick (iw_env s)\<rparr>)"

definition clock_at :: "'a idem_world \<Rightarrow> int" where
  "clock_at s = env_clock (iw_env s) (env_pos (iw_env s))"

abbreviation inmem_store :: "'a idem_world idem_store" where
  "inmem_store \<equiv> inmem_idem_store at_store idem_now"

lemma idem_world_simps [simp]:
  "fget at_store = iw_store" "fput at_store m s = s\<lparr>iw_store := m\<rparr>"
  "idem_now s = (clock_at s, s\<lparr>iw_env := env_tick (iw_env s)\<rparr>)"
  by (simp_all add: at_store_def idem_now_def clock_at_def)

interpretation inmem_idem: idem_frame "inmem_idem_store at_store idem_now" iw_app
  by unfold_locales
    (auto simp: inmem_idem_store_def InmemStore_Get_def InmemStore_Set_def InmemStore_put_def Let_def
      split: option.splits if_splits)

text \<open>What a lookup finds at the clock's current reading.\<close>

definition live :: "'a idem_world \<Rightarrow> string \<Rightarrow> idem_entry option" where
  "live s k = (case map_of (im_entries (iw_store s)) k of
     None \<Rightarrow> None | Some (entry, t) \<Rightarrow> if clock_at s > t then None else Some entry)"

lemma inmem_Get_live:
  "\<exists>s'. is_Get inmem_store k s = (Inr (live s k), s') \<and> iw_app s' = iw_app s \<and>
     (\<forall>k'. k' \<noteq> k \<longrightarrow> map_of (im_entries (iw_store s')) k' = map_of (im_entries (iw_store s)) k') \<and>
     im_ttl (iw_store s') = im_ttl (iw_store s) \<and> (live s k = None \<longrightarrow> map_of (im_entries (iw_store s')) k = None)"
  by (auto simp: inmem_idem_store_def InmemStore_Get_def live_def delete_conv' split: option.splits)

lemma inmem_Set_absent:
  assumes "map_of (im_entries (iw_store s)) k = None"
  shows "is_Set inmem_store k x s = (Inr (), s\<lparr>iw_env := env_tick (iw_env s),
    iw_store := (iw_store s)\<lparr>im_entries := AList.update k (x, clock_at s + im_ttl (iw_store s)) (im_entries (iw_store s))\<rparr>\<rparr>)"
  using assms by (simp add: inmem_idem_store_def InmemStore_Set_def InmemStore_put_def Let_def)

text \<open>A request that the middleware acts on, with its scoped key.\<close>

definition keyed :: "request \<Rightarrow> string \<Rightarrow> bool" where
  "keyed r k \<longleftrightarrow> rq_Header r ''Idempotency-Key'' \<noteq> '''' \<and> rq_Method r \<noteq> ''GET'' \<and> rq_Method r \<noteq> ''HEAD'' \<and>
     scopedIdempotencyKey (rq_Auth r) (rq_Header r ''Idempotency-Key'') = k"

lemma Idempotency_keyed:
  "keyed r k \<Longrightarrow> Idempotency (Some store) h r s =
     (case is_Get store k s of
        (Inl err, s) \<Rightarrow> idem_execute store h k r s
      | (Inr (Some entry), s) \<Rightarrow> (idem_replay entry, s)
      | (Inr None, s) \<Rightarrow> idem_execute store h k r s)"
  by (auto simp: Idempotency_def keyed_def Let_def)

lemma inmem_execute_fresh:
  assumes "h r s = (ops, sh)" "iw_store sh = iw_store s" "map_of (im_entries (iw_store s)) k = None"
  shows "\<exists>ops' s1. idem_execute inmem_store h k r s = (ops', s1) \<and> response_of ops' = response_of ops \<and>
    iw_app s1 = iw_app sh \<and> iw_env s1 = env_tick (iw_env sh) \<and>
    iw_store s1 = (iw_store s)\<lparr>im_entries := AList.update k
      (\<lparr>ie_Status = rsp_Status (response_of ops), ie_Body = rsp_Body (response_of ops)\<rparr>,
       clock_at sh + im_ttl (iw_store s)) (im_entries (iw_store s))\<rparr>"
proof -
  obtain ops' c where rec': "rec_run ops new_recorder = (ops', c)" by (metis surj_pair)
  have c: "rec_status c = rsp_Status (response_of ops)" "rec_body c = rsp_Body (response_of ops)"
    using recorder_records [of ops c] rec' by simp_all
  have tr: "response_of ops' = response_of ops" using recorder_transparent [of ops] rec' by simp
  have absent: "map_of (im_entries (iw_store sh)) k = None" using assms by simp
  show ?thesis
    using inmem_Set_absent [OF absent] assms rec' c tr by (auto simp: idem_execute_def)
qed

section \<open>Properties\<close>

text \<open>
  C7: replay, on the in-memory store. A keyed write request whose key is not in the store is handled
  once, and its client receives exactly the handler's response. From then on, until the lifetime that
  starts when the handler has returned is over, every keyed request with the same scoped key, on
  whatever handler, is answered with the status and the body of that response and the header
  \<open>Idempotency-Replayed: true\<close>, without running a handler: the application's state is not touched.
\<close>

theorem idempotent_replay:
  assumes "keyed r k" "map_of (im_entries (iw_store s)) k = None"
    and "h r s = (ops, sh)" "iw_store sh = iw_store s"
    and "Idempotency (Some inmem_store) h r s = (ops1, s1)"
    and "keyed r2 k" "iw_store s2 = iw_store s1" "clock_at s2 \<le> clock_at sh + im_ttl (iw_store s)"
    and "Idempotency (Some inmem_store) h2 r2 s2 = (ops2, s3)"
  shows "response_of ops1 = response_of ops \<and> iw_app s1 = iw_app sh
    \<and> response_of ops2 = \<lparr>rsp_Status = rsp_Status (response_of ops),
        rsp_Header = [(''Idempotency-Replayed'', ''true'')], rsp_Body = rsp_Body (response_of ops)\<rparr>
    \<and> iw_app s3 = iw_app s2"
proof -
  have "is_Get inmem_store k s = (Inr None, s)"
    using assms(2) by (simp add: inmem_idem_store_def InmemStore_Get_def)
  with assms(1,5) have "idem_execute inmem_store h k r s = (ops1, s1)" by (simp add: Idempotency_keyed)
  with inmem_execute_fresh [of h r s ops sh k] assms(2-4)
  have one: "response_of ops1 = response_of ops" "iw_app s1 = iw_app sh"
    and entry: "map_of (im_entries (iw_store s1)) k =
      Some (\<lparr>ie_Status = rsp_Status (response_of ops), ie_Body = rsp_Body (response_of ops)\<rparr>,
        clock_at sh + im_ttl (iw_store s))"
    by auto
  have "live s2 k = Some \<lparr>ie_Status = rsp_Status (response_of ops), ie_Body = rsp_Body (response_of ops)\<rparr>"
    using entry assms(7,8) by (simp add: live_def)
  with inmem_Get_live [of k s2] assms(6,9) one show ?thesis
    by (auto simp: Idempotency_keyed response_of_replay)
qed

theorem idempotent_replay_witness:
  "let h = (\<lambda>r s. (writeJSON (JInt (iw_app s)), s\<lparr>iw_app := iw_app s + 1\<rparr>));
       e = \<lparr>env_rng = (\<lambda>_. 0), env_uuid = (\<lambda>_. Inr ''u''), env_clock = (\<lambda>_. 50), env_pos = 0\<rparr>;
       r = \<lparr>rq_Method = ''POST'', rq_Header = (\<lambda>_. ''k1''), rq_Query = (\<lambda>_. ''''), rq_Param = (\<lambda>_. ''''),
            rq_RemoteAddr = '''', rq_Body = None, rq_BodyErr = '''', rq_Auth = None\<rparr>;
       (ops1, s1) = Idempotency (Some inmem_store) h r \<lparr>iw_app = 0, iw_store = NewInmemStore 0, iw_env = e\<rparr>;
       (ops2, s2) = Idempotency (Some inmem_store) h r s1
   in iw_app s2 = (1::int) \<and> rsp_Body (response_of ops2) = [JsonChunk (JInt 0)]"
proof -
  let ?h = "\<lambda>r s. (writeJSON (JInt (iw_app s)), s\<lparr>iw_app := iw_app s + 1\<rparr>)"
  let ?e = "\<lparr>env_rng = (\<lambda>_. 0), env_uuid = (\<lambda>_. Inr ''u''), env_clock = (\<lambda>_. 50), env_pos = 0\<rparr>"
  let ?r = "\<lparr>rq_Method = ''POST'', rq_Header = (\<lambda>_. ''k1''), rq_Query = (\<lambda>_. ''''), rq_Param = (\<lambda>_. ''''),
            rq_RemoteAddr = '''', rq_Body = None, rq_BodyErr = '''', rq_Auth = None\<rparr>"
  let ?s = "\<lparr>iw_app = 0, iw_store = NewInmemStore 0, iw_env = ?e\<rparr> :: int idem_world"
  obtain ops1 s1 where one: "Idempotency (Some inmem_store) ?h ?r ?s = (ops1, s1)" by (rule prod.exhaust)
  obtain ops2 s2 where two: "Idempotency (Some inmem_store) ?h ?r s1 = (ops2, s2)" by (rule prod.exhaust)
  have k: "keyed ?r ''anon:k1''"
    by (simp add: keyed_def scopedIdempotencyKey_def PlayerIDFrom_def ClaimsFrom_def)
  have absent: "map_of (im_entries (iw_store ?s)) ''anon:k1'' = None" by (simp add: NewInmemStore_def)
  have "is_Get inmem_store ''anon:k1'' ?s = (Inr None, ?s)"
    using absent by (simp add: inmem_idem_store_def InmemStore_Get_def)
  with one k have "idem_execute inmem_store ?h ''anon:k1'' ?r ?s = (ops1, s1)" by (simp add: Idempotency_keyed)
  with inmem_execute_fresh [of ?h ?r ?s _ "?s\<lparr>iw_app := 1\<rparr>", OF _ _ absent]
  have "iw_env s1 = env_tick ?e" by auto
  then have "clock_at s1 \<le> clock_at (?s\<lparr>iw_app := 1\<rparr>) + im_ttl (iw_store ?s)"
    by (simp add: clock_at_def env_tick_def NewInmemStore_def)
  with idempotent_replay [of ?r "''anon:k1''" ?s ?h _ _ ops1 s1 ?r s1 ?h ops2 s2, OF k absent _ _ one k _ _ two]
  show ?thesis by (simp add: one two)
qed

text \<open>
  A request in two parts: the lookup, and what follows it.
\<close>

definition idem_finish ::
  "'s idem_store \<Rightarrow> 's handler \<Rightarrow> string \<Rightarrow> idem_entry option result \<Rightarrow> 's handler" where
  "idem_finish store next scoped found r s =
     (case found of
        Inl err \<Rightarrow> idem_execute store next scoped r s
      | Inr (Some entry) \<Rightarrow> (idem_replay entry, s)
      | Inr None \<Rightarrow> idem_execute store next scoped r s)"

lemma Idempotency_halves:
  "keyed r k \<Longrightarrow> Idempotency (Some store) h r s =
     (let (found, s) = is_Get store k s in idem_finish store h k found r s)"
  by (auto simp: Idempotency_keyed idem_finish_def split: prod.splits sum.splits option.splits)

text \<open>Two requests of which the second looks up before the first has stored.\<close>

definition overlapping_requests ::
  "'s idem_store \<Rightarrow> 's handler \<Rightarrow> string \<Rightarrow> request \<Rightarrow> 's \<Rightarrow> rw_op list \<times> rw_op list \<times> 's" where
  "overlapping_requests store h k r s =
     (let (g1, s) = is_Get store k s; (g2, s) = is_Get store k s;
          (ops1, s) = idem_finish store h k g1 r s; (ops2, s) = idem_finish store h k g2 r s
      in (ops1, ops2, s))"

text \<open>
  C28: overlapping duplicates are both executed. When the same keyed request arrives a second time
  while the first is being handled, both are handled: the application sees the handler run twice, and
  each client gets the response of its own run. The key protects against repetition after the first
  response only, not against a double click.
\<close>

theorem overlapping_duplicates_run_twice:
  assumes "map_of (im_entries (iw_store s)) k = None" "\<And>s. iw_store (snd (h r s)) = iw_store s"
  shows "\<exists>ops1 ops2 s' s1. overlapping_requests inmem_store h k r s = (ops1, ops2, s')
    \<and> response_of ops1 = response_of (fst (h r s)) \<and> iw_app s1 = iw_app (snd (h r s))
    \<and> response_of ops2 = response_of (fst (h r s1)) \<and> iw_app s' = iw_app (snd (h r s1))"
proof -
  have g: "is_Get inmem_store k s = (Inr None, s)"
    using assms(1) by (simp add: inmem_idem_store_def InmemStore_Get_def)
  obtain ops sh where h: "h r s = (ops, sh)" by (metis surj_pair)
  obtain ops1 s1 where one: "idem_execute inmem_store h k r s = (ops1, s1)"
      "response_of ops1 = response_of ops" "iw_app s1 = iw_app sh"
    using inmem_execute_fresh [of h r s ops sh k, OF h] assms(1) assms(2) [of s] h by auto
  obtain ops2 s2 where two: "idem_execute inmem_store h k r s1 = (ops2, s2)" by (metis surj_pair)
  from inmem_idem.execute_app [OF two] one h g two show ?thesis
    by (auto simp: overlapping_requests_def idem_finish_def intro!: exI [of _ s1])
qed

definition player_ctx :: "string \<Rightarrow> auth_ctx" where
  "player_ctx p = Some \<lparr>cl_PlayerID = p, cl_Issuer = '''', cl_Subject = '''', cl_IssuedAt = 0,
     cl_ExpiresAt = 0, cl_NotBefore = 0\<rparr>"

lemma scoped_player [simp]: "p \<noteq> '''' \<Longrightarrow> scopedIdempotencyKey (player_ctx p) k = p @ '':'' @ k"
  by (simp add: scopedIdempotencyKey_def PlayerIDFrom_def ClaimsFrom_def player_ctx_def)

lemma scoped_anon [simp]: "scopedIdempotencyKey None k = ''anon:'' @ k"
  by (simp add: scopedIdempotencyKey_def PlayerIDFrom_def ClaimsFrom_def)

text \<open>
  Scoped keys. Two different players whose identifiers are free of \<open>:\<close> never share a scoped key,
  and neither shares one with anonymous requests unless the player is called \<open>anon\<close>. Without that
  restriction they can: player \<open>a:b\<close> with key \<open>c\<close> and player \<open>a\<close> with key \<open>b:c\<close> have the same scoped key.
\<close>

theorem scoped_keys_apart:
  assumes "p \<noteq> ''''" "q \<noteq> ''''" "p \<noteq> q" "CHR '':'' \<notin> set p" "CHR '':'' \<notin> set q" "p \<noteq> ''anon''"
  shows "scopedIdempotencyKey (player_ctx p) k \<noteq> scopedIdempotencyKey (player_ctx q) k'
    \<and> scopedIdempotencyKey (player_ctx p) k \<noteq> scopedIdempotencyKey None k'
    \<and> scopedIdempotencyKey (player_ctx ''a:b'') ''c'' = scopedIdempotencyKey (player_ctx ''a'') ''b:c''"
  using sep_key_inj_left [of p "CHR '':''" k q k'] sep_key_inj_left [of p "CHR '':''" k "''anon''" k'] assms
  by auto

theorem scoped_keys_apart_witness:
  "scopedIdempotencyKey (player_ctx ''alice'') ''k1'' \<noteq> scopedIdempotencyKey (player_ctx ''bob'') ''k1''
   \<and> scopedIdempotencyKey (player_ctx ''a:b'') ''c'' = scopedIdempotencyKey (player_ctx ''a'') ''b:c''"
  using scoped_keys_apart [of "''alice''" "''bob''" "''k1''" "''k1''"] by simp

theorem overlapping_duplicates_run_twice_witness:
  "let h = (\<lambda>r s. (writeJSON (JInt (iw_app s)), s\<lparr>iw_app := iw_app s + 1\<rparr>));
       e = \<lparr>env_rng = (\<lambda>_. 0), env_uuid = (\<lambda>_. Inr ''u''), env_clock = (\<lambda>_. 50), env_pos = 0\<rparr>;
       r = \<lparr>rq_Method = ''POST'', rq_Header = (\<lambda>_. ''k1''), rq_Query = (\<lambda>_. ''''), rq_Param = (\<lambda>_. ''''),
            rq_RemoteAddr = '''', rq_Body = None, rq_BodyErr = '''', rq_Auth = None\<rparr>
   in \<exists>ops1 ops2 s'. overlapping_requests inmem_store h ''anon:k1'' r
        \<lparr>iw_app = 0, iw_store = NewInmemStore 0, iw_env = e\<rparr> = (ops1, ops2, s')
      \<and> iw_app s' = (2::int)
      \<and> rsp_Body (response_of ops1) = [JsonChunk (JInt 0)] \<and> rsp_Body (response_of ops2) = [JsonChunk (JInt 1)]"
proof -
  let ?h = "\<lambda>r s. (writeJSON (JInt (iw_app s)), s\<lparr>iw_app := iw_app s + 1\<rparr>)"
  let ?e = "\<lparr>env_rng = (\<lambda>_. 0), env_uuid = (\<lambda>_. Inr ''u''), env_clock = (\<lambda>_. 50), env_pos = 0\<rparr>"
  let ?r = "\<lparr>rq_Method = ''POST'', rq_Header = (\<lambda>_. ''k1''), rq_Query = (\<lambda>_. ''''), rq_Param = (\<lambda>_. ''''),
            rq_RemoteAddr = '''', rq_Body = None, rq_BodyErr = '''', rq_Auth = None\<rparr>"
  let ?s = "\<lparr>iw_app = 0, iw_store = NewInmemStore 0, iw_env = ?e\<rparr> :: int idem_world"
  have "map_of (im_entries (iw_store ?s)) ''anon:k1'' = None" by (simp add: NewInmemStore_def)
  from overlapping_duplicates_run_twice [OF this, of ?h ?r] show ?thesis by auto
qed

end
