(* ===== verification/Auth_Endpoint.thy ===== *)
theory Auth_Endpoint
  imports Apperror
begin

text \<open>
  \<open>internal/endpoint/auth.go\<close>: the login handler and the middleware \<open>RequireAuth\<close>, over the token
  library of \<open>Auth\<close>. A handler's state is the world whose clock issuer and validator read.
\<close>

section \<open>Login\<close>

record loginReq =
  lq_Player :: string

definition decode_loginReq :: "json option \<Rightarrow> loginReq option" where
  "decode_loginReq body =
     (case json_members body of
        None \<Rightarrow> None
      | Some ms \<Rightarrow>
          (let (p, ok1) = decode_field ''player'' dec_string '''' ms
           in if ok1 then Some \<lparr>lq_Player = p\<rparr> else None))"

definition loginReq_tags :: "loginReq \<Rightarrow> vstruct" where
  "loginReq_tags req = [(''player'', [VRequired, VMin 1, VMax 64], VStr (lq_Player req))]"

definition loginResp :: "string \<Rightarrow> int \<Rightarrow> string \<Rightarrow> json" where
  "loginResp token expiresAt playerID =
     JObj [(''token'', JStr token), (''expires_at'', JTime expiresAt), (''player_id'', JStr playerID)]"

definition auth_disabled_cause :: go_error where
  "auth_disabled_cause = ErrorString (''AUTH_SECRET is empty '' @ [CHR 0xE2, CHR 0x80, CHR 0x94] @
     '' server started in auth-disabled mode'')"

definition AuthHandler_Login :: "jwt_lib \<Rightarrow> 'w Issuer option \<Rightarrow> validator \<Rightarrow> 'w handler" where
  "AuthHandler_Login J issuer vldtr r w =
     (case issuer of
        None \<Rightarrow> (WriteJSON (Internal ''auth not configured'' auth_disabled_cause), w)
      | Some i \<Rightarrow>
          (case decode_loginReq (rq_Body r) of
             None \<Rightarrow> (WriteJSON (Validation ''invalid body''
                        [\<lparr>fe_Field = ''body'', fe_Tag = ''json'', fe_Message = rq_BodyErr r\<rparr>]), w)
           | Some req \<Rightarrow>
               (case vldtr (loginReq_tags req) of
                  VOk \<Rightarrow>
                    (case Issue J i (lq_Player req) w of
                       Inl err \<Rightarrow> (WriteJSON (Internal ''issue token'' err), w)
                     | Inr (token, exp) \<Rightarrow>
                         (WriteHeader 200 # writeJSON (loginResp token exp (lq_Player req)), w))
                | v \<Rightarrow> (WriteJSON (toValidationError v), w))))"

section \<open>RequireAuth\<close>

definition bearerTokenFrom :: "request \<Rightarrow> string \<times> bool" where
  "bearerTokenFrom r =
     (let h = rq_Header r ''Authorization''; prefix' = ''bearer ''
      in if h = '''' then ('''', False)
         else if length h < length prefix' \<or> \<not> strings_EqualFold (take (length prefix') h) prefix'
           then ('''', False)
         else let token = strings_TrimSpace (drop (length prefix') h)
              in if token = '''' then ('''', False) else (token, True))"

definition writeUnauthorized :: "string \<Rightarrow> rw_op list" where
  "writeUnauthorized msg =
     [HeaderSet ''WWW-Authenticate'' ''Bearer realm=\"stagesync\"'',
      HeaderSet ''Content-Type'' ''application/json; charset=utf-8'', WriteHeader 401,
      Write (JsonChunk (JObj [(''code'', JStr ''UNAUTHORIZED''), (''message'', JStr msg)]))]"

definition RequireAuth :: "jwt_lib \<Rightarrow> 'w Validator option \<Rightarrow> 'w handler \<Rightarrow> 'w handler" where
  "RequireAuth J validator next r w =
     (case validator of
        None \<Rightarrow> next r w
      | Some v \<Rightarrow>
          (let (token, ok) = bearerTokenFrom r
           in if \<not> ok then (writeUnauthorized ''missing or malformed Authorization header'', w)
              else case Validate J v token w of
                     Inl err \<Rightarrow> (writeUnauthorized ''invalid or expired token'', w)
                   | Inr claims \<Rightarrow> next (r\<lparr>rq_Auth := InjectClaims (rq_Auth r) claims\<rparr>) w))"

section \<open>Bearer tokens\<close>

text \<open>The outcome of \<open>RequireAuth\<close>: the claims it lets through, if any.\<close>

definition authenticated :: "jwt_lib \<Rightarrow> 'w Validator \<Rightarrow> request \<Rightarrow> 'w \<Rightarrow> Claims option" where
  "authenticated J v r w =
     (case bearerTokenFrom r of
        (tok, True) \<Rightarrow> (case Validate J v tok w of Inr c \<Rightarrow> Some c | Inl _ \<Rightarrow> None)
      | (_, False) \<Rightarrow> None)"

lemma bearer_folds: "strings_EqualFold ''Bearer '' ''bearer ''"
  by code_simp

lemma bearer_round_trip:
  assumes "rq_Header r ''Authorization'' = ''Bearer '' @ tok" "strings_TrimSpace tok = tok" "tok \<noteq> ''''"
  shows "bearerTokenFrom r = (tok, True)"
  using assms by (simp add: bearerTokenFrom_def bearer_folds Let_def)

lemma RequireAuth_cases:
  "RequireAuth J (Some v) h r w =
     (case authenticated J v r w of
        None \<Rightarrow> (writeUnauthorized (if snd (bearerTokenFrom r) then ''invalid or expired token''
                   else ''missing or malformed Authorization header''), w)
      | Some c \<Rightarrow> h (r\<lparr>rq_Auth := Some c\<rparr>) w)"
  by (auto simp: RequireAuth_def authenticated_def InjectClaims_def split: prod.splits sum.splits bool.splits)

lemma response_of_writeUnauthorized:
  "rsp_Status (response_of (writeUnauthorized msg)) = 401"
  "map_of (rsp_Header (response_of (writeUnauthorized msg))) ''WWW-Authenticate'' = Some ''Bearer realm=\"stagesync\"''"
  by (simp_all add: writeUnauthorized_def rw_defs)

section \<open>Properties\<close>

text \<open>
  Protected routes. With a validator, a request is answered with 401, a \<open>WWW-Authenticate\<close>
  challenge and no effect on the state unless its bearer token validates; then the handler runs, and
  the player it reads from its context is the non-empty player of the token's claims. A handler that
  is never reached cannot have seen the request: the outcome does not depend on it.
\<close>

theorem RequireAuth_protects:
  "case authenticated J v r w of
     None \<Rightarrow> (\<exists>ops. \<forall>h. RequireAuth J (Some v) h r w = (ops, w)
        \<and> rsp_Status (response_of ops) = 401
        \<and> map_of (rsp_Header (response_of ops)) ''WWW-Authenticate'' = Some ''Bearer realm=\"stagesync\"'')
   | Some c \<Rightarrow> (\<forall>h. RequireAuth J (Some v) h r w = h (r\<lparr>rq_Auth := Some c\<rparr>) w)
        \<and> PlayerIDFrom (rq_Auth (r\<lparr>rq_Auth := Some c\<rparr>)) = (cl_PlayerID c, True) \<and> cl_PlayerID c \<noteq> ''''"
proof (cases "authenticated J v r w")
  case None
  then show ?thesis
    by (auto simp: RequireAuth_cases response_of_writeUnauthorized simp del: rw_run_simps)
next
  case (Some c)
  then have "cl_PlayerID c \<noteq> ''''"
    by (auto simp: authenticated_def split: prod.splits bool.splits sum.splits dest: Validate_nonempty_player)
  with Some show ?thesis by (simp add: RequireAuth_cases PlayerIDFrom_def ClaimsFrom_def)
qed


text \<open>The tokens of the reference format begin and end with a digit.\<close>

lemma find_space_digit:
  "find (\<lambda>w. prefix w (CHR ''0'' # cs)) space_encodings = None"
  "find (\<lambda>w. prefix w (CHR ''1'' # cs)) space_encodings = None"
  "find (\<lambda>w. prefix w (CHR ''0'' # cs)) (map rev space_encodings) = None"
  by (simp_all add: space_encodings_def)

lemma drop_words_none: "find (\<lambda>w. prefix w t) ws = None \<Longrightarrow> drop_words n ws t = t"
  by (cases n) auto

lemma TrimSpace_digits:
  assumes "hd t \<in> {CHR ''0'', CHR ''1''}" "last t = CHR ''0''" "t \<noteq> ''''"
  shows "strings_TrimSpace t = t"
proof -
  have "t = CHR ''0'' # tl t \<or> t = CHR ''1'' # tl t" using assms(1,3) by (cases t) auto
  then have "find (\<lambda>w. prefix w t) space_encodings = None" using find_space_digit(1,2) by metis
  then have l: "drop_words n space_encodings t = t" for n by (rule drop_words_none)
  have "rev t = CHR ''0'' # rev (butlast t)" using assms(2,3) by (cases t rule: rev_cases) auto
  then have "find (\<lambda>w. prefix w (rev t)) (map rev space_encodings) = None" using find_space_digit(3) by metis
  then have "drop_words n (map rev space_encodings) (rev t) = rev t" for n by (rule drop_words_none)
  with l show ?thesis by (simp add: strings_TrimSpace_def)
qed

lemma ref_Sign_trim: "jwt_Sign ref_jwt c k = Inr t \<Longrightarrow> strings_TrimSpace t = t"
proof (rule TrimSpace_digits)
  assume "jwt_Sign ref_jwt c k = Inr t"
  then have t: "t = enc_str k @ enc_str (cl_PlayerID c) @ enc_str (cl_Issuer c) @ enc_str (cl_Subject c)
     @ enc_int (cl_IssuedAt c) @ enc_int (cl_ExpiresAt c) @ enc_int (cl_NotBefore c)"
    by (simp add: ref_jwt_def ref_Sign_def)
  have ne: "enc_nat n \<noteq> ''''" "hd (enc_nat n) \<in> {CHR ''0'', CHR ''1''}" "last (enc_nat n) = CHR ''0''" for n
    by (cases n; simp add: enc_nat_def)+
  show "hd t \<in> {CHR ''0'', CHR ''1''}" "t \<noteq> ''''" "last t = CHR ''0''"
    using ne by (auto simp: t enc_str_def enc_int_def hd_append)
qed


end
