(* ===== verification/Go_Float.thy ===== *)
theory Go_Float
  imports Go_Prelude
begin

text \<open>
  \<open>float64\<close>: IEEE 754 binary64 with rounding to nearest, ties to even. A finite value is kept as
  \<open>m * 2^e\<close>; signed zeros are not told apart, since no source divides by a zero. Operations compute
  the exact result on integers and round once (no fused operations). \<open>int64(f)\<close> truncates; for a
  value outside of \<open>int64\<close> Go leaves the result to the implementation, here the one of amd64.
\<close>

datatype float64 = Finite int int | Infinity bool | NaN

section \<open>Rounding\<close>

fun bitlen :: "nat \<Rightarrow> nat" where
  "bitlen n = (if n = 0 then 0 else Suc (bitlen (n div 2)))"

declare bitlen.simps [simp del]

definition round_even :: "int \<Rightarrow> nat \<Rightarrow> int" where
  "round_even m s =
     (let d = 2 ^ s; q = m div d; r = m mod d
      in if 2 * r < d then q else if 2 * r > d then q + 1 else if even q then q else q + 1)"

text \<open>The float nearest to \<open>m * 2^e\<close>: 53 significant bits, exponents from \<open>-1074\<close>, values below \<open>2^1024\<close>.\<close>

definition f64_round :: "int \<Rightarrow> int \<Rightarrow> float64" where
  "f64_round m e =
     (let s = nat (max (int (bitlen (nat \<bar>m\<bar>)) - 53) (- 1074 - e));
          q = round_even m s
      in if int (bitlen (nat \<bar>q\<bar>)) + (e + int s) > 1024 then Infinity (q < 0) else Finite q (e + int s))"

section \<open>Operations\<close>

definition f64_of_int :: "int \<Rightarrow> float64" where
  "f64_of_int n = f64_round n 0"

fun f64_neg :: "float64 \<Rightarrow> float64" where
  "f64_neg (Finite m e) = Finite (- m) e"
| "f64_neg (Infinity neg) = Infinity (\<not> neg)"
| "f64_neg NaN = NaN"

text \<open>The two mantissas at the smaller of the two exponents.\<close>

definition align :: "int \<Rightarrow> int \<Rightarrow> int \<Rightarrow> int \<Rightarrow> int \<times> int \<times> int" where
  "align m e n f = (let g = min e f in (m * 2 ^ nat (e - g), n * 2 ^ nat (f - g), g))"

fun f64_add :: "float64 \<Rightarrow> float64 \<Rightarrow> float64" where
  "f64_add (Finite m e) (Finite n f) = (let (m', n', g) = align m e n f in f64_round (m' + n') g)"
| "f64_add (Infinity a) (Infinity b) = (if a = b then Infinity a else NaN)"
| "f64_add NaN y = NaN"
| "f64_add x NaN = NaN"
| "f64_add (Infinity a) y = Infinity a"
| "f64_add x (Infinity b) = Infinity b"

definition f64_sub :: "float64 \<Rightarrow> float64 \<Rightarrow> float64" where
  "f64_sub x y = f64_add x (f64_neg y)"

fun f64_mul :: "float64 \<Rightarrow> float64 \<Rightarrow> float64" where
  "f64_mul (Finite m e) (Finite n f) = f64_round (m * n) (e + f)"
| "f64_mul NaN y = NaN"
| "f64_mul x NaN = NaN"
| "f64_mul (Infinity a) (Infinity b) = Infinity (a \<noteq> b)"
| "f64_mul (Infinity a) (Finite n f) = (if n = 0 then NaN else Infinity (a \<noteq> (n < 0)))"
| "f64_mul (Finite m e) (Infinity b) = (if m = 0 then NaN else Infinity (b \<noteq> (m < 0)))"

text \<open>
  The quotient to at least 55 bits, with one more bit that tells whether there is a remainder: enough to round the
  exact quotient correctly.
\<close>

fun f64_div :: "float64 \<Rightarrow> float64 \<Rightarrow> float64" where
  "f64_div (Finite m e) (Finite n f) =
     (if n = 0 then (if m = 0 then NaN else Infinity (m < 0))
      else let k = 55 + bitlen (nat \<bar>n\<bar>); a = \<bar>m\<bar> * 2 ^ k;
               q = 2 * (a div \<bar>n\<bar>) + (if a mod \<bar>n\<bar> = 0 then 0 else 1)
           in f64_round (sgn m * sgn n * q) (e - f - int k - 1))"
| "f64_div NaN y = NaN"
| "f64_div x NaN = NaN"
| "f64_div (Infinity a) (Infinity b) = NaN"
| "f64_div (Infinity a) (Finite n f) = Infinity (a \<noteq> (n < 0))"
| "f64_div (Finite m e) (Infinity b) = Finite 0 0"

fun f64_le :: "float64 \<Rightarrow> float64 \<Rightarrow> bool" where
  "f64_le (Finite m e) (Finite n f) = (let (m', n', g) = align m e n f in m' \<le> n')"
| "f64_le NaN y = False"
| "f64_le x NaN = False"
| "f64_le (Infinity a) (Infinity b) = (a \<or> \<not> b)"
| "f64_le (Infinity a) (Finite n f) = a"
| "f64_le (Finite m e) (Infinity b) = (\<not> b)"

text \<open>Comparison with the constant zero.\<close>

fun f64_le0 :: "float64 \<Rightarrow> bool" where
  "f64_le0 (Finite m e) = (m \<le> 0)"
| "f64_le0 (Infinity neg) = neg"
| "f64_le0 NaN = False"

fun f64_lt0 :: "float64 \<Rightarrow> bool" where
  "f64_lt0 (Finite m e) = (m < 0)"
| "f64_lt0 (Infinity neg) = neg"
| "f64_lt0 NaN = False"

definition trunc_pow :: "int \<Rightarrow> int \<Rightarrow> int" where
  "trunc_pow m e = (if 0 \<le> e then m * 2 ^ nat e else sgn m * (\<bar>m\<bar> div 2 ^ nat (- e)))"

fun f64_to_int64 :: "float64 \<Rightarrow> int" where
  "f64_to_int64 (Finite m e) = (let n = trunc_pow m e in if in_int64 n then n else - (2 ^ 63))"
| "f64_to_int64 _ = - (2 ^ 63)"

section \<open>Exact results\<close>

lemma bitlen_le: "n < 2 ^ k \<Longrightarrow> bitlen n \<le> k"
proof (induction k arbitrary: n)
  case 0
  then show ?case by (simp add: bitlen.simps)
next
  case (Suc k)
  then have "n div 2 < 2 ^ k" by auto
  with Suc.IH show ?case by (subst bitlen.simps) auto
qed

lemma round_even_0 [simp]: "round_even m 0 = m"
  by (simp add: round_even_def)

lemma round_even_exact: "round_even (m * 2 ^ s) s = m"
  by (simp add: round_even_def)

text \<open>A value of at most 53 bits within the exponent range is not rounded.\<close>

lemma f64_round_exact:
  assumes "\<bar>m\<bar> < 2 ^ 53" "- 1074 \<le> e" "e \<le> 971"
  shows "f64_round m e = Finite m e"
proof -
  have "nat \<bar>m\<bar> < 2 ^ 53" using assms(1) by (simp add: nat_less_iff)
  then have b: "bitlen (nat \<bar>m\<bar>) \<le> 53" by (rule bitlen_le)
  then have "nat (max (int (bitlen (nat \<bar>m\<bar>)) - 53) (- 1074 - e)) = 0" using assms(2) by simp
  then show ?thesis using b assms(3) by (simp add: f64_round_def Let_def)
qed

text \<open>\<open>2^53\<close> itself is representable too.\<close>

lemma f64_round_exact': "\<bar>m\<bar> < 2 ^ 53 \<Longrightarrow> f64_round m 0 = Finite m 0"
  by (rule f64_round_exact) auto

lemma f64_of_int_exact: "\<bar>n\<bar> < 2 ^ 53 \<Longrightarrow> f64_of_int n = Finite n 0"
  by (simp add: f64_of_int_def f64_round_exact')

lemma align_same [simp]: "align m e n e = (m, n, e)"
  by (simp add: align_def)

lemma f64_int_ops:
  "\<bar>m + n\<bar> < 2 ^ 53 \<Longrightarrow> f64_add (Finite m 0) (Finite n 0) = Finite (m + n) 0"
  "\<bar>m - n\<bar> < 2 ^ 53 \<Longrightarrow> f64_sub (Finite m 0) (Finite n 0) = Finite (m - n) 0"
  "\<bar>m * n\<bar> < 2 ^ 53 \<Longrightarrow> f64_mul (Finite m 0) (Finite n 0) = Finite (m * n) 0"
  "f64_le (Finite m 0) (Finite n 0) \<longleftrightarrow> m \<le> n"
  by (simp_all add: f64_round_exact' f64_sub_def)

lemma f64_to_int64_int: "in_int64 n \<Longrightarrow> f64_to_int64 (Finite n 0) = n"
  by (simp add: trunc_pow_def)

section \<open>Bounds\<close>

text \<open>\<open>math.Round\<close>: the nearest integer, halves away from zero.\<close>

fun f64_Round :: "float64 \<Rightarrow> float64" where
  "f64_Round (Finite m e) =
     (if 0 \<le> e then Finite m e
      else let d = 2 ^ nat (- e) in Finite (sgn m * ((2 * \<bar>m\<bar> + d) div (2 * d))) 0)"
| "f64_Round x = x"

text \<open>A finite value with its bounds, in a form without fractions.\<close>

definition f64_within :: "int \<Rightarrow> int \<Rightarrow> float64 \<Rightarrow> bool" where
  "f64_within lo hi x \<longleftrightarrow> f64_le (Finite lo 0) x \<and> f64_le x (Finite hi 0)"

lemma f64_within_Finite:
  "e \<le> 0 \<Longrightarrow> f64_within lo hi (Finite m e) \<longleftrightarrow> lo * 2 ^ nat (- e) \<le> m \<and> m \<le> hi * 2 ^ nat (- e)"
  by (auto simp: f64_within_def align_def min_def)

lemma round_even_bounds:
  assumes "lo * 2 ^ s \<le> m" "m \<le> hi * 2 ^ s"
  shows "lo \<le> round_even m s" "round_even m s \<le> hi"
proof -
  let ?d = "2 ^ s :: int"
  have q: "lo \<le> m div ?d" using assms(1) by (metis nonzero_mult_div_cancel_right power_eq_0_iff zdiv_mono1 zero_less_numeral zero_less_power zero_neq_numeral)
  then show "lo \<le> round_even m s" by (auto simp: round_even_def Let_def)
  have "m div ?d \<le> hi" using assms(2) by (metis nonzero_mult_div_cancel_right power_eq_0_iff zdiv_mono1 zero_less_numeral zero_less_power zero_neq_numeral)
  moreover have "m mod ?d = 0" if "m div ?d = hi"
  proof -
    have "m = hi * ?d + m mod ?d" using mult_div_mod_eq [of ?d m] that by (simp add: mult.commute)
    moreover have "0 \<le> m mod ?d" by simp
    ultimately show ?thesis using assms(2) by linarith
  qed
  ultimately show "round_even m s \<le> hi"
    by (cases "m div ?d = hi") (auto simp: round_even_def Let_def)
qed

lemma interval_abs:
  fixes m lo hi P B :: int
  assumes "lo * P \<le> m" "m \<le> hi * P" "\<bar>lo\<bar> < B" "\<bar>hi\<bar> < B" "0 < P"
  shows "\<bar>m\<bar> < B * P"
proof -
  have "hi * P < B * P" using assms by (intro mult_strict_right_mono) auto
  moreover have "(- lo) * P < B * P" using assms by (intro mult_strict_right_mono) auto
  ultimately show ?thesis using assms(1,2) by (simp add: abs_less_iff)
qed

text \<open>Rounding does not leave an interval with representable integers as its ends.\<close>

lemma f64_round_within:
  assumes e: "- 1074 \<le> e" "e \<le> 0" and b: "lo * 2 ^ nat (- e) \<le> m" "m \<le> hi * 2 ^ nat (- e)"
    and small: "\<bar>lo\<bar> < 2 ^ 53" "\<bar>hi\<bar> < 2 ^ 53"
  shows "\<exists>q g. f64_round m e = Finite q g \<and> - 1074 \<le> g \<and> g \<le> 0 \<and> lo * 2 ^ nat (- g) \<le> q \<and> q \<le> hi * 2 ^ nat (- g)"
proof -
  define k where "k = nat (- e)"
  define s where "s = nat (int (bitlen (nat \<bar>m\<bar>)) - 53)"
  have "\<bar>m\<bar> < 2 ^ 53 * 2 ^ k" by (rule interval_abs [OF b small, folded k_def]) simp
  then have "nat \<bar>m\<bar> < 2 ^ (53 + k)" by (simp add: nat_less_iff power_add)
  from bitlen_le [OF this] have s: "s \<le> k" by (simp add: s_def)
  have s': "nat (max (int (bitlen (nat \<bar>m\<bar>)) - 53) (- 1074 - e)) = s" using e by (simp add: s_def max_def)
  have k: "int k = - e" using e by (simp add: k_def)
  define g where "g = e + int s"
  have g: "g \<le> 0" "- 1074 \<le> g" "nat (- g) = k - s" using s k e by (auto simp: g_def)
  have "(2::int) ^ k = 2 ^ (k - s) * 2 ^ s" using s by (simp flip: power_add)
  then have "lo * 2 ^ (k - s) * 2 ^ s \<le> m" "m \<le> hi * 2 ^ (k - s) * 2 ^ s" using b by (simp_all add: mult.assoc flip: k_def)
  note q = round_even_bounds [OF this]
  have "\<bar>round_even m s\<bar> < 2 ^ 53 * 2 ^ (k - s)" by (rule interval_abs [OF q small]) simp
  then have "nat \<bar>round_even m s\<bar> < 2 ^ (53 + (k - s))" by (simp add: nat_less_iff power_add)
  from bitlen_le [OF this] have "int (bitlen (nat \<bar>round_even m s\<bar>)) + (e + int s) \<le> 1024" using s k by simp
  then have "f64_round m e = Finite (round_even m s) g" by (simp add: f64_round_def s' Let_def g_def)
  with q g show ?thesis by auto
qed

end
