(* ===== verification/Ratelimit.thy ===== *)
theory Ratelimit
  imports Go_World Go_Http Go_Float
begin

text \<open>
  Rate limiting: the per-identity limiter \<open>internal/ratelimit/ratelimit.go\<close> and the middleware
  \<open>endpoint/ratelimit.go\<close>. The token bucket itself is \<open>golang.org/x/time/rate\<close>, a parameter: a
  constructor and \<open>Allow\<close> as a function of the instant. A call of \<open>Allow\<close> reads two clocks: the
  limiter's own one for \<open>lastSeen\<close>, and the real one inside the library. Calls are atomic: the part
  of \<open>Allow\<close> that runs without the mutex works on the bucket that was marked as seen just before.
\<close>

section \<open>The token bucket library\<close>

record 'b rate_lib =
  rl_NewLimiter :: "float64 \<Rightarrow> int \<Rightarrow> 'b"
  rl_Allow :: "int \<Rightarrow> 'b \<Rightarrow> bool \<times> 'b"

section \<open>The limiter\<close>

record 'b bucket =
  bk_l :: 'b
  bk_lastSeen :: int

record 'b Limiter =
  lm_buckets :: "(string, 'b bucket) gomap"
  lm_rps :: float64
  lm_burst :: int
  lm_idleTTL :: int
  lm_stopped :: bool

definition WithIdleTTL :: "int \<Rightarrow> 'b Limiter \<Rightarrow> 'b Limiter" where
  "WithIdleTTL d l = l\<lparr>lm_idleTTL := d\<rparr>"

definition NewLimiter :: "float64 \<Rightarrow> int \<Rightarrow> ('b Limiter \<Rightarrow> 'b Limiter) list \<Rightarrow> 'b Limiter" where
  "NewLimiter rps burst opts =
     (let burst = (if burst \<le> 0 then 1 else burst);
          l = \<lparr>lm_buckets = [], lm_rps = rps, lm_burst = burst, lm_idleTTL = 600000000000, lm_stopped = False\<rparr>
      in fold (\<lambda>opt. opt) opts l)"

text \<open>\<open>seen\<close> is the reading of \<open>l.now\<close>, \<open>t\<close> the one inside \<open>limiter.Allow\<close>.\<close>

definition Limiter_Allow :: "'b rate_lib \<Rightarrow> string \<Rightarrow> int \<Rightarrow> int \<Rightarrow> 'b Limiter \<Rightarrow> bool \<times> 'b Limiter" where
  "Limiter_Allow lib identity seen t l =
     (if f64_le0 (lm_rps l) then (True, l)
      else let b = (case map_of (lm_buckets l) identity of
                      Some b \<Rightarrow> b
                    | None \<Rightarrow> \<lparr>bk_l = rl_NewLimiter lib (lm_rps l) (lm_burst l), bk_lastSeen = 0\<rparr>);
               b = b\<lparr>bk_lastSeen := seen\<rparr>;
               (ok, limiter) = rl_Allow lib t (bk_l b)
           in (ok, l\<lparr>lm_buckets := AList.update identity (b\<lparr>bk_l := limiter\<rparr>) (lm_buckets l)\<rparr>))"

definition Limiter_Sweep :: "int \<Rightarrow> 'b Limiter \<Rightarrow> int \<times> 'b Limiter" where
  "Limiter_Sweep now l =
     (let cutoff = now - lm_idleTTL l
      in (int (length (filter (\<lambda>(k, b). bk_lastSeen b < cutoff) (lm_buckets l))),
          l\<lparr>lm_buckets := filter (\<lambda>(k, b). \<not> bk_lastSeen b < cutoff) (lm_buckets l)\<rparr>))"

definition Limiter_Size :: "'b Limiter \<Rightarrow> int" where
  "Limiter_Size l = int (length (lm_buckets l))"

text \<open>The sweeper goroutine: what arrives on its two channels, one event at a time.\<close>

datatype sweeper_event = Tick int | StopClosed

fun StartSweeper :: "sweeper_event list \<Rightarrow> 'b Limiter \<Rightarrow> 'b Limiter" where
  "StartSweeper [] l = l"
| "StartSweeper (Tick now # es) l = StartSweeper es (snd (Limiter_Sweep now l))"
| "StartSweeper (StopClosed # es) l = l"

text \<open>Closing a closed channel panics.\<close>

definition Limiter_Stop :: "'b Limiter \<Rightarrow> 'b Limiter option" where
  "Limiter_Stop l = (if lm_stopped l then None else Some (l\<lparr>lm_stopped := True\<rparr>))"

section \<open>The middleware\<close>

definition identityOf :: "request \<Rightarrow> string" where
  "identityOf r =
     (let (player, ok) = PlayerIDFrom (rq_Auth r)
      in if ok \<and> player \<noteq> '''' then ''player:'' @ player
         else let xff = rq_Header r ''X-Forwarded-For''
              in if xff \<noteq> ''''
                 then (case index_byte (CHR '','') xff of
                         Some (Suc i) \<Rightarrow> ''ip:'' @ strings_TrimSpace (take (Suc i) xff)
                       | _ \<Rightarrow> ''ip:'' @ strings_TrimSpace xff)
                 else let xri = rq_Header r ''X-Real-IP''
                      in if xri \<noteq> '''' then ''ip:'' @ xri
                         else ''ip:'' @ (case net_SplitHost (rq_RemoteAddr r) of
                                           Some host \<Rightarrow> host | None \<Rightarrow> rq_RemoteAddr r))"

definition rate_limited_body :: json where
  "rate_limited_body =
     JObj [(''code'', JStr ''RATE_LIMITED''),
           (''message'', JStr (''too many requests '' @ [CHR 0xE2, CHR 0x80, CHR 0x94] @ '' retry later''))]"

definition rate_limited :: "rw_op list" where
  "rate_limited =
     [HeaderSet ''Retry-After'' ''1'', HeaderSet ''Content-Type'' ''application/json; charset=utf-8'',
      WriteHeader 429, Write (JsonChunk rate_limited_body)]"

text \<open>\<open>limiter.Allow(id)\<close> on the limiter of a larger state, reading its clocks.\<close>

definition limiter_allow ::
  "'b rate_lib \<Rightarrow> ('s, 'b Limiter) field \<Rightarrow> ('s \<Rightarrow> int \<times> 's) \<Rightarrow> string \<Rightarrow> 's \<Rightarrow> bool \<times> 's" where
  "limiter_allow lib f now ident s =
     (if f64_le0 (lm_rps (fget f s)) then (True, s)
      else let (seen, s) = now s; (t, s) = now s in on_field f (Limiter_Allow lib ident seen t) s)"

definition RateLimit ::
  "'b rate_lib \<Rightarrow> ('s, 'b Limiter) field option \<Rightarrow> ('s \<Rightarrow> int \<times> 's) \<Rightarrow> 's handler \<Rightarrow> 's handler" where
  "RateLimit lib limiter now next r s =
     (case limiter of
        None \<Rightarrow> next r s
      | Some f \<Rightarrow>
          (let ident = identityOf r; (ok, s) = limiter_allow lib f now ident s
           in if \<not> ok then (rate_limited, s) else next r s))"

section \<open>Isolation of identities\<close>

text \<open>A history of the limiter: calls, with their two clock readings, and sweeps.\<close>

datatype limiter_op = OpAllow string int int | OpSweep int

fun limiter_step :: "'b rate_lib \<Rightarrow> limiter_op \<Rightarrow> 'b Limiter \<Rightarrow> (string \<times> bool) list \<times> 'b Limiter" where
  "limiter_step lib (OpAllow i seen t) l = (let (ok, l) = Limiter_Allow lib i seen t l in ([(i, ok)], l))"
| "limiter_step lib (OpSweep now) l = ([], snd (Limiter_Sweep now l))"

fun limiter_run :: "'b rate_lib \<Rightarrow> limiter_op list \<Rightarrow> 'b Limiter \<Rightarrow> (string \<times> bool) list \<times> 'b Limiter" where
  "limiter_run lib [] l = ([], l)"
| "limiter_run lib (x # xs) l =
     (let (ds, l) = limiter_step lib x l; (ds', l) = limiter_run lib xs l in (ds @ ds', l))"

definition decisions :: "string \<Rightarrow> (string \<times> bool) list \<Rightarrow> bool list" where
  "decisions i ds = map snd (filter (\<lambda>d. fst d = i) ds)"

text \<open>
  The specification: an identity has a bucket of its own, made at its first call, forgotten when a
  sweep finds it unused for longer than \<open>ttl\<close>.
\<close>

fun own_decisions ::
  "'b rate_lib \<Rightarrow> float64 \<Rightarrow> int \<Rightarrow> int \<Rightarrow> string \<Rightarrow> limiter_op list \<Rightarrow> 'b bucket option \<Rightarrow> bool list" where
  "own_decisions lib rps burst ttl i [] b = []"
| "own_decisions lib rps burst ttl i (OpAllow j seen t # xs) b =
     (if j \<noteq> i then own_decisions lib rps burst ttl i xs b
      else let (ok, lim) = rl_Allow lib t (case b of Some b \<Rightarrow> bk_l b | None \<Rightarrow> rl_NewLimiter lib rps burst)
           in ok # own_decisions lib rps burst ttl i xs (Some \<lparr>bk_l = lim, bk_lastSeen = seen\<rparr>))"
| "own_decisions lib rps burst ttl i (OpSweep now # xs) b =
     own_decisions lib rps burst ttl i xs
       (case b of Some b \<Rightarrow> if bk_lastSeen b < now - ttl then None else Some b | None \<Rightarrow> None)"

lemma NewLimiter_simps [simp]:
  "lm_buckets (NewLimiter rps burst []) = []" "lm_rps (NewLimiter rps burst []) = rps"
  "lm_burst (NewLimiter rps burst []) = max 1 burst" "lm_idleTTL (NewLimiter rps burst []) = 600000000000"
  by (auto simp: NewLimiter_def Let_def)

lemma limiter_step_config:
  assumes "limiter_step lib x l = (ds, l')" "gomap_wf (lm_buckets l)"
  shows "lm_rps l' = lm_rps l \<and> lm_burst l' = lm_burst l \<and> lm_idleTTL l' = lm_idleTTL l \<and> gomap_wf (lm_buckets l')"
  using assms
  by (cases x) (auto simp: Limiter_Allow_def Limiter_Sweep_def Let_def split: if_splits prod.splits option.splits)

lemma Limiter_Allow_bucket:
  assumes "\<not> f64_le0 (lm_rps l)" "Limiter_Allow lib i seen t l = (ok, l')"
  shows "\<exists>lim. rl_Allow lib t (case map_of (lm_buckets l) i of Some b \<Rightarrow> bk_l b
        | None \<Rightarrow> rl_NewLimiter lib (lm_rps l) (lm_burst l)) = (ok, lim)
    \<and> map_of (lm_buckets l') = (map_of (lm_buckets l))(i \<mapsto> \<lparr>bk_l = lim, bk_lastSeen = seen\<rparr>)"
  using assms by (auto simp: Limiter_Allow_def Let_def update_conv' split: prod.splits option.splits)

lemma Limiter_Sweep_bucket:
  assumes "gomap_wf (lm_buckets l)"
  shows "map_of (lm_buckets (snd (Limiter_Sweep now l))) i =
    (case map_of (lm_buckets l) i of
       Some b \<Rightarrow> if bk_lastSeen b < now - lm_idleTTL l then None else Some b | None \<Rightarrow> None)"
  using map_of_filter_snd [OF assms, of "\<lambda>b. \<not> bk_lastSeen b < now - lm_idleTTL l" i]
  by (auto simp: Limiter_Sweep_def Let_def split: option.splits)

lemma limiter_refines:
  assumes "\<not> f64_le0 (lm_rps l)" "gomap_wf (lm_buckets l)"
  shows "decisions i (fst (limiter_run lib xs l)) =
    own_decisions lib (lm_rps l) (lm_burst l) (lm_idleTTL l) i xs (map_of (lm_buckets l) i)"
  using assms
proof (induction xs arbitrary: l)
  case Nil
  then show ?case by (simp add: decisions_def)
next
  case (Cons x xs)
  obtain ds l1 where step: "limiter_step lib x l = (ds, l1)" by (rule prod.exhaust)
  note cfg = limiter_step_config [OF step Cons.prems(2)]
  have IH: "decisions i (fst (limiter_run lib xs l1)) =
      own_decisions lib (lm_rps l) (lm_burst l) (lm_idleTTL l) i xs (map_of (lm_buckets l1) i)"
    using Cons.IH [of l1] Cons.prems cfg by simp
  have run: "decisions i (fst (limiter_run lib (x # xs) l)) = decisions i ds @ decisions i (fst (limiter_run lib xs l1))"
    using step by (auto simp: decisions_def split: prod.splits)
  show ?case
  proof (cases x)
    case (OpAllow j seen t)
    then obtain ok where ok: "Limiter_Allow lib j seen t l = (ok, l1)" "ds = [(j, ok)]"
      using step by (auto split: prod.splits)
    from Limiter_Allow_bucket [OF Cons.prems(1) ok(1)] run IH OpAllow ok(2) show ?thesis
      by (auto simp: decisions_def)
  next
    case (OpSweep now)
    with step have "l1 = snd (Limiter_Sweep now l)" "ds = []" by auto
    with run IH OpSweep Limiter_Sweep_bucket [OF Cons.prems(2)] show ?thesis by (simp add: decisions_def)
  qed
qed

fun call_times :: "string \<Rightarrow> limiter_op list \<Rightarrow> int list" where
  "call_times i [] = []"
| "call_times i (OpAllow j seen t # xs) = (if j = i then t # call_times i xs else call_times i xs)"
| "call_times i (OpSweep now # xs) = call_times i xs"

lemma unlimited_run:
  "f64_le0 (lm_rps l) \<Longrightarrow> gomap_wf (lm_buckets l) \<Longrightarrow>
     decisions i (fst (limiter_run lib xs l)) = replicate (length (call_times i xs)) True"
proof (induction xs arbitrary: l)
  case Nil
  then show ?case by (simp add: decisions_def)
next
  case (Cons x xs)
  obtain ds l1 where step: "limiter_step lib x l = (ds, l1)" by (rule prod.exhaust)
  from Cons.IH [of l1] limiter_step_config [OF step Cons.prems(2)] Cons.prems(1) step show ?case
    by (cases x) (auto simp: decisions_def Limiter_Allow_def split: prod.splits)
qed

text \<open>The calls of one \<open>rate.Limiter\<close>.\<close>

fun lib_calls :: "'b rate_lib \<Rightarrow> int list \<Rightarrow> 'b \<Rightarrow> bool list" where
  "lib_calls lib [] lim = []"
| "lib_calls lib (t # ts) lim = (let (ok, lim) = rl_Allow lib t lim in ok # lib_calls lib ts lim)"

text \<open>An identity that no sweep finds idle keeps its bucket.\<close>

lemma own_decisions_busy:
  assumes "\<forall>seen t now. OpAllow i seen t \<in> set xs \<longrightarrow> OpSweep now \<in> set xs \<longrightarrow> now - ttl \<le> seen"
    and "\<forall>b' now. b = Some b' \<longrightarrow> OpSweep now \<in> set xs \<longrightarrow> now - ttl \<le> bk_lastSeen b'"
  shows "own_decisions lib rps burst ttl i xs b =
    lib_calls lib (call_times i xs) (case b of Some b \<Rightarrow> bk_l b | None \<Rightarrow> rl_NewLimiter lib rps burst)"
  using assms
proof (induction xs arbitrary: b)
  case Nil
  then show ?case by simp
next
  case (Cons x xs)
  have busy: "\<forall>seen t now. OpAllow i seen t \<in> set xs \<longrightarrow> OpSweep now \<in> set xs \<longrightarrow> now - ttl \<le> seen"
    using Cons.prems(1) by (meson list.set_intros(2))
  show ?case
  proof (cases x)
    case (OpAllow j seen t)
    have own: "own_decisions lib rps burst ttl i xs (Some \<lparr>bk_l = lim, bk_lastSeen = seen\<rparr>) =
        lib_calls lib (call_times i xs) lim" if "j = i" for lim
      using Cons.IH [OF busy, where b = "Some \<lparr>bk_l = lim, bk_lastSeen = seen\<rparr>"] Cons.prems(1) OpAllow that
      by auto
    have other: "own_decisions lib rps burst ttl i xs b =
        lib_calls lib (call_times i xs) (case b of Some b \<Rightarrow> bk_l b | None \<Rightarrow> rl_NewLimiter lib rps burst)"
      using Cons.IH [OF busy, where b = b] Cons.prems(2) by auto
    from own other OpAllow show ?thesis by (auto split: prod.splits)
  next
    case (OpSweep now)
    have keep: "(case b of Some b \<Rightarrow> if bk_lastSeen b < now - ttl then None else Some b | None \<Rightarrow> None) = b"
      using Cons.prems(2) OpSweep by (fastforce split: option.splits)
    from Cons.IH [OF busy, where b = b] Cons.prems(2) OpSweep keep show ?thesis by auto
  qed
qed

section \<open>Properties\<close>

text \<open>
  C8: isolation. In every history of calls and sweeps, the answers to one identity are those of a
  bucket of its own: they depend on its own calls and on the sweeps only, never on what other identities
  do. Without a positive rate every call is allowed.
\<close>

theorem limiter_isolates:
  "decisions i (fst (limiter_run lib xs (NewLimiter rps burst []))) =
     (if f64_le0 rps then replicate (length (call_times i xs)) True
      else own_decisions lib rps (max 1 burst) 600000000000 i xs None)"
  using unlimited_run [of "NewLimiter rps burst []" i lib xs] limiter_refines [of "NewLimiter rps burst []" i lib xs] by simp

text \<open>
  What the library documents for a bucket that is full at first and called at one instant only: as
  many calls pass as the bucket is large.
\<close>

definition bursts_exactly :: "'b rate_lib \<Rightarrow> float64 \<Rightarrow> int \<Rightarrow> int \<Rightarrow> bool" where
  "bursts_exactly lib rps b t \<longleftrightarrow>
     (\<forall>n. lib_calls lib (replicate n t) (rl_NewLimiter lib rps b) =
        replicate (min n (nat b)) True @ replicate (n - nat b) False)"

text \<open>
  The burst of an identity. Of the calls that an identity makes at one instant exactly the first
  \<open>burst\<close> many pass (one, if the configured burst is not positive), whatever other identities do in
  between and however often the sweeper runs, as long as it runs within the idle time of ten minutes.
\<close>

theorem burst_per_identity:
  assumes "\<not> f64_le0 rps" "bursts_exactly lib rps (max 1 burst) t" "set (call_times i xs) \<subseteq> {t}"
    and "\<forall>seen t now. OpAllow i seen t \<in> set xs \<longrightarrow> OpSweep now \<in> set xs \<longrightarrow> now - 600000000000 \<le> seen"
  shows "decisions i (fst (limiter_run lib xs (NewLimiter rps burst []))) =
    replicate (min (length (call_times i xs)) (nat (max 1 burst))) True
    @ replicate (length (call_times i xs) - nat (max 1 burst)) False"
proof -
  have "call_times i xs = replicate (length (call_times i xs)) t"
    using assms(3) by (intro replicate_length_same [symmetric]) auto
  then have "lib_calls lib (call_times i xs) (rl_NewLimiter lib rps (max 1 burst)) =
      replicate (min (length (call_times i xs)) (nat (max 1 burst))) True
      @ replicate (length (call_times i xs) - nat (max 1 burst)) False"
    using assms(2) unfolding bursts_exactly_def by metis
  moreover have "decisions i (fst (limiter_run lib xs (NewLimiter rps burst []))) =
      lib_calls lib (call_times i xs) (rl_NewLimiter lib rps (max 1 burst))"
    using limiter_refines [of "NewLimiter rps burst []" i lib xs]
      own_decisions_busy [of i xs 600000000000 None lib rps "max 1 burst"] assms(1,4)
    by simp
  ultimately show ?thesis by simp
qed

text \<open>A bucket that refills one token per second.\<close>

definition ref_rate :: "(int \<times> int \<times> int) rate_lib" where
  "ref_rate = \<lparr>rl_NewLimiter = (\<lambda>rps b. (b, b, 0)),
     rl_Allow = (\<lambda>t (b, tokens, last). let have = min b (tokens + max 0 ((t - last) div 1000000000))
        in if 0 < have then (True, (b, have - 1, t)) else (False, (b, have, t)))\<rparr>"

lemma ref_rate_calls:
  "0 \<le> k \<Longrightarrow> k \<le> b \<Longrightarrow> lib_calls ref_rate (replicate n t) (b, k, t) =
     replicate (min n (nat k)) True @ replicate (n - nat k) False"
proof (induction n arbitrary: k)
  case 0
  then show ?case by simp
next
  case (Suc n)
  show ?case
  proof (cases "k = 0")
    case True
    with Suc show ?thesis by (simp add: ref_rate_def)
  next
    case False
    with Suc.prems have "nat k = Suc (nat (k - 1))" by simp
    with Suc.IH [of "k - 1"] Suc.prems False show ?thesis by (simp add: ref_rate_def)
  qed
qed

lemma ref_rate_bursts: "0 \<le> b \<Longrightarrow> bursts_exactly ref_rate rps b 0"
  using ref_rate_calls [of b b _ 0] by (simp add: bursts_exactly_def ref_rate_def)

theorem burst_per_identity_witness:
  "decisions ''p1'' (fst (limiter_run ref_rate
      [OpAllow ''p1'' 0 0, OpAllow ''p2'' 0 0, OpAllow ''p1'' 0 0, OpSweep 5, OpAllow ''p1'' 0 0]
      (NewLimiter (Finite 1 0) 2 []))) = [True, True, False]"
  using burst_per_identity [of "Finite 1 0" ref_rate 2 0 "''p1''"
      "[OpAllow ''p1'' 0 0, OpAllow ''p2'' 0 0, OpAllow ''p1'' 0 0, OpSweep 5, OpAllow ''p1'' 0 0]"]
    ref_rate_bursts [of "max 1 2" "Finite 1 0"]
  by (auto simp: numeral_2_eq_2)

text \<open>The identities that called at or after an instant.\<close>

definition callers_since :: "int \<Rightarrow> limiter_op list \<Rightarrow> string set" where
  "callers_since cutoff xs = {i. \<exists>seen t. OpAllow i seen t \<in> set xs \<and> cutoff \<le> seen}"

lemma limiter_run_append:
  "limiter_run lib (xs @ ys) l =
     (let (ds, l) = limiter_run lib xs l; (ds', l) = limiter_run lib ys l in (ds @ ds', l))"
  by (induction xs arbitrary: l) (auto split: prod.splits)

text \<open>Every bucket was last used by a call of the history.\<close>

definition buckets_seen :: "limiter_op list \<Rightarrow> 'b Limiter \<Rightarrow> bool" where
  "buckets_seen xs l \<longleftrightarrow> gomap_wf (lm_buckets l) \<and> lm_idleTTL l = 600000000000 \<and>
     (\<forall>(k, b) \<in> set (lm_buckets l). \<exists>t. OpAllow k (bk_lastSeen b) t \<in> set xs)"

lemma buckets_seen_step:
  assumes "buckets_seen xs l"
  shows "buckets_seen (xs @ [x]) (snd (limiter_step lib x l))"
proof -
  obtain ds l' where step: "limiter_step lib x l = (ds, l')" by (rule prod.exhaust)
  have wf: "gomap_wf (lm_buckets l)" using assms by (simp add: buckets_seen_def)
  have "\<forall>(k, b) \<in> set (lm_buckets l'). \<exists>t. OpAllow k (bk_lastSeen b) t \<in> set (xs @ [x])"
  proof (cases x)
    case (OpAllow i seen t)
    have "lm_buckets l' = lm_buckets l \<or>
        (\<exists>b. lm_buckets l' = AList.update i b (lm_buckets l) \<and> bk_lastSeen b = seen)"
      using step OpAllow
      by (cases "f64_le0 (lm_rps l)")
        (auto simp: Limiter_Allow_def Let_def split: prod.splits intro!: disjI2 exI conjI refl)
    then show ?thesis
      using assms set_update_subset [of i _ "lm_buckets l"] OpAllow by (fastforce simp: buckets_seen_def)
  next
    case (OpSweep now)
    then show ?thesis using assms step by (auto simp: buckets_seen_def Limiter_Sweep_def Let_def)
  qed
  with assms limiter_step_config [OF step wf] step show ?thesis by (simp add: buckets_seen_def)
qed

lemma buckets_seen_run:
  "buckets_seen xs (snd (limiter_run lib xs (NewLimiter rps burst [])))"
proof (induction xs rule: rev_induct)
  case Nil
  then show ?case by (simp add: buckets_seen_def)
next
  case (snoc x xs)
  from buckets_seen_step [OF this, of x lib] show ?case
    by (auto simp: limiter_run_append split: prod.splits)
qed

lemma swept_bucket:
  assumes "buckets_seen xs l" "(k, b) \<in> set (lm_buckets (snd (Limiter_Sweep now l)))"
  shows "k \<in> callers_since (now - 600000000000) xs"
  using assms by (fastforce simp: buckets_seen_def Limiter_Sweep_def Let_def callers_since_def)

text \<open>
  C27: memory. After a sweep the limiter keeps at most one bucket per identity that called during the
  last ten minutes before the sweep, whatever happened before; the result of \<open>Sweep\<close> is the
  number of buckets that are gone.
\<close>

theorem sweep_bounds_memory:
  "let l = snd (limiter_run lib xs (NewLimiter rps burst [])); (removed, l') = Limiter_Sweep now l
   in Limiter_Size l' \<le> int (card (callers_since (now - 600000000000) xs))
      \<and> removed = Limiter_Size l - Limiter_Size l'"
proof -
  let ?l = "snd (limiter_run lib xs (NewLimiter rps burst []))"
  let ?l' = "snd (Limiter_Sweep now ?l)"
  note inv = buckets_seen_run [of xs lib rps burst]
  have fin: "finite (callers_since (now - 600000000000) xs)"
  proof (rule finite_subset)
    show "callers_since (now - 600000000000) xs \<subseteq> (\<lambda>x. case x of OpAllow i _ _ \<Rightarrow> i | _ \<Rightarrow> '''') ` set xs"
      by (force simp: callers_since_def)
  qed simp
  have "gomap_wf (lm_buckets ?l')" using inv by (simp add: buckets_seen_def Limiter_Sweep_def Let_def)
  then have "length (lm_buckets ?l') = card (fst ` set (lm_buckets ?l'))"
    using distinct_card [of "map fst (lm_buckets ?l')"] by (simp add: gomap_wf_def)
  also have "\<dots> \<le> card (callers_since (now - 600000000000) xs)"
    using swept_bucket [OF inv] by (intro card_mono fin) auto
  finally have "length (lm_buckets ?l') \<le> card (callers_since (now - 600000000000) xs)" .
  moreover have "fst (Limiter_Sweep now ?l) = Limiter_Size ?l - Limiter_Size ?l'"
    using sum_length_filter_compl [of "\<lambda>(k, b). bk_lastSeen b < now - lm_idleTTL ?l" "lm_buckets ?l"]
    by (simp add: Limiter_Sweep_def Limiter_Size_def Let_def case_prod_unfold)
  ultimately show ?thesis by (simp add: Limiter_Size_def Let_def case_prod_unfold)
qed

section \<open>The middleware as a gate\<close>

lemma response_of_rate_limited:
  "response_of rate_limited = \<lparr>rsp_Status = 429,
     rsp_Header = [(''Retry-After'', ''1''), (''Content-Type'', ''application/json; charset=utf-8'')],
     rsp_Body = [JsonChunk rate_limited_body]\<rparr>"
  by (simp add: rate_limited_def rw_defs)

lemma identityOf_player:
  "identityOf (r\<lparr>rq_Auth := Some c, rq_Header := hd'\<rparr>) =
     (if cl_PlayerID c \<noteq> '''' then ''player:'' @ cl_PlayerID c else identityOf (r\<lparr>rq_Auth := None, rq_Header := hd'\<rparr>))"
  by (simp add: identityOf_def PlayerIDFrom_def ClaimsFrom_def Let_def split: option.split)

lemma identityOf_forwarded:
  assumes "rq_Auth r = None" "rq_Header r ''X-Forwarded-For'' = x @ CHR '','' # rest" "x \<noteq> ''''" "CHR '','' \<notin> set x"
  shows "identityOf r = ''ip:'' @ strings_TrimSpace x"
  using assms index_byte_append [OF assms(4), of rest]
  by (cases "length x") (auto simp: identityOf_def PlayerIDFrom_def ClaimsFrom_def)

text \<open>
  The middleware is a gate in front of the handler. A request that the limiter refuses is
  answered 429 with \<open>Retry-After: 1\<close> whatever the handler is, so the handler does not run; any other
  request is handled as if the middleware were not there, on the state in which its token is spent.
  The identity is the authenticated player when there is one, whatever proxy headers say; otherwise
  it is the first entry of \<open>X-Forwarded-For\<close> if that header is present, and so the client's choice.
\<close>

theorem RateLimit_gate:
  "(\<forall>h. RateLimit lib (Some f) now h r s =
      (let (ok, s') = limiter_allow lib f now (identityOf r) s in if ok then h r s' else (rate_limited, s')))
   \<and> rsp_Status (response_of rate_limited) = 429
   \<and> map_of (rsp_Header (response_of rate_limited)) ''Retry-After'' = Some ''1''
   \<and> identityOf (r\<lparr>rq_Auth := Some c, rq_Header := hd'\<rparr>) =
       (if cl_PlayerID c \<noteq> '''' then ''player:'' @ cl_PlayerID c else identityOf (r\<lparr>rq_Auth := None, rq_Header := hd'\<rparr>))
   \<and> identityOf (r\<lparr>rq_Auth := None, rq_Header := (rq_Header r)(''X-Forwarded-For'' := ''198.51.100.7, 10.0.0.1'')\<rparr>) =
       ''ip:198.51.100.7''"
proof -
  have "strings_TrimSpace ''198.51.100.7'' = ''198.51.100.7''" by code_simp
  with identityOf_forwarded [of "r\<lparr>rq_Auth := None, rq_Header := (rq_Header r)(''X-Forwarded-For'' := ''198.51.100.7, 10.0.0.1'')\<rparr>"
      "''198.51.100.7''" "'' 10.0.0.1''"]
  have "identityOf (r\<lparr>rq_Auth := None, rq_Header := (rq_Header r)(''X-Forwarded-For'' := ''198.51.100.7, 10.0.0.1'')\<rparr>) =
       ''ip:198.51.100.7''" by simp
  moreover have "\<forall>h. RateLimit lib (Some f) now h r s =
      (let (ok, s') = limiter_allow lib f now (identityOf r) s in if ok then h r s' else (rate_limited, s'))"
    by (simp add: RateLimit_def case_prod_unfold Let_def)
  ultimately show ?thesis
    using response_of_rate_limited identityOf_player [where r = r and c = c and hd' = hd'] by simp
qed

end
