(* ===== verification/Room.thy ===== *)
theory Room
  imports Go_Http Go_Float
begin

text \<open>
  The WebSocket room: the registry \<open>internal/room/room.go\<close> and the connection loop
  \<open>endpoint/ws.go\<close>. Decoding a frame (\<open>proto.Unmarshal\<close>) is a parameter. The loop of one connection
  is a function of the frames that it reads; several connections share the room, so their frames
  interleave: \<open>ws_step\<close> is one frame, or the end, of one connection.
\<close>

section \<open>The registry\<close>

record Member =
  mb_PlayerID :: string
  mb_X :: float64
  mb_Y :: float64

record Room =
  rm_members :: "(string, Member) gomap"

record Move =
  mv_PlayerId :: string
  mv_X :: float64
  mv_Y :: float64

definition NewRoom :: Room where
  "NewRoom = \<lparr>rm_members = []\<rparr>"

definition ApplyMove :: "Move \<Rightarrow> Room \<Rightarrow> Room" where
  "ApplyMove m r =
     (let ident = mv_PlayerId m;
          member = (case map_of (rm_members r) ident of
                      Some member \<Rightarrow> member
                    | None \<Rightarrow> \<lparr>mb_PlayerID = ident, mb_X = Finite 0 0, mb_Y = Finite 0 0\<rparr>)
      in r\<lparr>rm_members := AList.update ident (member\<lparr>mb_X := mv_X m, mb_Y := mv_Y m\<rparr>) (rm_members r)\<rparr>)"

definition Room_Remove :: "string \<Rightarrow> Room \<Rightarrow> Room" where
  "Room_Remove playerID r = r\<lparr>rm_members := AList.delete playerID (rm_members r)\<rparr>"

definition Room_Size :: "Room \<Rightarrow> int" where
  "Room_Size r = int (length (rm_members r))"

section \<open>One connection\<close>

datatype client_message = ClientMessage_Move Move | UnknownPayload

datatype ws_frame = BinaryFrame string | OtherFrame

text \<open>What one frame does to the room and to the connection's variable \<open>playerID\<close>.\<close>

definition ws_frame_step ::
  "(string \<Rightarrow> client_message option) \<Rightarrow> ws_frame \<Rightarrow> Room \<times> string \<Rightarrow> Room \<times> string" where
  "ws_frame_step unmarshal fr st =
     (case st of (room, playerID) \<Rightarrow>
       (case fr of
          OtherFrame \<Rightarrow> (room, playerID)
        | BinaryFrame data \<Rightarrow>
            (case unmarshal data of
               None \<Rightarrow> (room, playerID)
             | Some (ClientMessage_Move m) \<Rightarrow> (ApplyMove m room, mv_PlayerId m)
             | Some UnknownPayload \<Rightarrow> (room, playerID))))"

definition ws_leave :: "string \<Rightarrow> Room \<Rightarrow> Room" where
  "ws_leave playerID room = (if playerID \<noteq> '''' then Room_Remove playerID room else room)"

text \<open>The frames that arrive before the read error that ends the loop.\<close>

definition WSHandler_ServeHTTP ::
  "(string \<Rightarrow> client_message option) \<Rightarrow> bool \<Rightarrow> ws_frame list \<Rightarrow> Room \<Rightarrow> Room" where
  "WSHandler_ServeHTTP unmarshal accepted frames room =
     (if \<not> accepted then room
      else let (room, playerID) = fold (ws_frame_step unmarshal) frames (room, '''')
           in ws_leave playerID room)"

section \<open>Many connections\<close>

text \<open>The shared room, and the variable \<open>playerID\<close> of every open connection.\<close>

record ws_state =
  ws_room :: Room
  ws_conns :: "nat \<Rightarrow> string option"

datatype ws_event = Connect | Frame ws_frame | Disconnect

fun ws_step ::
  "(string \<Rightarrow> client_message option) \<Rightarrow> nat \<Rightarrow> ws_event \<Rightarrow> ws_state \<Rightarrow> ws_state option" where
  "ws_step unmarshal c Connect st =
     (if ws_conns st c = None then Some (st\<lparr>ws_conns := (ws_conns st)(c \<mapsto> '''')\<rparr>) else None)"
| "ws_step unmarshal c (Frame fr) st =
     (case ws_conns st c of
        None \<Rightarrow> None
      | Some playerID \<Rightarrow>
          (let (room, playerID) = ws_frame_step unmarshal fr (ws_room st, playerID)
           in Some \<lparr>ws_room = room, ws_conns = (ws_conns st)(c \<mapsto> playerID)\<rparr>))"
| "ws_step unmarshal c Disconnect st =
     (case ws_conns st c of
        None \<Rightarrow> None
      | Some playerID \<Rightarrow>
          Some \<lparr>ws_room = ws_leave playerID (ws_room st), ws_conns = (ws_conns st)(c := None)\<rparr>)"

definition ws_init :: ws_state where
  "ws_init = \<lparr>ws_room = NewRoom, ws_conns = (\<lambda>_. None)\<rparr>"

text \<open>
  The histories in which every event of a connection satisfies \<open>ok\<close>.
\<close>

inductive ws_reach ::
  "(string \<Rightarrow> client_message option) \<Rightarrow> (nat \<Rightarrow> ws_event \<Rightarrow> bool) \<Rightarrow> (nat \<times> ws_event) list \<Rightarrow> ws_state \<Rightarrow> bool"
  for unmarshal ok where
  start: "ws_reach unmarshal ok [] ws_init"
| step: "ws_reach unmarshal ok h st \<Longrightarrow> ok c e \<Longrightarrow> ws_step unmarshal c e st = Some st'
    \<Longrightarrow> ws_reach unmarshal ok (h @ [(c, e)]) st'"

section \<open>Lemmas\<close>

lemma members_ApplyMove [simp]:
  "map_of (rm_members (ApplyMove m r)) p =
     (if p = mv_PlayerId m
      then Some ((case map_of (rm_members r) p of Some mb \<Rightarrow> mb
          | None \<Rightarrow> \<lparr>mb_PlayerID = p, mb_X = Finite 0 0, mb_Y = Finite 0 0\<rparr>)\<lparr>mb_X := mv_X m, mb_Y := mv_Y m\<rparr>)
      else map_of (rm_members r) p)"
  by (auto simp: ApplyMove_def Let_def update_conv')

lemma members_Remove [simp]:
  "map_of (rm_members (Room_Remove q r)) p = (if p = q then None else map_of (rm_members r) p)"
  by (simp add: Room_Remove_def delete_conv')

definition room_wf :: "Room \<Rightarrow> bool" where
  "room_wf r \<longleftrightarrow> gomap_wf (rm_members r) \<and> (\<forall>p mb. map_of (rm_members r) p = Some mb \<longrightarrow> mb_PlayerID mb = p)"

lemma room_wf_ops [simp]:
  "room_wf NewRoom" "room_wf r \<Longrightarrow> room_wf (ApplyMove m r)" "room_wf r \<Longrightarrow> room_wf (Room_Remove p r)"
  "room_wf r \<Longrightarrow> room_wf (ws_leave p r)"
  by (auto simp: room_wf_def NewRoom_def ApplyMove_def Room_Remove_def ws_leave_def Let_def update_conv' delete_conv'
      split: option.splits if_splits)

lemma room_wf_frame: "room_wf r \<Longrightarrow> room_wf (fst (ws_frame_step u fr (r, p)))"
  by (auto simp: ws_frame_step_def split: ws_frame.splits option.splits client_message.splits)

lemma Room_Size_card: "room_wf r \<Longrightarrow> Room_Size r = int (card (dom (map_of (rm_members r))))"
  using distinct_card [of "map fst (rm_members r)"]
  by (simp add: room_wf_def gomap_wf_def Room_Size_def dom_map_of_conv_image_fst)

text \<open>The moves of a frame, and of a connection in a history.\<close>

fun move_of :: "(string \<Rightarrow> client_message option) \<Rightarrow> ws_event \<Rightarrow> Move option" where
  "move_of unmarshal (Frame (BinaryFrame data)) =
     (case unmarshal data of Some (ClientMessage_Move m) \<Rightarrow> Some m | _ \<Rightarrow> None)"
| "move_of unmarshal _ = None"

definition moves :: "(string \<Rightarrow> client_message option) \<Rightarrow> nat \<Rightarrow> (nat \<times> ws_event) list \<Rightarrow> Move list" where
  "moves unmarshal c h = List.map_filter (\<lambda>(c', e). if c' = c then move_of unmarshal e else None) h"

lemma moves_snoc: "moves u c (h @ [(c', e)]) =
  moves u c h @ (if c' = c then (case move_of u e of Some m \<Rightarrow> [m] | None \<Rightarrow> []) else [])"
  by (auto simp: moves_def map_filter_def split: option.splits)

lemma ws_step_Frame:
  "ws_step u c (Frame fr) st =
     (case ws_conns st c of
        None \<Rightarrow> None
      | Some p \<Rightarrow>
          (case move_of u (Frame fr) of
             None \<Rightarrow> Some (st\<lparr>ws_conns := (ws_conns st)(c \<mapsto> p)\<rparr>)
           | Some m \<Rightarrow> Some \<lparr>ws_room = ApplyMove m (ws_room st), ws_conns = (ws_conns st)(c \<mapsto> mv_PlayerId m)\<rparr>))"
  by (cases fr) (auto simp: ws_frame_step_def split: option.splits client_message.splits)

text \<open>The connections keep to one player each.\<close>

definition sticks_to :: "(string \<Rightarrow> client_message option) \<Rightarrow> (nat \<Rightarrow> string) \<Rightarrow> nat \<Rightarrow> ws_event \<Rightarrow> bool" where
  "sticks_to u own c e \<longleftrightarrow> (case move_of u e of Some m \<Rightarrow> mv_PlayerId m = own c | None \<Rightarrow> True)"

text \<open>
  The invariant: a connection holds either nothing or its own player; the room holds exactly the
  players of the connections, at their last positions.
\<close>

definition tracks ::
  "(string \<Rightarrow> client_message option) \<Rightarrow> (nat \<Rightarrow> string) \<Rightarrow> (nat \<times> ws_event) list \<Rightarrow> ws_state \<Rightarrow> bool" where
  "tracks u own h st \<longleftrightarrow>
     room_wf (ws_room st) \<and>
     (\<forall>c p. ws_conns st c = Some p \<longrightarrow> p = '''' \<or> p = own c) \<and>
     (\<forall>p. map_of (rm_members (ws_room st)) p \<noteq> None \<longrightarrow> (\<exists>c. p = own c \<and> ws_conns st c = Some (own c))) \<and>
     (\<forall>c. ws_conns st c = Some (own c) \<longrightarrow> moves u c h \<noteq> [] \<and>
        map_of (rm_members (ws_room st)) (own c) =
          Some \<lparr>mb_PlayerID = own c, mb_X = mv_X (last (moves u c h)), mb_Y = mv_Y (last (moves u c h))\<rparr>)"

lemma tracks_move:
  assumes "tracks u own h st" "inj own" "move_of u e = Some m" "mv_PlayerId m = own c"
  shows "tracks u own (h @ [(c, e)])
    \<lparr>ws_room = ApplyMove m (ws_room st), ws_conns = (ws_conns st)(c \<mapsto> own c)\<rparr>"
proof -
  have eq: "own c' = own c \<longleftrightarrow> c' = c" for c' using assms(2) by (simp add: inj_eq)
  have old: "\<And>c p. ws_conns st c = Some p \<Longrightarrow> p = '''' \<or> p = own c"
    "\<And>p mb. map_of (rm_members (ws_room st)) p = Some mb \<Longrightarrow> \<exists>c. p = own c \<and> ws_conns st c = Some (own c)"
    "room_wf (ws_room st)"
    using assms(1) unfolding tracks_def by blast+
  have mem: "map_of (rm_members (ApplyMove m (ws_room st))) (own c) =
      Some \<lparr>mb_PlayerID = own c, mb_X = mv_X m, mb_Y = mv_Y m\<rparr>"
    using assms(4) old(3) by (auto simp: room_wf_def split: option.splits)
  have c2: "p = '''' \<or> p = own c'" if "((ws_conns st)(c \<mapsto> own c)) c' = Some p" for c' p
    using that old(1) by (auto split: if_splits)
  have c3: "\<exists>c'. p = own c' \<and> ((ws_conns st)(c \<mapsto> own c)) c' = Some (own c')"
    if "map_of (rm_members (ApplyMove m (ws_room st))) p \<noteq> None" for p
  proof (cases "p = own c")
    case False
    with that assms(4) old(2) obtain c' where "p = own c'" "ws_conns st c' = Some (own c')" by auto
    with False show ?thesis by (intro exI [of _ c']) auto
  qed auto
  have c4: "moves u c' (h @ [(c, e)]) \<noteq> [] \<and> map_of (rm_members (ApplyMove m (ws_room st))) (own c') =
      Some \<lparr>mb_PlayerID = own c', mb_X = mv_X (last (moves u c' (h @ [(c, e)]))),
        mb_Y = mv_Y (last (moves u c' (h @ [(c, e)])))\<rparr>"
    if "((ws_conns st)(c \<mapsto> own c)) c' = Some (own c')" for c'
  proof (cases "c' = c")
    case True
    with mem assms(3) show ?thesis by (simp add: moves_snoc)
  next
    case False
    with that assms(1,4) eq [of c'] show ?thesis by (auto simp: tracks_def moves_snoc)
  qed
  show ?thesis using c2 c3 c4 old(3) unfolding tracks_def by simp
qed

lemma tracks_leave:
  assumes "tracks u own h st" "inj own" "own c \<noteq> ''''" "ws_conns st c = Some p" "move_of u e = None"
  shows "tracks u own (h @ [(c, e)]) \<lparr>ws_room = ws_leave p (ws_room st), ws_conns = (ws_conns st)(c := None)\<rparr>"
proof -
  have eq: "own c' = own c \<longleftrightarrow> c' = c" for c' using assms(2) by (simp add: inj_eq)
  have p: "p = '''' \<or> p = own c" and wf: "room_wf (ws_room st)"
    using assms(1,4) unfolding tracks_def by blast+
  have mem: "map_of (rm_members (ws_leave p (ws_room st))) q =
      (if p \<noteq> '''' \<and> q = p then None else map_of (rm_members (ws_room st)) q)" for q
    by (simp add: ws_leave_def)
  have c3: "\<exists>c'. q = own c' \<and> ((ws_conns st)(c := None)) c' = Some (own c')"
    if "map_of (rm_members (ws_leave p (ws_room st))) q \<noteq> None" for q
  proof -
    from that have q: "map_of (rm_members (ws_room st)) q \<noteq> None" "p = '''' \<or> q \<noteq> p"
      by (auto simp: mem split: if_splits)
    then obtain c' where c': "q = own c'" "ws_conns st c' = Some (own c')"
      using assms(1) unfolding tracks_def by blast
    with q(2) assms(3,4) have "c' \<noteq> c" by auto
    with c' show ?thesis by (intro exI [of _ c']) simp
  qed
  have c4: "moves u c' (h @ [(c, e)]) \<noteq> [] \<and> map_of (rm_members (ws_leave p (ws_room st))) (own c') =
      Some \<lparr>mb_PlayerID = own c', mb_X = mv_X (last (moves u c' (h @ [(c, e)]))),
        mb_Y = mv_Y (last (moves u c' (h @ [(c, e)])))\<rparr>"
    if "((ws_conns st)(c := None)) c' = Some (own c')" for c'
    using that assms(1,5) p eq [of c'] by (auto simp: tracks_def moves_snoc mem split: if_splits)
  show ?thesis using assms(1) c3 c4 wf unfolding tracks_def by simp
qed

lemma tracks_keep:
  assumes "tracks u own h st" "move_of u e = None" "p = '''' \<and> ws_conns st c = None \<or> ws_conns st c = Some p"
    "own c \<noteq> ''''"
  shows "tracks u own (h @ [(c, e)]) (st\<lparr>ws_conns := (ws_conns st)(c \<mapsto> p)\<rparr>)"
proof -
  have c3: "\<exists>c'. q = own c' \<and> ((ws_conns st)(c \<mapsto> p)) c' = Some (own c')"
    if q: "map_of (rm_members (ws_room st)) q \<noteq> None" for q
  proof -
    from q obtain c' where c': "q = own c'" "ws_conns st c' = Some (own c')"
      using assms(1) unfolding tracks_def by blast
    with assms(3,4) show ?thesis by (intro exI [of _ c']) auto
  qed
  have c4: "ws_conns st c' = Some (own c')" if "((ws_conns st)(c \<mapsto> p)) c' = Some (own c')" for c'
    using that assms(3,4) by (auto split: if_splits)
  show ?thesis using assms c3 c4 unfolding tracks_def by (auto simp: moves_snoc)
qed

lemma tracks_step:
  assumes "tracks u own h st" "inj own" "own c \<noteq> ''''" "sticks_to u own c e" "ws_step u c e st = Some st'"
  shows "tracks u own (h @ [(c, e)]) st'"
proof (cases e)
  case Connect
  with assms(5) have "ws_conns st c = None" "st' = st\<lparr>ws_conns := (ws_conns st)(c \<mapsto> '''')\<rparr>"
    by (auto split: if_splits)
  with tracks_keep [OF assms(1), of e "''''" c] assms(3) Connect show ?thesis by simp
next
  case (Frame fr)
  then obtain p where p: "ws_conns st c = Some p" using assms(5) by (auto split: option.splits)
  show ?thesis
  proof (cases "move_of u e")
    case None
    with assms(5) p Frame have "st' = st\<lparr>ws_conns := (ws_conns st)(c \<mapsto> p)\<rparr>"
      by (simp add: ws_step_Frame del: ws_step.simps)
    with tracks_keep [OF assms(1) None, of p c] p assms(3) show ?thesis by simp
  next
    case (Some m)
    with assms(4) have own: "mv_PlayerId m = own c" by (simp add: sticks_to_def)
    with assms(5) p Frame Some
    have "st' = \<lparr>ws_room = ApplyMove m (ws_room st), ws_conns = (ws_conns st)(c \<mapsto> own c)\<rparr>"
      by (simp add: ws_step_Frame del: ws_step.simps)
    with tracks_move [OF assms(1,2) Some own] show ?thesis by simp
  qed
next
  case Disconnect
  with assms(5) obtain p where "ws_conns st c = Some p"
      "st' = \<lparr>ws_room = ws_leave p (ws_room st), ws_conns = (ws_conns st)(c := None)\<rparr>"
    by (auto split: option.splits)
  with tracks_leave [OF assms(1-3)] Disconnect show ?thesis by simp
qed

lemma tracks_reach:
  assumes "ws_reach u (sticks_to u own) h st" "inj own" "\<forall>c. own c \<noteq> ''''"
  shows "tracks u own h st"
  using assms(1)
proof (induction rule: ws_reach.induct)
  case start
  then show ?case by (simp add: tracks_def ws_init_def NewRoom_def room_wf_def)
next
  case (step h st c e st')
  with assms(2,3) tracks_step show ?case by blast
qed

lemma room_of_tracks:
  assumes inv: "tracks u own h st" and inj: "inj own"
  shows "dom (map_of (rm_members (ws_room st))) = own ` {c. ws_conns st c = Some (own c)}"
    and "Room_Size (ws_room st) = int (card {c. ws_conns st c = Some (own c)})"
proof -
  show dom: "dom (map_of (rm_members (ws_room st))) = own ` {c. ws_conns st c = Some (own c)}"
    using inv unfolding tracks_def by (fastforce simp: dom_def image_iff)
  have "card (own ` {c. ws_conns st c = Some (own c)}) = card {c. ws_conns st c = Some (own c)}"
    using inj by (intro card_image) (auto intro: inj_on_subset)
  with dom show "Room_Size (ws_room st) = int (card {c. ws_conns st c = Some (own c)})"
    using inv Room_Size_card [of "ws_room st"] by (simp add: tracks_def)
qed

text \<open>A connection that runs while no other does is the handler's function of its frames.\<close>

fun ws_run :: "(string \<Rightarrow> client_message option) \<Rightarrow> nat \<Rightarrow> ws_event list \<Rightarrow> ws_state \<Rightarrow> ws_state option" where
  "ws_run u c [] st = Some st"
| "ws_run u c (e # es) st = (case ws_step u c e st of None \<Rightarrow> None | Some st \<Rightarrow> ws_run u c es st)"

lemma ws_run_append:
  "ws_run u c (xs @ ys) st = (case ws_run u c xs st of None \<Rightarrow> None | Some st \<Rightarrow> ws_run u c ys st)"
  by (induction xs arbitrary: st) (auto split: option.splits)

lemma ws_run_frames:
  "ws_conns st c = Some p \<Longrightarrow> fold (ws_frame_step u) frames (ws_room st, p) = (room, q) \<Longrightarrow>
     ws_run u c (map Frame frames) st = Some \<lparr>ws_room = room, ws_conns = (ws_conns st)(c \<mapsto> q)\<rparr>"
proof (induction frames arbitrary: st p)
  case Nil
  then show ?case by (auto simp: fun_upd_idem)
next
  case (Cons fr frames)
  obtain room1 p1 where one: "ws_frame_step u fr (ws_room st, p) = (room1, p1)" by (rule prod.exhaust)
  from Cons.prems one Cons.IH [of "\<lparr>ws_room = room1, ws_conns = (ws_conns st)(c \<mapsto> p1)\<rparr>" p1]
  show ?case by (simp add: fun_eq_iff)
qed

lemma ws_run_alone:
  assumes "ws_conns st c = None"
  shows "ws_run u c (Connect # map Frame frames @ [Disconnect]) st =
    Some (st\<lparr>ws_room := WSHandler_ServeHTTP u True frames (ws_room st)\<rparr>)"
proof -
  obtain room q where f: "fold (ws_frame_step u) frames (ws_room st, '''') = (room, q)" by (rule prod.exhaust)
  from ws_run_frames [of "st\<lparr>ws_conns := (ws_conns st)(c \<mapsto> '''')\<rparr>" c "''''" u frames room q] f assms
  show ?thesis by (auto simp: ws_run_append WSHandler_ServeHTTP_def fun_upd_idem)
qed

section \<open>Properties\<close>

text \<open>
  C34: the room tracks the connections. In every interleaving of connections, as long as every connection
  sends moves of one nonempty player of its own, the room holds exactly the players of the connections
  that are open and have moved since they were opened, each at the position of its last move, the
  reported size is the number of these connections, and the room is empty once all have closed.
\<close>

theorem room_tracks_connections:
  assumes "ws_reach u (sticks_to u own) h st" "inj own" "\<forall>c. own c \<noteq> ''''"
  shows "dom (map_of (rm_members (ws_room st))) = own ` {c. ws_conns st c = Some (own c)}
    \<and> (\<forall>c. ws_conns st c = Some (own c) \<longrightarrow>
        map_of (rm_members (ws_room st)) (own c) =
          Some \<lparr>mb_PlayerID = own c, mb_X = mv_X (last (moves u c h)), mb_Y = mv_Y (last (moves u c h))\<rparr>)
    \<and> Room_Size (ws_room st) = int (card {c. ws_conns st c = Some (own c)})
    \<and> ((\<forall>c. ws_conns st c = None) \<longrightarrow> Room_Size (ws_room st) = 0)"
proof -
  have inv: "tracks u own h st" by (rule tracks_reach [OF assms])
  show ?thesis using room_of_tracks [OF inv assms(2)] inv by (simp add: tracks_def)
qed

theorem room_tracks_connections_witness:
  "let u = (\<lambda>data. Some (ClientMessage_Move \<lparr>mv_PlayerId = data, mv_X = Finite 3 0, mv_Y = Finite 4 0\<rparr>));
       own = (\<lambda>c. replicate (Suc c) CHR ''p'')
   in \<exists>st. ws_reach u (sticks_to u own) [(0, Connect), (1, Connect), (1, Frame (BinaryFrame ''pp''))] st
        \<and> Room_Size (ws_room st) = 1"
proof -
  let ?u = "\<lambda>data. Some (ClientMessage_Move \<lparr>mv_PlayerId = data, mv_X = Finite 3 0, mv_Y = Finite 4 0\<rparr>)"
  let ?own = "\<lambda>c. replicate (Suc c) CHR ''p''"
  let ?s1 = "\<lparr>ws_room = NewRoom, ws_conns = (\<lambda>_. None)(0 \<mapsto> '''')\<rparr>"
  let ?s2 = "\<lparr>ws_room = NewRoom, ws_conns = (\<lambda>_. None)(0 \<mapsto> '''', 1 \<mapsto> '''')\<rparr>"
  let ?s3 = "\<lparr>ws_room = ApplyMove \<lparr>mv_PlayerId = ''pp'', mv_X = Finite 3 0, mv_Y = Finite 4 0\<rparr> NewRoom,
     ws_conns = (\<lambda>_. None)(0 \<mapsto> '''', 1 \<mapsto> ''pp'')\<rparr>"
  have "ws_reach ?u (sticks_to ?u ?own) ([] @ [(0, Connect)]) ?s1"
    by (rule ws_reach.step [OF ws_reach.start]) (simp_all add: sticks_to_def ws_init_def)
  then have "ws_reach ?u (sticks_to ?u ?own) (([] @ [(0, Connect)]) @ [(1, Connect)]) ?s2"
    by (rule ws_reach.step) (simp_all add: sticks_to_def)
  then have reach: "ws_reach ?u (sticks_to ?u ?own) ((([] @ [(0, Connect)]) @ [(1, Connect)]) @ [(1, Frame (BinaryFrame ''pp''))]) ?s3"
    by (rule ws_reach.step) (simp_all add: sticks_to_def ws_frame_step_def)
  have "inj ?own" by (rule injI) (auto dest: arg_cong [of _ _ length])
  from room_tracks_connections [OF reach this]
  have "Room_Size (ws_room ?s3) = int (card {c. ws_conns ?s3 c = Some (?own c)})" by simp
  also have "{c. ws_conns ?s3 c = Some (?own c)} = {1}" by auto
  finally have "Room_Size (ws_room ?s3) = 1" by simp
  with reach show ?thesis unfolding Let_def by (intro exI [of _ ?s3]) simp
qed

lemma ws_frames_fold:
  "fold (ws_frame_step u) frames (room, p) =
     (let ms = List.map_filter (\<lambda>fr. move_of u (Frame fr)) frames
      in (fold ApplyMove ms room, if ms = [] then p else mv_PlayerId (last ms)))"
proof (induction frames arbitrary: room p)
  case Nil
  then show ?case by (simp add: map_filter_def)
next
  case (Cons fr frames)
  have "ws_frame_step u fr (room, p) =
      (case move_of u (Frame fr) of None \<Rightarrow> (room, p) | Some m \<Rightarrow> (ApplyMove m room, mv_PlayerId m))"
    by (cases fr) (auto simp: ws_frame_step_def split: option.splits client_message.splits)
  with Cons.IH show ?case by (simp add: map_filter_simps Let_def split: option.splits)
qed

lemma dom_ApplyMoves:
  "dom (map_of (rm_members (fold ApplyMove ms room))) = dom (map_of (rm_members room)) \<union> mv_PlayerId ` set ms"
  by (induction ms arbitrary: room) (auto simp: dom_def split: if_splits)

text \<open>
  What a connection leaves behind. When a connection that ran alone has ended, the room has gained
  every player that the connection moved except the last one, who is removed, and unless that last one
  is the empty player. A connection that moves two players leaves the first in the room for good.
\<close>

theorem connection_leaves_behind:
  "dom (map_of (rm_members (WSHandler_ServeHTTP u True frames room))) =
     (let ids = map mv_PlayerId (List.map_filter (\<lambda>fr. move_of u (Frame fr)) frames)
      in (dom (map_of (rm_members room)) \<union> set ids) - (if ids = [] \<or> last ids = '''' then {} else {last ids}))"
proof -
  define ms where "ms = List.map_filter (\<lambda>fr. move_of u (Frame fr)) frames"
  have leave: "dom (map_of (rm_members (ws_leave p r))) = dom (map_of (rm_members r)) - (if p = '''' then {} else {p})" for p r
    by (auto simp: ws_leave_def dom_def split: if_splits)
  show ?thesis
    unfolding WSHandler_ServeHTTP_def ws_frames_fold ms_def [symmetric]
    by (auto simp: Let_def leave dom_ApplyMoves last_map)
qed

end
