(* ===== verification/Lifecycle.thy ===== *)
theory Lifecycle
  imports Room Apperror Go_World
begin

text \<open>
  The runtime flags \<open>internal/lifecycle\<close> and the small endpoints that read or set them: health probes
  (\<open>endpoint/health.go\<close>), the AOI toggle (\<open>endpoint/optimize.go\<close>), the JSON metrics
  (\<open>endpoint/metrics.go\<close>), the values of the two Prometheus gauges (\<open>endpoint/prometheus.go\<close>) and the
  request metrics middleware (\<open>endpoint/middleware.go\<close>). An \<open>atomic.Bool\<close> is a boolean field; a handler works
  on the fields of the server's state that it was given.
\<close>

section \<open>Flags\<close>

record Readiness =
  rd_ready :: bool

definition NewReadiness :: Readiness where
  "NewReadiness = \<lparr>rd_ready = True\<rparr>"

definition Readiness_Ready :: "Readiness \<Rightarrow> bool" where
  "Readiness_Ready r = rd_ready r"

definition SetDraining :: "Readiness \<Rightarrow> Readiness" where
  "SetDraining r = r\<lparr>rd_ready := False\<rparr>"

record Optimize =
  op_on :: bool

definition Optimize_On :: "Optimize \<Rightarrow> bool" where
  "Optimize_On o' = op_on o'"

definition Optimize_Set :: "bool \<Rightarrow> Optimize \<Rightarrow> Optimize" where
  "Optimize_Set v o' = o'\<lparr>op_on := v\<rparr>"

section \<open>Health probes\<close>

definition HealthHandler_Live :: "'s handler" where
  "HealthHandler_Live r s = ([WriteHeader 200], s)"

definition HealthHandler_Ready :: "('s \<Rightarrow> Readiness) option \<Rightarrow> 's handler" where
  "HealthHandler_Ready state r s =
     (case state of
        Some get \<Rightarrow>
          if \<not> Readiness_Ready (get s)
          then ([HeaderSet ''Content-Type'' ''application/json'', WriteHeader 503, Write (RawChunk ''{\"ready\":false}'')], s)
          else ([WriteHeader 200], s)
      | None \<Rightarrow> ([WriteHeader 200], s))"

section \<open>The toggle\<close>

record optimizeReq =
  oq_On :: bool

definition decode_optimizeReq :: "json option \<Rightarrow> optimizeReq option" where
  "decode_optimizeReq body =
     (case json_members body of
        None \<Rightarrow> None
      | Some ms \<Rightarrow> (let (on, ok) = decode_field ''on'' dec_bool False ms in if ok then Some \<lparr>oq_On = on\<rparr> else None))"

definition OptimizeHandler_ServeHTTP :: "('s, Optimize) field \<Rightarrow> 's handler" where
  "OptimizeHandler_ServeHTTP f r s =
     (case decode_optimizeReq (rq_Body r) of
        None \<Rightarrow> (WriteJSON (Validation ''invalid body (expected {\"on\": bool})'' []), s)
      | Some req \<Rightarrow> ([WriteHeader 204], fput f (Optimize_Set (oq_On req) (fget f s)) s))"

section \<open>Metrics\<close>

definition MetricsHandler_Get :: "('s \<Rightarrow> Room) \<Rightarrow> ('s \<Rightarrow> Optimize) \<Rightarrow> 's handler" where
  "MetricsHandler_Get room opt r s =
     (writeJSON (JObj [(''connectedPlayers'', JInt (Room_Size (room s))), (''optimized'', JBool (Optimize_On (opt s))),
        (''tps'', JInt 0)]), s)"

text \<open>The functions behind the two gauges.\<close>

definition gauge_connected_players :: "Room \<Rightarrow> float64" where
  "gauge_connected_players rm = f64_of_int (Room_Size rm)"

definition gauge_optimize_on :: "Optimize \<Rightarrow> float64" where
  "gauge_optimize_on opt = (if Optimize_On opt then Finite 1 0 else Finite 0 0)"

section \<open>Request metrics\<close>

record observation =
  ob_method :: string
  ob_path :: string
  ob_status :: string
  ob_duration :: int

text \<open>\<open>ww.Status()\<close> of the wrapped writer: zero until a header has been sent.\<close>

definition wrapped_Status :: "rw_op list \<Rightarrow> nat" where
  "wrapped_Status ops = (case rw_sent (rw_run ops new_rw) of Some (code, h) \<Rightarrow> code | None \<Rightarrow> 0)"

text \<open>\<open>routePattern\<close> is what chi has matched once the inner handler has returned.\<close>

definition RequestMetrics ::
  "('s, observation list) field \<Rightarrow> ('s \<Rightarrow> int \<times> 's) \<Rightarrow> (request \<Rightarrow> string) \<Rightarrow> 's handler \<Rightarrow> 's handler" where
  "RequestMetrics hist now routePattern next r s =
     (let (start, s) = now s; (ops, s) = next r s;
          pattern = routePattern r; pattern = (if pattern = '''' then ''(unknown)'' else pattern);
          (t, s) = now s;
          ob = \<lparr>ob_method = rq_Method r, ob_path = pattern, ob_status = itoa_nat (wrapped_Status ops), ob_duration = t - start\<rparr>
      in (ops, fput hist (fget hist s @ [ob]) s))"

section \<open>Lemmas\<close>

lemma response_of_Ready:
  "response_of (fst (HealthHandler_Ready (Some get) r s)) =
     (if rd_ready (get s) then \<lparr>rsp_Status = 200, rsp_Header = [], rsp_Body = []\<rparr>
      else \<lparr>rsp_Status = 503, rsp_Header = [(''Content-Type'', ''application/json'')],
        rsp_Body = [RawChunk ''{\"ready\":false}'']\<rparr>)"
  by (simp add: HealthHandler_Ready_def Readiness_Ready_def rw_defs)

lemma gauge_exact: "Room_Size r < 2 ^ 53 \<Longrightarrow> gauge_connected_players r = Finite (Room_Size r) 0"
  by (simp add: gauge_connected_players_def f64_of_int_exact Room_Size_def)

text \<open>A response that was never started is counted under status 0, not under the 200 the client sees.\<close>

lemma wrapped_Status_sent:
  "wrapped_Status ops = (if rw_sent (rw_run ops new_rw) = None then 0 else rsp_Status (response_of ops))"
  by (auto simp: wrapped_Status_def response_of_def rw_finish_def split: option.splits)

end
