(* ===== verification/Config.thy ===== *)
theory Config
  imports Go_Float
begin

text \<open>
  \<open>internal/config/config.go\<close>: the server's settings from environment variables. The environment is
  \<open>os.Getenv\<close> (the empty string when a variable is not set). The parsers of durations and floats and the
  formatting of values in error messages are parameters; \<open>strconv.Atoi\<close> is the one of the prelude.
\<close>

section \<open>Settings\<close>

record Config =
  cf_Listen :: string
  cf_LogLevel :: string
  cf_ShutdownTimeout :: int
  cf_RequestTimeout :: int
  cf_MySQLDSN :: string
  cf_RedisAddr :: string
  cf_AuthSecret :: string
  cf_AuthTokenTTL :: int
  cf_RateLimitRPS :: float64
  cf_RateLimitBurst :: int
  cf_IdempotencyTTL :: int
  cf_BattleImpl :: string

record text_lib =
  tl_ParseDuration :: "string \<Rightarrow> int option"
  tl_ParseFloat :: "string \<Rightarrow> float64 option"
  tl_quote :: "string \<Rightarrow> string"
  tl_duration :: "int \<Rightarrow> string"
  tl_float :: "float64 \<Rightarrow> string"
  tl_int :: "int \<Rightarrow> string"

definition getEnv :: "(string \<Rightarrow> string) \<Rightarrow> string \<Rightarrow> string \<Rightarrow> string" where
  "getEnv env key dflt = (let v = env key in if v \<noteq> '''' then v else dflt)"

definition getDurationEnv :: "text_lib \<Rightarrow> (string \<Rightarrow> string) \<Rightarrow> string \<Rightarrow> int \<Rightarrow> int" where
  "getDurationEnv L env key dflt =
     (let raw = env key
      in if raw = '''' then dflt
         else case strconv_Atoi raw of
                Some n \<Rightarrow> int64 (n * 1000000000)
              | None \<Rightarrow> (case tl_ParseDuration L raw of Some d \<Rightarrow> d | None \<Rightarrow> dflt))"

definition getIntEnv :: "(string \<Rightarrow> string) \<Rightarrow> string \<Rightarrow> int \<Rightarrow> int" where
  "getIntEnv env key dflt =
     (let raw = env key
      in if raw = '''' then dflt else case strconv_Atoi raw of Some n \<Rightarrow> n | None \<Rightarrow> dflt)"

definition getFloatEnv :: "text_lib \<Rightarrow> (string \<Rightarrow> string) \<Rightarrow> string \<Rightarrow> float64 \<Rightarrow> float64" where
  "getFloatEnv L env key dflt =
     (let raw = env key
      in if raw = '''' then dflt else case tl_ParseFloat L raw of Some f \<Rightarrow> f | None \<Rightarrow> dflt)"

definition Config_validate :: "text_lib \<Rightarrow> Config \<Rightarrow> go_error option" where
  "Config_validate L c =
     (if cf_LogLevel c \<notin> {''debug'', ''info'', ''warn'', ''error''}
        then Some (ErrorString (''invalid LOG_LEVEL '' @ tl_quote L (cf_LogLevel c) @ '' (want debug|info|warn|error)''))
      else if cf_ShutdownTimeout c \<le> 0
        then Some (ErrorString (''SHUTDOWN_TIMEOUT must be > 0, got '' @ tl_duration L (cf_ShutdownTimeout c)))
      else if cf_RequestTimeout c \<le> 0
        then Some (ErrorString (''REQUEST_TIMEOUT must be > 0, got '' @ tl_duration L (cf_RequestTimeout c)))
      else if cf_AuthTokenTTL c \<le> 0
        then Some (ErrorString (''AUTH_TOKEN_TTL must be > 0, got '' @ tl_duration L (cf_AuthTokenTTL c)))
      else if f64_lt0 (cf_RateLimitRPS c)
        then Some (ErrorString (''RATE_LIMIT_RPS must be >= 0, got '' @ tl_float L (cf_RateLimitRPS c)))
      else if cf_RateLimitBurst c \<le> 0
        then Some (ErrorString (''RATE_LIMIT_BURST must be > 0, got '' @ tl_int L (cf_RateLimitBurst c)))
      else if cf_IdempotencyTTL c \<le> 0
        then Some (ErrorString (''IDEMPOTENCY_TTL must be > 0, got '' @ tl_duration L (cf_IdempotencyTTL c)))
      else None)"

definition Load :: "text_lib \<Rightarrow> (string \<Rightarrow> string) \<Rightarrow> Config result" where
  "Load L env =
     (let cfg = \<lparr>cf_Listen = getEnv env ''LISTEN_ADDR'' '':5050'',
                 cf_LogLevel = getEnv env ''LOG_LEVEL'' ''info'',
                 cf_ShutdownTimeout = getDurationEnv L env ''SHUTDOWN_TIMEOUT'' 15000000000,
                 cf_RequestTimeout = getDurationEnv L env ''REQUEST_TIMEOUT'' 30000000000,
                 cf_MySQLDSN = env ''MYSQL_DSN'',
                 cf_RedisAddr = env ''REDIS_ADDR'',
                 cf_AuthSecret = env ''AUTH_SECRET'',
                 cf_AuthTokenTTL = getDurationEnv L env ''AUTH_TOKEN_TTL'' 900000000000,
                 cf_RateLimitRPS = getFloatEnv L env ''RATE_LIMIT_RPS'' (Finite 10 0),
                 cf_RateLimitBurst = getIntEnv env ''RATE_LIMIT_BURST'' 20,
                 cf_IdempotencyTTL = getDurationEnv L env ''IDEMPOTENCY_TTL'' 300000000000,
                 cf_BattleImpl = getEnv env ''BATTLE_IMPL'' ''naive''\<rparr>
      in case Config_validate L cfg of Some err \<Rightarrow> Inl err | None \<Rightarrow> Inr cfg)"

section \<open>Well-formed settings\<close>

text \<open>The type invariant of a loaded configuration.\<close>

definition config_wf :: "Config \<Rightarrow> bool" where
  "config_wf c \<longleftrightarrow>
     cf_Listen c \<noteq> '''' \<and> cf_LogLevel c \<in> {''debug'', ''info'', ''warn'', ''error''} \<and>
     (\<forall>d \<in> {cf_ShutdownTimeout c, cf_RequestTimeout c, cf_AuthTokenTTL c, cf_IdempotencyTTL c}. 0 < d \<and> in_int64 d) \<and>
     \<not> f64_lt0 (cf_RateLimitRPS c) \<and> 0 < cf_RateLimitBurst c \<and> in_int64 (cf_RateLimitBurst c) \<and>
     cf_BattleImpl c \<noteq> ''''"

text \<open>The library yields durations of 64 bits.\<close>

definition durations_fit :: "text_lib \<Rightarrow> bool" where
  "durations_fit L \<longleftrightarrow> (\<forall>s d. tl_ParseDuration L s = Some d \<longrightarrow> in_int64 d)"

lemma getDurationEnv_in_int64:
  "durations_fit L \<Longrightarrow> in_int64 dflt \<Longrightarrow> in_int64 (getDurationEnv L env key dflt)"
  by (auto simp: getDurationEnv_def durations_fit_def Let_def split: option.splits)

lemma getIntEnv_in_int64: "in_int64 dflt \<Longrightarrow> in_int64 (getIntEnv env key dflt)"
  by (auto simp: getIntEnv_def Let_def dest: strconv_Atoi_in_int64 split: option.splits)

lemma getEnv_nonempty: "dflt \<noteq> '''' \<Longrightarrow> getEnv env key dflt \<noteq> ''''"
  by (simp add: getEnv_def Let_def)

lemma validate_None:
  "Config_validate L c = None \<longleftrightarrow>
     cf_LogLevel c \<in> {''debug'', ''info'', ''warn'', ''error''} \<and> 0 < cf_ShutdownTimeout c \<and> 0 < cf_RequestTimeout c \<and>
     0 < cf_AuthTokenTTL c \<and> \<not> f64_lt0 (cf_RateLimitRPS c) \<and> 0 < cf_RateLimitBurst c \<and> 0 < cf_IdempotencyTTL c"
  unfolding Config_validate_def by (simp add: not_le)

lemma Load_cases:
  "Load L env = Inr cfg \<Longrightarrow> Config_validate L cfg = None"
  by (auto simp: Load_def Let_def split: option.splits)

lemma Load_fields:
  assumes "Load L env = Inr cfg"
  shows "cf_Listen cfg = getEnv env ''LISTEN_ADDR'' '':5050''"
    "cf_ShutdownTimeout cfg = getDurationEnv L env ''SHUTDOWN_TIMEOUT'' 15000000000"
    "cf_RequestTimeout cfg = getDurationEnv L env ''REQUEST_TIMEOUT'' 30000000000"
    "cf_AuthSecret cfg = env ''AUTH_SECRET''"
    "cf_AuthTokenTTL cfg = getDurationEnv L env ''AUTH_TOKEN_TTL'' 900000000000"
    "cf_RateLimitBurst cfg = getIntEnv env ''RATE_LIMIT_BURST'' 20"
    "cf_IdempotencyTTL cfg = getDurationEnv L env ''IDEMPOTENCY_TTL'' 300000000000"
    "cf_BattleImpl cfg = getEnv env ''BATTLE_IMPL'' ''naive''"
  using assms by (auto simp: Load_def Let_def split: option.splits)

section \<open>Properties\<close>


text \<open>A library that knows one duration.\<close>

definition ref_text :: text_lib where
  "ref_text = \<lparr>tl_ParseDuration = (\<lambda>s. if s = ''5s'' then Some 5000000000 else None), tl_ParseFloat = (\<lambda>s. None),
     tl_quote = (\<lambda>s. s), tl_duration = (\<lambda>_. ''''), tl_float = (\<lambda>_. ''''), tl_int = (\<lambda>_. '''')\<rparr>"


text \<open>
  Durations. A variable that is not set, or that is neither a number nor a duration, means the
  default; a whole number \<open>n\<close> means \<open>n\<close> seconds when \<open>|n|\<close> is at most 9223372036, and above that the
  product wraps: a shutdown timeout of 18446744074 seconds is accepted and taken as 0.29 seconds.
\<close>

theorem duration_settings:
  "(case strconv_Atoi (env key) of
      Some n \<Rightarrow> getDurationEnv L env key dflt = int64 (n * 1000000000)
        \<and> (getDurationEnv L env key dflt = n * 1000000000 \<longleftrightarrow> \<bar>n\<bar> \<le> 9223372036)
    | None \<Rightarrow> getDurationEnv L env key dflt =
        (if env key = '''' then dflt else case tl_ParseDuration L (env key) of Some d \<Rightarrow> d | None \<Rightarrow> dflt))
   \<and> (\<exists>cfg. Load L ((\<lambda>_. '''')(''SHUTDOWN_TIMEOUT'' := ''18446744074'')) = Inr cfg \<and> cf_ShutdownTimeout cfg = 290448384)"
proof -
  have empty: "strconv_Atoi '''' = None" by code_simp
  have big: "strconv_Atoi ''18446744074'' = Some 18446744074" by code_simp
  have wrap: "int64 18446744074000000000 = 290448384" by (simp add: int64_def signed_take_bit_def) 
  have "int64 (n * 1000000000) = n * 1000000000 \<longleftrightarrow> \<bar>n\<bar> \<le> 9223372036" for n
  proof
    assume "int64 (n * 1000000000) = n * 1000000000"
    with in_int64_int64 [of "n * 1000000000"] have "- 18014398509481984 \<le> 1953125 * n" "1953125 * n < 18014398509481984"
      by (simp_all add: in_int64_def)
    then show "\<bar>n\<bar> \<le> 9223372036" by arith
  qed (simp add: int64_small)
  then have "case strconv_Atoi (env key) of
      Some n \<Rightarrow> getDurationEnv L env key dflt = int64 (n * 1000000000)
        \<and> (getDurationEnv L env key dflt = n * 1000000000 \<longleftrightarrow> \<bar>n\<bar> \<le> 9223372036)
    | None \<Rightarrow> getDurationEnv L env key dflt =
        (if env key = '''' then dflt else case tl_ParseDuration L (env key) of Some d \<Rightarrow> d | None \<Rightarrow> dflt)"
    using empty by (auto simp: getDurationEnv_def Let_def split: option.splits)
  moreover have "\<exists>cfg. Load L ((\<lambda>_. '''')(''SHUTDOWN_TIMEOUT'' := ''18446744074'')) = Inr cfg \<and> cf_ShutdownTimeout cfg = 290448384"
    by (simp add: Load_def getEnv_def getDurationEnv_def getIntEnv_def getFloatEnv_def big wrap Config_validate_def Let_def)
  ultimately show ?thesis by blast
qed

end
