(* ===== verification/Frame.thy ===== *)
theory Frame
  imports Gacha_Endpoint Profile Ranking_Endpoint Event_Endpoint Battle
begin

text \<open>
  What services and handlers leave alone. An operation \<open>keeps\<close> an observation of the state when it
  never changes it. The lemmas lift this from the operations of the interfaces (repository, store,
  clock, random source) through the services to the handlers, once per service in a locale.
\<close>

named_theorems keeps_intros \<open>operations that keep an observation\<close>

definition keeps :: "('s \<Rightarrow> 'o) \<Rightarrow> ('s \<Rightarrow> 'r \<times> 's) \<Rightarrow> bool" where
  "keeps obs op \<longleftrightarrow> (\<forall>s. obs (snd (op s)) = obs s)"

lemma keepsD: "keeps obs op \<Longrightarrow> op s = (r, s') \<Longrightarrow> obs s' = obs s"
  unfolding keeps_def by (metis snd_conv)

lemma keepsI: "(\<And>s r s'. op s = (r, s') \<Longrightarrow> obs s' = obs s) \<Longrightarrow> keeps obs op"
  unfolding keeps_def by (metis prod.collapse)

lemma keeps_on_other_field [keeps_intros]:
  "(\<And>a s. obs (fput f a s) = obs s) \<Longrightarrow> keeps obs (on_field f op)"
  by (simp add: keeps_def on_field_def split: prod.splits)

text \<open>An operation that only reads its field keeps every observation.\<close>

context state_field
begin

lemma keeps_reading: "(\<And>a. snd (op a) = a) \<Longrightarrow> keeps obs (on_field f op)"
  by (simp add: keeps_def on_field_def case_prod_unfold)

end

section \<open>Gacha\<close>

locale gacha_reads =
  fixes svc :: "'s gacha_service" and obs :: "'s \<Rightarrow> 'o"
  assumes GetPity: "keeps obs (gr_GetPity (gs_repo svc) p q)"
    and ListRolls: "keeps obs (gr_ListRollsByPlayer (gs_repo svc) p n)"
begin

lemma keeps_History: "keeps obs (GachaHandler_History (gacha_iface svc) r)"
  by (rule keepsI)
    (auto simp: GachaHandler_History_def gacha_iface_def gacha_ListHistory_def Let_def
      dest!: keepsD [OF ListRolls] split: if_splits prod.splits sum.splits)

lemma keeps_Pity: "keeps obs (GachaHandler_Pity (gacha_iface svc) r)"
  by (rule keepsI)
    (auto simp: GachaHandler_Pity_def gacha_iface_def gacha_GetPity_def Let_def
      dest!: keepsD [OF GetPity] split: if_splits prod.splits sum.splits)

end

locale gacha_writes = gacha_reads svc obs for svc :: "'s gacha_service" and obs :: "'s \<Rightarrow> 'o" +
  assumes Insert: "keeps obs (gr_InsertRollsAndUpdatePity (gs_repo svc) rs p q n)"
    and pick: "keeps obs (gs_pick svc k)" and newV7: "keeps obs (gs_newV7 svc)" and now: "keeps obs (gs_now svc)"
begin

lemma keeps_roll_card: "keeps obs (roll_card svc pool pity)"
proof -
  have "obs (snd (WeightedPick (gs_pick svc) cs s)) = obs s" for cs s
    by (rule WeightedPick_state [where R = "\<lambda>s s'. obs s' = obs s"]) (use pick in \<open>auto simp: keeps_def\<close>)
  then have "keeps obs (WeightedPick (gs_pick svc) cs)" for cs by (simp add: keeps_def)
  note wp = keepsD [OF this]
  show ?thesis by (rule keepsI) (auto simp: roll_card_def Let_def dest!: wp split: if_splits prod.splits)
qed

lemma keeps_roll_loop: "keeps obs (roll_loop svc pool p q t n pity rolls)"
proof (rule keepsI)
  fix s r s' assume "roll_loop svc pool p q t n pity rolls s = (r, s')"
  then show "obs s' = obs s"
  proof (induction n arbitrary: pity rolls s)
    case 0
    then show ?case by simp
  next
    case (Suc n)
    obtain card isPity pity1 s1 where one: "roll_card svc pool pity s = ((card, isPity, pity1), s1)" by (metis surj_pair)
    obtain u s2 where two: "gs_newV7 svc s1 = (u, s2)" by (rule prod.exhaust)
    have "obs s2 = obs s" using keepsD [OF keeps_roll_card one] keepsD [OF newV7 two] by simp
    with Suc.prems Suc.IH one two show ?case by (cases u) auto
  qed
qed

lemma keeps_gacha_Roll: "keeps obs (gacha_Roll svc p q n)"
  by (rule keepsI)
    (auto simp: gacha_Roll_def Let_def
      dest!: keepsD [OF GetPity] keepsD [OF now] keepsD [OF Insert] keepsD [OF keeps_roll_loop]
      split: if_splits prod.splits sum.splits)

lemma keeps_Roll: "keeps obs (GachaHandler_Roll (gacha_iface svc) vldtr r)"
  by (rule keepsI)
    (auto simp: GachaHandler_Roll_def gacha_iface_def dest!: keepsD [OF keeps_gacha_Roll]
      split: option.splits verdict.splits prod.splits sum.splits)

end

section \<open>Profiles\<close>

lemma keeps_ProfileHandler_Get:
  assumes "\<And>k. keeps obs (pr_Get (ps_repo svc) k)"
  shows "keeps obs (ProfileHandler_Get svc r)"
  by (rule keepsI)
    (auto simp: ProfileHandler_Get_def GetProfile_def Let_def dest!: keepsD [OF assms]
      split: if_splits prod.splits sum.splits)

lemma keeps_ProfileHandler_Create:
  assumes "\<And>p. keeps obs (pr_Create (ps_repo svc) p)" "keeps obs (ps_now svc)"
  shows "keeps obs (ProfileHandler_Create svc vldtr r)"
  by (rule keepsI)
    (auto simp: ProfileHandler_Create_def CreateProfile_def Let_def dest!: keepsD [OF assms(1)] keepsD [OF assms(2)]
      split: option.splits verdict.splits if_splits prod.splits sum.splits)

section \<open>Damage\<close>

lemma keeps_BattleHandler_ApplyDamage:
  assumes "\<And>p d. keeps obs (applier p d)"
  shows "keeps obs (BattleHandler_ApplyDamage applier label vldtr r)"
  by (rule keepsI)
    (auto simp: BattleHandler_ApplyDamage_def dest!: keepsD [OF assms]
      split: option.splits verdict.splits if_splits prod.splits sum.splits)

lemma keeps_V1Naive_Apply: "(\<And>p d. keeps obs (op p d)) \<Longrightarrow> keeps obs (V1Naive_Apply op p d)"
  by (auto simp: keeps_def V1Naive_Apply_def case_prod_unfold Let_def)

section \<open>Rankings\<close>

locale ranking_reads =
  fixes store :: "'s ranking_store" and obs :: "'s \<Rightarrow> 'o"
  assumes Top: "keeps obs (rs_Top store ev n)" and Around: "keeps obs (rs_Around store ev p k)"
begin

lemma keeps_Top: "keeps obs (RankingHandler_Top store r)"
  by (rule keepsI)
    (auto simp: RankingHandler_Top_def ranking_Top_def Let_def dest!: keepsD [OF Top]
      split: if_splits prod.splits sum.splits)

lemma keeps_Around: "keeps obs (RankingHandler_Around store r)"
  by (rule keepsI)
    (auto simp: RankingHandler_Around_def ranking_Around_def Let_def dest!: keepsD [OF Around]
      split: if_splits prod.splits sum.splits option.splits)

end

section \<open>Events\<close>

locale event_reads =
  fixes svc :: "'s event_service" and obs :: "'s \<Rightarrow> 'o" and time_now :: "'s \<Rightarrow> int \<times> 's"
  assumes GetEvent: "keeps obs (er_GetEvent (es_repo svc) k)"
    and ListCurrent: "keeps obs (er_ListCurrentEvents (es_repo svc) t)"
    and GetScore: "keeps obs (er_GetScore (es_repo svc) ev p)"
    and ListTiers: "keeps obs (er_ListRewardTiers (es_repo svc) ev)"
    and now: "keeps obs (es_now svc)" and time_now: "keeps obs time_now"
begin

lemma keeps_Get: "keeps obs (EventHandler_Get svc r)"
  by (rule keepsI)
    (auto simp: EventHandler_Get_def event_Get_def Let_def dest!: keepsD [OF GetEvent] keepsD [OF now]
      split: if_splits prod.splits sum.splits)

lemma keeps_ListCurrent: "keeps obs (EventHandler_ListCurrent svc time_now r)"
  by (rule keepsI)
    (auto simp: EventHandler_ListCurrent_def event_ListCurrent_def Let_def
      dest!: keepsD [OF ListCurrent] keepsD [OF now] keepsD [OF time_now] split: if_splits prod.splits sum.splits)

lemma keeps_GetScore: "keeps obs (EventHandler_GetScore svc r)"
  by (rule keepsI)
    (auto simp: EventHandler_GetScore_def event_GetScore_def Let_def dest!: keepsD [OF GetEvent] keepsD [OF GetScore]
      split: if_splits prod.splits sum.splits)

lemma keeps_GetRewards: "keeps obs (EventHandler_GetRewards svc r)"
  by (rule keepsI)
    (auto simp: EventHandler_GetRewards_def event_GetRewards_def Let_def
      dest!: keepsD [OF GetEvent] keepsD [OF GetScore] keepsD [OF ListTiers] keepsD [OF now]
      split: if_splits prod.splits sum.splits)

end

context event_reads
begin

lemma keeps_event_ListCurrent: "keeps obs (event_ListCurrent svc)"
  by (rule keepsI)
    (auto simp: event_ListCurrent_def Let_def dest!: keepsD [OF ListCurrent] keepsD [OF now] split: prod.splits)

lemma keeps_event_GetRewards: "keeps obs (event_GetRewards svc ev p)"
  by (rule keepsI)
    (auto simp: event_GetRewards_def Let_def dest!: keepsD [OF GetEvent] keepsD [OF GetScore] keepsD [OF ListTiers] keepsD [OF now]
      split: prod.splits sum.splits)

end

locale event_creates = event_reads svc obs time_now
  for svc :: "'s event_service" and obs :: "'s \<Rightarrow> 'o" and time_now :: "'s \<Rightarrow> int \<times> 's" +
  assumes CreateEvent: "keeps obs (er_CreateEvent (es_repo svc) e)"
    and InsertTier: "keeps obs (er_InsertRewardTier (es_repo svc) tier)"
begin

lemma keeps_insert_tiers: "keeps obs (insert_tiers (es_repo svc) k ts)"
proof (rule keepsI)
  fix s r s' assume "insert_tiers (es_repo svc) k ts s = (r, s')"
  then show "obs s' = obs s"
    by (induction ts arbitrary: s) (auto dest!: keepsD [OF InsertTier] split: prod.splits sum.splits)
qed

lemma keeps_event_Create: "keeps obs (event_Create svc inp)"
  by (rule keepsI)
    (auto simp: event_Create_def Let_def dest!: keepsD [OF now] keepsD [OF CreateEvent] keepsD [OF keeps_insert_tiers]
      split: if_splits prod.splits sum.splits)

lemma keeps_Create: "keeps obs (EventHandler_Create svc time_now parseTime vldtr r)"
  by (rule keepsI)
    (auto simp: EventHandler_Create_def Let_def dest!: keepsD [OF keeps_event_Create] keepsD [OF time_now]
      split: option.splits verdict.splits if_splits prod.splits sum.splits)

end

locale event_scores = event_reads svc obs time_now
  for svc :: "'s event_service" and obs :: "'s \<Rightarrow> 'o" and time_now :: "'s \<Rightarrow> int \<times> 's" +
  assumes AddScore: "keeps obs (er_AddScore (es_repo svc) ev p d)"
    and IncrBy: "es_leaderboard svc = Some incrBy \<Longrightarrow> keeps obs (incrBy ev p d)"
begin

lemma obs_leaderboard_incr: "obs (leaderboard_incr svc ev p d s) = obs s"
  using IncrBy by (auto simp: leaderboard_incr_def keeps_def split: option.splits)

lemma keeps_event_AddScore: "keeps obs (event_AddScore svc ev p d)"
  by (rule keepsI)
    (auto simp: event_AddScore_def Let_def obs_leaderboard_incr
      dest!: keepsD [OF now] keepsD [OF GetEvent] keepsD [OF AddScore] keepsD [OF GetScore]
      split: if_splits prod.splits sum.splits)

lemma keeps_AddScore: "keeps obs (EventHandler_AddScore svc vldtr r)"
  by (rule keepsI)
    (auto simp: EventHandler_AddScore_def Let_def dest!: keepsD [OF keeps_event_AddScore]
      split: option.splits verdict.splits if_splits prod.splits sum.splits)

end

end
