(* ===== verification/Server.thy ===== *)
theory Server
  imports Gacha_Endpoint Profile Ranking_Endpoint Event_Endpoint Battle_Queue Idempotency Auth_Endpoint Ratelimit
    Lifecycle Config Frame
begin

text \<open>
  \<open>cmd/server/main.go\<close>: the wiring of the server without external databases. The state of the running
  server holds one field per component; the routes are the tables that the \<open>Mount\<close> methods register,
  wrapped in the middleware of \<open>run\<close> in its order. chi's route matching is an argument (the pattern of
  the matched route); its \<open>RequestID\<close>, \<open>Recoverer\<close> and \<open>Timeout\<close> middleware do not touch the
  state and are left out, as is \<open>/debug\<close>; the request logger is in \<open>Observability\<close>, the deferred calls of \<open>run\<close> are in \<open>Process\<close>. The WebSocket and Prometheus handlers and the queueing
  applier, which are not functions of a single request, are arguments.
\<close>

section \<open>State\<close>

record 'b server_app =
  sa_profiles :: ProfileRepo
  sa_gacha :: GachaRepo
  sa_events :: EventRepo
  sa_board :: Leaderboard
  sa_hp :: BattleRepo
  sa_room :: Room
  sa_opt :: Optimize
  sa_ready :: Readiness
  sa_limiter :: "'b Limiter"
  sa_hist :: "observation list"

text \<open>The application beside the idempotency store and the environment.\<close>

type_synonym 'b server = "'b server_app idem_world"

definition at_profiles :: "('b server, ProfileRepo) field" where
  "at_profiles = \<lparr>fget = (\<lambda>s. sa_profiles (iw_app s)), fput = (\<lambda>a s. s\<lparr>iw_app := (iw_app s)\<lparr>sa_profiles := a\<rparr>\<rparr>)\<rparr>"

definition at_gacha :: "('b server, GachaRepo) field" where
  "at_gacha = \<lparr>fget = (\<lambda>s. sa_gacha (iw_app s)), fput = (\<lambda>a s. s\<lparr>iw_app := (iw_app s)\<lparr>sa_gacha := a\<rparr>\<rparr>)\<rparr>"

definition at_event_repo :: "('b server, EventRepo) field" where
  "at_event_repo = \<lparr>fget = (\<lambda>s. sa_events (iw_app s)), fput = (\<lambda>a s. s\<lparr>iw_app := (iw_app s)\<lparr>sa_events := a\<rparr>\<rparr>)\<rparr>"

definition at_leaderboard :: "('b server, Leaderboard) field" where
  "at_leaderboard = \<lparr>fget = (\<lambda>s. sa_board (iw_app s)), fput = (\<lambda>a s. s\<lparr>iw_app := (iw_app s)\<lparr>sa_board := a\<rparr>\<rparr>)\<rparr>"

definition at_hp :: "('b server, BattleRepo) field" where
  "at_hp = \<lparr>fget = (\<lambda>s. sa_hp (iw_app s)), fput = (\<lambda>a s. s\<lparr>iw_app := (iw_app s)\<lparr>sa_hp := a\<rparr>\<rparr>)\<rparr>"

definition at_opt :: "('b server, Optimize) field" where
  "at_opt = \<lparr>fget = (\<lambda>s. sa_opt (iw_app s)), fput = (\<lambda>a s. s\<lparr>iw_app := (iw_app s)\<lparr>sa_opt := a\<rparr>\<rparr>)\<rparr>"

definition at_limiter :: "('b server, 'b Limiter) field" where
  "at_limiter = \<lparr>fget = (\<lambda>s. sa_limiter (iw_app s)), fput = (\<lambda>a s. s\<lparr>iw_app := (iw_app s)\<lparr>sa_limiter := a\<rparr>\<rparr>)\<rparr>"

definition at_hist :: "('b server, observation list) field" where
  "at_hist = \<lparr>fget = (\<lambda>s. sa_hist (iw_app s)), fput = (\<lambda>a s. s\<lparr>iw_app := (iw_app s)\<lparr>sa_hist := a\<rparr>\<rparr>)\<rparr>"

definition in_env :: "('b server, env) field" where
  "in_env = \<lparr>fget = iw_env, fput = (\<lambda>a s. s\<lparr>iw_env := a\<rparr>)\<rparr>"

section \<open>Startup\<close>

datatype backend = InmemBackend | ExternalBackend

text \<open>The argument \<open>conn\<close> is the outcome of opening and probing the external service.\<close>

definition openMaybeMySQL :: "(string \<Rightarrow> unit result) \<Rightarrow> unit result \<Rightarrow> string \<Rightarrow> backend result" where
  "openMaybeMySQL conn migrate dsn =
     (if dsn = '''' then Inr InmemBackend
      else case conn dsn of
        Inl err \<Rightarrow> Inl (Wrap ''mysql open'' err)
      | Inr _ \<Rightarrow> (case migrate of Inl err \<Rightarrow> Inl (Wrap ''mysql migrate'' err) | Inr _ \<Rightarrow> Inr ExternalBackend))"

definition openLeaderboard :: "(string \<Rightarrow> unit result) \<Rightarrow> string \<Rightarrow> backend result" where
  "openLeaderboard ping addr =
     (if addr = '''' then Inr InmemBackend
      else case ping addr of Inl err \<Rightarrow> Inl (Wrap (''redis ping '' @ addr) err) | Inr _ \<Rightarrow> Inr ExternalBackend)"

text \<open>\<open>None\<close> is the store on Redis.\<close>

definition openIdempotencyStore :: "(string \<Rightarrow> unit result) \<Rightarrow> string \<Rightarrow> int \<Rightarrow> InmemStore option result" where
  "openIdempotencyStore ping addr ttl =
     (if addr = '''' then Inr (Some (NewInmemStore ttl))
      else case ping addr of Inl err \<Rightarrow> Inl (Wrap (''redis ping '' @ addr) err) | Inr _ \<Rightarrow> Inr None)"

definition buildAuth ::
  "('w \<Rightarrow> int) \<Rightarrow> string \<Rightarrow> int \<Rightarrow> ('w Issuer option \<times> 'w Validator option) result" where
  "buildAuth clk secret ttl =
     (if secret = '''' then Inr (None, None)
      else case NewIssuer clk secret ttl [] of
        Inl err \<Rightarrow> Inl (Wrap ''new issuer'' err)
      | Inr issuer \<Rightarrow> Inr (Some issuer, NewValidator clk secret []))"

datatype log_level = LevelDebug | LevelInfo | LevelWarn | LevelError

definition parseLogLevel :: "string \<Rightarrow> log_level" where
  "parseLogLevel s =
     (if s = ''debug'' then LevelDebug else if s = ''warn'' then LevelWarn
      else if s = ''error'' then LevelError else LevelInfo)"

text \<open>The part of \<open>run\<close> before the router is built: the settings, the backends and the initial state.\<close>

record 'b running =
  rn_cfg :: Config
  rn_level :: log_level
  rn_db :: backend
  rn_redis :: backend
  rn_issuer :: "'b server Issuer option"
  rn_validator :: "'b server Validator option"
  rn_impl :: Applier
  rn_state :: "'b server"

record externals =
  ex_mysql :: "string \<Rightarrow> unit result"
  ex_migrate :: "unit result"
  ex_redis :: "string \<Rightarrow> unit result"
  ex_redis_idem :: "string \<Rightarrow> unit result"

text \<open>With the store on Redis the field of the in-memory one stays empty and is not used.\<close>

definition initial_state :: "Config \<Rightarrow> InmemStore option \<Rightarrow> env \<Rightarrow> 'b server" where
  "initial_state cfg store e =
     \<lparr>iw_app = \<lparr>sa_profiles = NewProfileRepo, sa_gacha = NewGachaRepo, sa_events = NewEventRepo, sa_board = NewLeaderboard,
        sa_hp = NewBattleRepo, sa_room = NewRoom, sa_opt = \<lparr>op_on = False\<rparr>, sa_ready = NewReadiness,
        sa_limiter = NewLimiter (cf_RateLimitRPS cfg) (cf_RateLimitBurst cfg) [], sa_hist = []\<rparr>,
      iw_store = (case store of Some st \<Rightarrow> st | None \<Rightarrow> \<lparr>im_entries = [], im_ttl = 0\<rparr>), iw_env = e\<rparr>"

definition run_startup :: "text_lib \<Rightarrow> externals \<Rightarrow> (string \<Rightarrow> string) \<Rightarrow> env \<Rightarrow> 'b running result" where
  "run_startup L X vars e =
     (case Load L vars of
        Inl err \<Rightarrow> Inl (Wrap ''config'' err)
      | Inr cfg \<Rightarrow>
          (case openMaybeMySQL (ex_mysql X) (ex_migrate X) (cf_MySQLDSN cfg) of
             Inl err \<Rightarrow> Inl (Wrap ''open db'' err)
           | Inr db \<Rightarrow>
               (case openLeaderboard (ex_redis X) (cf_RedisAddr cfg) of
                  Inl err \<Rightarrow> Inl (Wrap ''open redis'' err)
                | Inr redis \<Rightarrow>
                    (case buildAuth clock_at (cf_AuthSecret cfg) (cf_AuthTokenTTL cfg) of
                       Inl err \<Rightarrow> Inl (Wrap ''auth'' err)
                     | Inr (issuer, validator) \<Rightarrow>
                         (case openIdempotencyStore (ex_redis_idem X) (cf_RedisAddr cfg) (cf_IdempotencyTTL cfg) of
                            Inl err \<Rightarrow> Inl (Wrap ''idempotency'' err)
                          | Inr store \<Rightarrow>
                              Inr \<lparr>rn_cfg = cfg, rn_level = parseLogLevel (cf_LogLevel cfg), rn_db = db, rn_redis = redis,
                                rn_issuer = issuer, rn_validator = validator, rn_impl = Build (cf_BattleImpl cfg),
                                rn_state = initial_state cfg store e\<rparr>)))))"

section \<open>Services\<close>

definition server_profiles :: "'b server profile_service" where
  "server_profiles = NewProfileService (inmem_profile_repository at_profiles) in_env"

definition server_gacha :: "'b server gacha_service" where
  "server_gacha = NewGachaService (inmem_gacha_repository at_gacha)
     (StaticPoolRegistry_GetPool NewStaticPoolRegistry) in_env"

definition server_board :: "'b server ranking_store" where
  "server_board = inmem_ranking_store at_leaderboard"

definition server_events :: "'b server event_service" where
  "server_events = NewEventService (inmem_event_repository at_event_repo in_env) (Some (rs_IncrBy server_board)) in_env"

definition server_naive :: "string \<Rightarrow> int \<Rightarrow> 'b server \<Rightarrow> int result \<times> 'b server" where
  "server_naive = V1Naive_Apply (\<lambda>p d. on_field at_hp (inmem_ApplyDamageNaive p d))"

section \<open>Routes\<close>

type_synonym 's route = "string \<times> string \<times> 's handler"

definition MetricsHandler_Mount :: "('s \<Rightarrow> Room) \<Rightarrow> ('s \<Rightarrow> Optimize) \<Rightarrow> 's route list" where
  "MetricsHandler_Mount room opt = [(''GET'', ''/api/metrics'', MetricsHandler_Get room opt)]"

definition HealthHandler_Mount :: "('s \<Rightarrow> Readiness) option \<Rightarrow> 's route list" where
  "HealthHandler_Mount state =
     [(''GET'', ''/health/live'', HealthHandler_Live), (''GET'', ''/health/ready'', HealthHandler_Ready state)]"

definition PrometheusHandler_Mount :: "'s handler \<Rightarrow> 's route list" where
  "PrometheusHandler_Mount h = [(''GET'', ''/metrics'', h)]"

definition AuthHandler_Mount :: "jwt_lib \<Rightarrow> 's Issuer option \<Rightarrow> validator \<Rightarrow> 's route list" where
  "AuthHandler_Mount J issuer vldtr = [(''POST'', ''/api/auth/login'', AuthHandler_Login J issuer vldtr)]"

definition WSHandler_Mount :: "'s handler \<Rightarrow> 's route list" where
  "WSHandler_Mount h = [(''GET'', ''/ws/room'', h)]"

definition RankingHandler_Mount :: "'s ranking_store \<Rightarrow> 's route list" where
  "RankingHandler_Mount store =
     [(''GET'', ''/api/ranking/{eventId}/top'', RankingHandler_Top store),
      (''GET'', ''/api/ranking/{eventId}/me/{playerId}'', RankingHandler_Around store)]"

definition ProfileHandler_Mount :: "'s profile_service \<Rightarrow> validator \<Rightarrow> 's route list" where
  "ProfileHandler_Mount svc vldtr =
     [(''GET'', ''/api/profile/{id}'', ProfileHandler_Get svc), (''POST'', ''/api/profile'', ProfileHandler_Create svc vldtr)]"

definition EventHandler_Mount ::
  "'s event_service \<Rightarrow> ('s \<Rightarrow> int \<times> 's) \<Rightarrow> (string \<Rightarrow> int option) \<Rightarrow> validator \<Rightarrow> 's route list" where
  "EventHandler_Mount svc now parseTime vldtr =
     [(''POST'', ''/api/event'', EventHandler_Create svc now parseTime vldtr),
      (''GET'', ''/api/event/current'', EventHandler_ListCurrent svc now),
      (''GET'', ''/api/event/{id}'', EventHandler_Get svc),
      (''POST'', ''/api/event/{id}/score'', EventHandler_AddScore svc vldtr),
      (''GET'', ''/api/event/{id}/score/{playerId}'', EventHandler_GetScore svc),
      (''GET'', ''/api/event/{id}/rewards/{playerId}'', EventHandler_GetRewards svc)]"

definition OptimizeHandler_Mount :: "('s, Optimize) field \<Rightarrow> 's route list" where
  "OptimizeHandler_Mount f = [(''POST'', ''/api/optimize'', OptimizeHandler_ServeHTTP f)]"

definition BattleHandler_Mount ::
  "(string \<Rightarrow> int \<Rightarrow> 's \<Rightarrow> int result \<times> 's) \<Rightarrow> string \<Rightarrow> validator \<Rightarrow> 's route list" where
  "BattleHandler_Mount applier label vldtr =
     [(''POST'', ''/api/battle/damage'', BattleHandler_ApplyDamage applier label vldtr)]"

definition GachaHandler_Mount :: "'s GachaService \<Rightarrow> validator \<Rightarrow> 's route list" where
  "GachaHandler_Mount svc vldtr =
     [(''POST'', ''/api/gacha/roll'', GachaHandler_Roll svc vldtr),
      (''GET'', ''/api/gacha/history/{playerId}'', GachaHandler_History svc),
      (''GET'', ''/api/gacha/pity/{playerId}/{poolId}'', GachaHandler_Pity svc)]"

text \<open>What \<open>run\<close> is linked with: libraries, and the handlers that are arguments.\<close>

record 'b server_deps =
  dp_jwt :: jwt_lib
  dp_rate :: "'b rate_lib"
  dp_vldtr :: validator
  dp_parseTime :: "string \<Rightarrow> int option"
  dp_queue :: "string \<Rightarrow> int \<Rightarrow> 'b server \<Rightarrow> int result \<times> 'b server"
  dp_prom :: "'b server handler"
  dp_ws :: "'b server handler"
  dp_notFound :: "'b server handler"

text \<open>\<open>r.Use\<close> on a group wraps the handlers that are mounted after it.\<close>

definition use_on :: "('s handler \<Rightarrow> 's handler) \<Rightarrow> 's route list \<Rightarrow> 's route list" where
  "use_on mw = map (\<lambda>(m, p, h). (m, p, mw h))"

definition public_routes :: "'b server_deps \<Rightarrow> 'b running \<Rightarrow> 'b server route list" where
  "public_routes D R =
     MetricsHandler_Mount (\<lambda>s. sa_room (iw_app s)) (\<lambda>s. sa_opt (iw_app s))
     @ HealthHandler_Mount (Some (\<lambda>s. sa_ready (iw_app s)))
     @ PrometheusHandler_Mount (dp_prom D)
     @ AuthHandler_Mount (dp_jwt D) (rn_issuer R) (dp_vldtr D)
     @ WSHandler_Mount (dp_ws D)
     @ RankingHandler_Mount server_board
     @ ProfileHandler_Mount server_profiles (dp_vldtr D)
     @ EventHandler_Mount server_events idem_now (dp_parseTime D) (dp_vldtr D)
     @ OptimizeHandler_Mount at_opt
     @ BattleHandler_Mount (case rn_impl R of V1Naive \<Rightarrow> server_naive | V2UserQueue \<Rightarrow> dp_queue D)
         (cf_BattleImpl (rn_cfg R)) (dp_vldtr D)"

definition protected_routes :: "'b server_deps \<Rightarrow> 'b running \<Rightarrow> 'b server route list" where
  "protected_routes D R =
     use_on (RequireAuth (dp_jwt D) (rn_validator R)) (GachaHandler_Mount (gacha_iface server_gacha) (dp_vldtr D))"

definition group_middleware :: "'b server_deps \<Rightarrow> 'b server handler \<Rightarrow> 'b server handler" where
  "group_middleware D h = RateLimit (dp_rate D) (Some at_limiter) idem_now (Idempotency (Some inmem_store) h)"

definition server_routes :: "'b server_deps \<Rightarrow> 'b running \<Rightarrow> 'b server route list" where
  "server_routes D R = use_on (group_middleware D) (public_routes D R @ protected_routes D R)"

definition find_route :: "string \<Rightarrow> string \<Rightarrow> 's route list \<Rightarrow> 's handler option" where
  "find_route m p rs = map_option (\<lambda>(_, _, h). h) (find (\<lambda>(m', p', h). m' = m \<and> p' = p) rs)"

text \<open>The whole handler, for a request whose path matches \<open>pattern\<close> (empty: no route matches).\<close>

definition serve :: "'b server_deps \<Rightarrow> 'b running \<Rightarrow> string \<Rightarrow> 'b server handler" where
  "serve D R pattern r =
     RequestMetrics at_hist idem_now (\<lambda>_. pattern)
       (case find_route (rq_Method r) pattern (server_routes D R) of Some h \<Rightarrow> h | None \<Rightarrow> dp_notFound D) r"

section \<open>Shutdown\<close>

text \<open>
  The end of \<open>run\<close>. \<open>serverErr\<close> is what the goroutine of the listener reports (an error, or that its channel was
  closed) if that comes before the signal, \<open>None\<close> if the signal comes first; \<open>shutdown\<close> is the outcome of
  \<open>srv.Shutdown\<close>. The pause between draining and \<open>Shutdown\<close>, during which requests are served, is the middle state.
\<close>

definition set_draining :: "'b server \<Rightarrow> 'b server" where
  "set_draining s = s\<lparr>iw_app := (iw_app s)\<lparr>sa_ready := SetDraining (sa_ready (iw_app s))\<rparr>\<rparr>"

definition run_await ::
  "go_error option option \<Rightarrow> ('b server \<Rightarrow> 'b server) \<Rightarrow> unit result \<Rightarrow> 'b server \<Rightarrow> unit result \<times> 'b server" where
  "run_await serverErr pause shutdown s =
     (case serverErr of
        Some (Some err) \<Rightarrow> (Inl (Wrap ''listen and serve'' err), s)
      | Some None \<Rightarrow> (Inr (), s)
      | None \<Rightarrow>
          (let s = pause (set_draining s)
           in case shutdown of Inl err \<Rightarrow> (Inl (Wrap ''shutdown'' err), s) | Inr _ \<Rightarrow> (Inr (), s)))"

section \<open>Fields\<close>

lemmas server_fields = at_profiles_def at_gacha_def at_event_repo_def at_leaderboard_def at_hp_def at_opt_def
  at_limiter_def at_hist_def in_env_def

interpretation profile_fields: two_fields at_profiles in_env
  by unfold_locales (simp_all add: server_fields)

interpretation gacha_fields: two_fields at_gacha in_env
  by unfold_locales (simp_all add: server_fields)

interpretation event_fields: two_fields at_event_repo in_env
  by unfold_locales (simp_all add: server_fields)

interpretation board_field: state_field at_leaderboard
  by unfold_locales (simp_all add: server_fields)

text \<open>Reading the clock, the random source or a UUID changes the environment only.\<close>

definition stored :: "'b server \<Rightarrow> 'b server_app \<times> InmemStore" where
  "stored s = (iw_app s, iw_store s)"

lemma keeps_app_env [keeps_intros]: "keeps stored (on_field in_env op)"
  by (rule keeps_on_other_field) (simp add: server_fields stored_def)

lemma idem_now_field: "idem_now = on_field in_env time_Now"
  by (rule ext) (simp add: on_field_def in_env_def time_Now_def clock_at_def)

section \<open>Read-only routes\<close>

interpretation server_gacha_reads: gacha_reads server_gacha stored
  by unfold_locales
    (auto simp: server_gacha_def NewGachaService_def inmem_gacha_repository_def inmem_GetPity_def inmem_ListRollsByPlayer_def
      intro!: gacha_fields.fst_field.keeps_reading)

interpretation server_ranking_reads: ranking_reads server_board stored
  by unfold_locales
    (auto simp: server_board_def inmem_ranking_store_def inmem_Top_def inmem_Around_def Let_def
      intro!: board_field.keeps_reading)

interpretation server_event_reads: event_reads server_events stored idem_now
  by unfold_locales
    (auto simp: server_events_def NewEventService_def inmem_event_repository_def inmem_GetEvent_def idem_now_field
      inmem_ListCurrentEvents_def inmem_GetScore_def inmem_ListRewardTiers_def Let_def split: option.splits
      intro!: event_fields.fst_field.keeps_reading keeps_app_env)

lemma server_profile_read: "keeps stored (ProfileHandler_Get server_profiles r)"
  by (rule keeps_ProfileHandler_Get)
    (auto simp: server_profiles_def NewProfileService_def inmem_profile_repository_def inmem_profile_Get_def
      intro!: profile_fields.fst_field.keeps_reading split: option.splits)

lemma keeps_small_handlers:
  "keeps obs (MetricsHandler_Get room opt r)" "keeps obs (HealthHandler_Live r)" "keeps obs (HealthHandler_Ready st r)"
  by (auto simp: keeps_def MetricsHandler_Get_def HealthHandler_Live_def HealthHandler_Ready_def split: option.splits)

lemma keeps_RequireAuth: "(\<And>r. keeps obs (h r)) \<Longrightarrow> keeps obs (RequireAuth J v h r)"
  by (auto simp: keeps_def RequireAuth_def split: option.splits prod.splits sum.splits)

lemmas GET_handlers_keep =
  server_gacha_reads.keeps_History server_gacha_reads.keeps_Pity server_ranking_reads.keeps_Top server_ranking_reads.keeps_Around
  server_event_reads.keeps_Get server_event_reads.keeps_ListCurrent server_event_reads.keeps_GetScore
  server_event_reads.keeps_GetRewards server_profile_read keeps_small_handlers

text \<open>The part of the application that requests are about: everything but limiter and histogram.\<close>

definition business :: "'b server \<Rightarrow> 'b server_app" where
  "business s = (iw_app s)\<lparr>sa_limiter := NewLimiter NaN 0 [], sa_hist := []\<rparr>"

text \<open>Every route for GET, the two external handlers apart, keeps the application.\<close>

lemma GET_routes_keep:
  assumes "(''GET'', p, h) \<in> set (public_routes D R @ protected_routes D R)" "p \<notin> {''/metrics'', ''/ws/room''}"
  shows "keeps stored (h r)"
  using assms
  unfolding public_routes_def protected_routes_def use_on_def MetricsHandler_Mount_def HealthHandler_Mount_def
    PrometheusHandler_Mount_def AuthHandler_Mount_def WSHandler_Mount_def RankingHandler_Mount_def ProfileHandler_Mount_def
    EventHandler_Mount_def OptimizeHandler_Mount_def BattleHandler_Mount_def GachaHandler_Mount_def
  by (auto intro!: GET_handlers_keep keeps_RequireAuth)

section \<open>The middleware\<close>

lemma find_route_use_on: "find_route m p (use_on mw rs) = map_option mw (find_route m p rs)"
  by (induction rs) (auto simp: find_route_def use_on_def)

lemma find_route_SomeD: "find_route m p rs = Some h \<Longrightarrow> (m, p, h) \<in> set rs"
  by (induction rs) (auto simp: find_route_def split: if_splits)

text \<open>What a request can see of the rest of the server: the stored responses, the clock, the business state.\<close>

definition surroundings :: "'b server \<Rightarrow> InmemStore \<times> (nat \<Rightarrow> int) \<times> 'b server_app" where
  "surroundings s = (iw_store s, env_clock (iw_env s), business s)"

lemma keeps_surroundings_now: "keeps surroundings idem_now"
  by (simp add: keeps_def surroundings_def business_def)

lemma keeps_surroundings_limiter: "keeps surroundings (limiter_allow lib at_limiter idem_now i)"
  by (auto simp: keeps_def limiter_allow_def on_field_def surroundings_def business_def server_fields
      split: prod.splits)

lemma serve_route:
  assumes "find_route (rq_Method r) pat (server_routes D R) = Some h" "serve D R pat r s = (ops, s')"
  shows "\<exists>s1 s2. surroundings s1 = surroundings s \<and> h r s1 = (ops, s2) \<and> surroundings s' = surroundings s2"
proof -
  obtain s2 where "h r (snd (idem_now s)) = (ops, s2)" "surroundings s' = surroundings s2"
    using assms
    by (auto simp: serve_def RequestMetrics_def surroundings_def business_def server_fields simp del: idem_world_simps(3)
        split: prod.splits dest!: keepsD [OF keeps_surroundings_now, unfolded surroundings_def business_def])
  moreover have "surroundings (snd (idem_now s)) = surroundings s"
    by (rule keeps_surroundings_now [unfolded keeps_def, rule_format])
  ultimately show ?thesis by blast
qed

text \<open>The group's middleware refuses the request, or runs the idempotency middleware.\<close>

lemma group_cases:
  assumes "group_middleware D h r s = (ops, s')"
  obtains (limited) "ops = rate_limited" "surroundings s' = surroundings s"
  | (admitted) s1 where "surroundings s1 = surroundings s" "Idempotency (Some inmem_store) h r s1 = (ops, s')"
proof -
  obtain ok s1 where "limiter_allow (dp_rate D) at_limiter idem_now (identityOf r) s = (ok, s1)" by (rule prod.exhaust)
  with assms keepsD [OF keeps_surroundings_limiter this] show ?thesis
    by (cases ok) (auto simp: group_middleware_def RateLimit_def intro: limited admitted)
qed

lemma server_route_group:
  assumes "find_route m pat (server_routes D R) = Some g"
  obtains h where "(m, pat, h) \<in> set (public_routes D R @ protected_routes D R)" "g = group_middleware D h"
  using assms by (auto simp: server_routes_def find_route_use_on dest: find_route_SomeD)

section \<open>Properties\<close>

text \<open>
  C38: GET requests are safe. Whatever the state, a request with method GET to any route of the server
  (apart from the WebSocket upgrade and the Prometheus handler) leaves profiles, rolls and counters,
  events and scores, leaderboard, hit points, room and flags exactly as they were, and stores no
  response for replay; only the clock, the limiter's buckets and the latency histogram advance.
\<close>

theorem GET_is_safe:
  assumes "rq_Method r = ''GET''" "find_route ''GET'' pat (server_routes D R) \<noteq> None"
    and "pat \<notin> {''/metrics'', ''/ws/room''}"
  shows "business (snd (serve D R pat r s)) = business s \<and> iw_store (snd (serve D R pat r s)) = iw_store s"
proof -
  obtain g where g: "find_route (rq_Method r) pat (server_routes D R) = Some g" using assms(1,2) by auto
  obtain h where h: "(''GET'', pat, h) \<in> set (public_routes D R @ protected_routes D R)" "g = group_middleware D h"
    using server_route_group [OF g] assms(1) by metis
  note keep = GET_routes_keep [OF h(1) assms(3)]
  obtain ops s' where srv: "serve D R pat r s = (ops, s')" by (rule prod.exhaust)
  from serve_route [OF g srv] obtain s1 s2
    where st: "surroundings s1 = surroundings s" "group_middleware D h r s1 = (ops, s2)" "surroundings s' = surroundings s2"
    using h(2) by blast
  from st(2) have "business s2 = business s1 \<and> iw_store s2 = iw_store s1"
  proof (cases rule: group_cases)
    case limited
    then show ?thesis by (simp add: surroundings_def)
  next
    case (admitted t)
    then have "h r t = (ops, s2)" using inmem_idem.passes_through [of r h t] assms(1) by simp
    from keepsD [OF keep this] admitted(1) show ?thesis by (simp add: surroundings_def business_def stored_def)
  qed
  with st srv show ?thesis by (simp add: surroundings_def)
qed

lemma buildAuth_ok:
  assumes "0 < ttl"
  shows "\<exists>i v. buildAuth clk secret ttl = Inr (i, v) \<and> (i = None \<longleftrightarrow> secret = '''') \<and> (v = None \<longleftrightarrow> secret = '''')
    \<and> (secret \<noteq> '''' \<longrightarrow> NewIssuer clk secret ttl [] = Inr (the i) \<and> NewValidator clk secret [] = v)"
  using assms by (auto simp: buildAuth_def NewIssuer_def NewValidator_def)

lemma Load_external:
  "Load L vars = Inr cfg \<Longrightarrow> cf_MySQLDSN cfg = vars ''MYSQL_DSN'' \<and> cf_RedisAddr cfg = vars ''REDIS_ADDR''"
  by (auto simp: Load_def Let_def split: option.splits)

lemma run_startup_inmem:
  assumes "Load L vars = Inr cfg" "vars ''MYSQL_DSN'' = ''''" "vars ''REDIS_ADDR'' = ''''"
  shows "\<exists>i v. run_startup L X vars e = Inr (\<lparr>rn_cfg = cfg, rn_level = parseLogLevel (cf_LogLevel cfg), rn_db = InmemBackend,
      rn_redis = InmemBackend, rn_issuer = i, rn_validator = v, rn_impl = Build (cf_BattleImpl cfg),
      rn_state = initial_state cfg (Some (NewInmemStore (cf_IdempotencyTTL cfg))) e\<rparr> :: 'b running)
    \<and> (i = None \<longleftrightarrow> vars ''AUTH_SECRET'' = '''') \<and> (v = None \<longleftrightarrow> vars ''AUTH_SECRET'' = '''')"
proof -
  have ext: "cf_MySQLDSN cfg = ''''" "cf_RedisAddr cfg = ''''" using Load_external [OF assms(1)] assms(2,3) by simp_all
  have ttl: "0 < cf_AuthTokenTTL cfg" using Load_cases [OF assms(1), unfolded validate_None] by simp
  obtain i v where auth: "buildAuth (clock_at :: 'b server \<Rightarrow> int) (cf_AuthSecret cfg) (cf_AuthTokenTTL cfg) = Inr (i, v)"
      "i = None \<longleftrightarrow> cf_AuthSecret cfg = ''''" "v = None \<longleftrightarrow> cf_AuthSecret cfg = ''''"
    using buildAuth_ok [OF ttl, of clock_at "cf_AuthSecret cfg"] by metis
  with assms(1) ext Load_fields(4) [OF assms(1)] show ?thesis
    by (simp add: run_startup_def openMaybeMySQL_def openLeaderboard_def openIdempotencyStore_def)
qed

text \<open>
  Startup. Settings that load start the server when no external store is configured: none of
  the constructors can refuse them. Authentication is on exactly when a secret is set, the limiter
  and the idempotency store have exactly the configured burst and lifetime (their own fallbacks are
  never taken), and the server begins ready, with every store empty.
\<close>

theorem startup_succeeds:
  assumes "Load L vars = Inr cfg" "vars ''MYSQL_DSN'' = ''''" "vars ''REDIS_ADDR'' = ''''"
  shows "\<exists>R. run_startup L X vars e = Inr R \<and> rn_cfg R = cfg
    \<and> (rn_issuer R = None \<longleftrightarrow> vars ''AUTH_SECRET'' = '''') \<and> (rn_validator R = None \<longleftrightarrow> vars ''AUTH_SECRET'' = '''')
    \<and> lm_burst (sa_limiter (iw_app (rn_state R))) = cf_RateLimitBurst cfg
    \<and> im_ttl (iw_store (rn_state R)) = cf_IdempotencyTTL cfg \<and> im_entries (iw_store (rn_state R)) = []
    \<and> rd_ready (sa_ready (iw_app (rn_state R))) \<and> Room_Size (sa_room (iw_app (rn_state R))) = 0"
  using run_startup_inmem [OF assms, of X e] Load_cases [OF assms(1), unfolded validate_None]
  by (auto simp: initial_state_def NewInmemStore_def NewReadiness_def NewRoom_def Room_Size_def)

text \<open>The server of the examples: authentication with the reference token format, one route per line of the tables.\<close>

definition ref_deps :: "(int \<times> int \<times> int) server_deps" where
  "ref_deps = \<lparr>dp_jwt = ref_jwt, dp_rate = ref_rate, dp_vldtr = (\<lambda>_. VOk), dp_parseTime = (\<lambda>_. None),
     dp_queue = (\<lambda>_ _ s. (Inr 0, s)), dp_prom = (\<lambda>r s. ([], s)), dp_ws = (\<lambda>r s. ([], s)), dp_notFound = (\<lambda>r s. ([WriteHeader 404], s))\<rparr>"

definition ref_vars :: "string \<Rightarrow> string" where
  "ref_vars = (\<lambda>_. '''')(''AUTH_SECRET'' := ''k'')"

definition ref_ext :: externals where
  "ref_ext = \<lparr>ex_mysql = (\<lambda>_. Inr ()), ex_migrate = Inr (), ex_redis = (\<lambda>_. Inr ()), ex_redis_idem = (\<lambda>_. Inr ())\<rparr>"

definition still_env :: env where
  "still_env = \<lparr>env_rng = (\<lambda>_. 0), env_uuid = (\<lambda>_. Inr ''u''), env_clock = (\<lambda>_. 1500000000), env_pos = 0\<rparr>"

definition ref_request :: "string \<Rightarrow> (string \<Rightarrow> string) \<Rightarrow> json option \<Rightarrow> request" where
  "ref_request m hdr body = \<lparr>rq_Method = m, rq_Header = hdr, rq_Query = (\<lambda>_. ''''), rq_Param = (\<lambda>_. ''p1''),
     rq_RemoteAddr = ''203.0.113.9:4711'', rq_Body = body, rq_BodyErr = '''', rq_Auth = None\<rparr>"

lemma ref_Load: "\<exists>cfg. Load ref_text ref_vars = Inr cfg"
  by (simp add: Load_def getEnv_def getDurationEnv_def getIntEnv_def getFloatEnv_def ref_vars_def ref_text_def
      Config_validate_def Let_def)

lemma ref_startup:
  obtains R :: "(int \<times> int \<times> int) running" and cfg and v where
    "run_startup ref_text ref_ext ref_vars still_env = Inr R" "Load ref_text ref_vars = Inr cfg" "rn_validator R = Some v"
    "rn_state R = initial_state cfg (Some (NewInmemStore (cf_IdempotencyTTL cfg))) still_env"
proof -
  obtain cfg where cfg: "Load ref_text ref_vars = Inr cfg" using ref_Load by blast
  have none: "ref_vars ''MYSQL_DSN'' = ''''" "ref_vars ''REDIS_ADDR'' = ''''" "ref_vars ''AUTH_SECRET'' \<noteq> ''''"
    by (simp_all add: ref_vars_def)
  from run_startup_inmem [OF cfg none(1,2), of ref_ext still_env] none(3) cfg that show ?thesis by fastforce
qed

theorem startup_succeeds_witness:
  "\<exists>R. run_startup ref_text ref_ext ref_vars still_env = Inr R \<and> rn_validator R \<noteq> None
     \<and> im_entries (iw_store (rn_state (R :: (int \<times> int \<times> int) running))) = []"
proof -
  obtain cfg where "Load ref_text ref_vars = Inr cfg" using ref_Load by blast
  from startup_succeeds [OF this, of ref_ext still_env] show ?thesis by (auto simp: ref_vars_def)
qed

lemma route_names:
  "find_route ''GET'' ''/api/profile/{id}'' (server_routes D R) \<noteq> None"
  "find_route ''POST'' ''/api/gacha/roll'' (server_routes D R) =
     Some (group_middleware D (RequireAuth (dp_jwt D) (rn_validator R) (GachaHandler_Roll (gacha_iface server_gacha) (dp_vldtr D))))"
  by (simp_all add: server_routes_def find_route_use_on find_route_def public_routes_def protected_routes_def use_on_def
      MetricsHandler_Mount_def HealthHandler_Mount_def PrometheusHandler_Mount_def AuthHandler_Mount_def WSHandler_Mount_def
      RankingHandler_Mount_def ProfileHandler_Mount_def EventHandler_Mount_def OptimizeHandler_Mount_def BattleHandler_Mount_def
      GachaHandler_Mount_def)

theorem GET_is_safe_witness:
  "\<exists>R. run_startup ref_text ref_ext ref_vars still_env = Inr R
     \<and> business (snd (serve ref_deps R ''/api/profile/{id}'' (ref_request ''GET'' (\<lambda>_. '''') None) (rn_state R))) =
       business (rn_state R)"
proof -
  obtain R :: "(int \<times> int \<times> int) running" where R: "run_startup ref_text ref_ext ref_vars still_env = Inr R"
    using ref_startup by blast
  have "business (snd (serve ref_deps R ''/api/profile/{id}'' (ref_request ''GET'' (\<lambda>_. '''') None) (rn_state R))) =
      business (rn_state R)"
    using GET_is_safe [of "ref_request ''GET'' (\<lambda>_. '''') None" "''/api/profile/{id}''" ref_deps R "rn_state R"] route_names(1) [of ref_deps R]
    by (simp add: ref_request_def)
  with R show ?thesis by blast
qed

section \<open>Authentication behind the other middleware\<close>

text \<open>The idempotency middleware on the in-memory store replays a stored entry, or handles the request.\<close>

lemma inmem_replayed_or_handled:
  assumes "Idempotency (Some inmem_store) h r t = (ops, t')"
  obtains (replayed) k entry e where "map_of (im_entries (iw_store t)) k = Some (entry, e)" "ops = idem_replay entry"
      "iw_app t' = iw_app t"
  | (handled) t1 where "iw_app t1 = iw_app t" "response_of ops = response_of (fst (h r t1))" "iw_app t' = iw_app (snd (h r t1))"
proof (cases "rq_Header r ''Idempotency-Key'' = '''' \<or> rq_Method r \<in> {''GET'', ''HEAD''}")
  case True
  then have "h r t = (ops, t')" using assms inmem_idem.passes_through [of r h t] by simp
  with handled [of t] show ?thesis by simp
next
  case False
  define k where "k = scopedIdempotencyKey (rq_Auth r) (rq_Header r ''Idempotency-Key'')"
  have keyed: "keyed r k" using False by (simp add: keyed_def k_def)
  obtain t1 where get: "is_Get inmem_store k t = (Inr (live t k), t1)" "iw_app t1 = iw_app t"
    using inmem_Get_live [of k t] by blast
  show ?thesis
  proof (cases "live t k")
    case None
    with assms get keyed have "idem_execute inmem_store h k r t1 = (ops, t')" by (simp add: Idempotency_keyed)
    from inmem_idem.execute_app [OF this] get(2) handled show ?thesis by blast
  next
    case (Some entry)
    then obtain e where "map_of (im_entries (iw_store t)) k = Some (entry, e)"
      by (auto simp: live_def split: option.splits if_splits prod.splits)
    with assms get keyed Some replayed show ?thesis by (simp add: Idempotency_keyed)
  qed
qed

lemma use_on_mem: "(m, p, h) \<in> set (use_on mw rs) \<Longrightarrow> \<exists>h0. (m, p, h0) \<in> set rs \<and> h = mw h0"
  by (auto simp: use_on_def)

text \<open>
  C29: the protected routes. With authentication on, a request that carries no valid token (at any
  instant) and is routed to one of the gacha endpoints never changes profiles, rolls, counters,
  events, scores, leaderboard, hit points, room or flags; it is answered 429, 401, or with a stored
  response of an earlier request under the same idempotency key.
\<close>

theorem protected_routes_need_token:
  assumes "rn_validator R = Some v" "\<forall>w. authenticated (dp_jwt D) v r w = None"
    and "find_route (rq_Method r) pat (server_routes D R) = Some (group_middleware D h)"
    and "(rq_Method r, pat, h) \<in> set (protected_routes D R)" "serve D R pat r s = (ops, s')"
  shows "business s' = business s \<and>
    (rsp_Status (response_of ops) \<in> {401, 429} \<or>
     (\<exists>k entry e. map_of (im_entries (iw_store s)) k = Some (entry, e) \<and> ops = idem_replay entry))"
proof -
  obtain h0 where h: "h = RequireAuth (dp_jwt D) (Some v) h0"
    using assms(1,4) by (auto simp: protected_routes_def dest!: use_on_mem)
  have deny: "\<exists>msg. h r w = (writeUnauthorized msg, w)" for w
    using assms(2) by (auto simp: h RequireAuth_def authenticated_def split: prod.splits bool.splits sum.splits if_splits)
  from serve_route [OF assms(3,5)] obtain s1 s2 where st: "surroundings s1 = surroundings s"
      "group_middleware D h r s1 = (ops, s2)" "surroundings s' = surroundings s2" by blast
  from st(2) show ?thesis
  proof (cases rule: group_cases)
    case limited
    with st response_of_rate_limited show ?thesis by (simp add: surroundings_def)
  next
    case (admitted t)
    from admitted(2) have "business s2 = business t \<and> (rsp_Status (response_of ops) = 401 \<or>
        (\<exists>k entry e. map_of (im_entries (iw_store t)) k = Some (entry, e) \<and> ops = idem_replay entry))"
    proof (cases rule: inmem_replayed_or_handled)
      case (handled t1)
      with deny [of t1] show ?thesis by (auto simp: business_def response_of_writeUnauthorized)
    qed (auto simp: business_def)
    with st admitted show ?thesis by (auto simp: surroundings_def)
  qed
qed

theorem protected_routes_need_token_witness:
  "\<exists>R ops s'. run_startup ref_text ref_ext ref_vars still_env = Inr R
     \<and> serve ref_deps R ''/api/gacha/roll'' (ref_request ''POST'' (\<lambda>_. '''') None) (rn_state R) = (ops, s')
     \<and> business s' = business (rn_state R)"
proof -
  obtain R :: "(int \<times> int \<times> int) running" and v
    where R: "run_startup ref_text ref_ext ref_vars still_env = Inr R" "rn_validator R = Some v"
    using ref_startup by blast
  let ?r = "ref_request ''POST'' (\<lambda>_. '''') None"
  let ?h = "RequireAuth (dp_jwt ref_deps) (rn_validator R) (GachaHandler_Roll (gacha_iface server_gacha) (dp_vldtr ref_deps))"
  obtain ops s' where srv: "serve ref_deps R ''/api/gacha/roll'' ?r (rn_state R) = (ops, s')" by (rule prod.exhaust)
  have none: "\<forall>w. authenticated (dp_jwt ref_deps) v ?r w = None"
    by (simp add: authenticated_def bearerTokenFrom_def ref_request_def)
  have route: "find_route (rq_Method ?r) ''/api/gacha/roll'' (server_routes ref_deps R) = Some (group_middleware ref_deps ?h)"
    using route_names(2) [of ref_deps R] by (simp add: ref_request_def)
  have mem: "(rq_Method ?r, ''/api/gacha/roll'', ?h) \<in> set (protected_routes ref_deps R)"
    by (simp add: protected_routes_def use_on_def GachaHandler_Mount_def ref_request_def)
  from protected_routes_need_token [OF R(2) none route mem srv] R(1) srv show ?thesis by blast
qed

section \<open>Stored responses and authentication\<close>

lemma keeps_store_clock_env:
  "(\<And>e. env_clock (snd (op e)) = env_clock e) \<Longrightarrow> keeps (\<lambda>s. (iw_store s, env_clock (iw_env s))) (on_field in_env op)"
  by (simp add: keeps_def on_field_def server_fields case_prod_unfold Let_def)

lemma keeps_store_clock_gacha: "keeps (\<lambda>s. (iw_store s, env_clock (iw_env s))) (on_field at_gacha op)"
  by (rule keeps_on_other_field) (simp add: server_fields)

interpretation server_gacha_writes: gacha_writes server_gacha "\<lambda>s. (iw_store s, env_clock (iw_env s))"
  by unfold_locales
    (auto simp: server_gacha_def NewGachaService_def inmem_gacha_repository_def
      rand_IntN_def uuid_NewV7_def time_Now_def
      intro!: keeps_store_clock_gacha keeps_store_clock_env)

lemma keeps_protected_roll:
  "keeps (\<lambda>s. (iw_store s, env_clock (iw_env s))) (RequireAuth J v (GachaHandler_Roll (gacha_iface server_gacha) vldtr) r)"
  by (intro keeps_RequireAuth server_gacha_writes.keeps_Roll)

text \<open>A first request under a key is stored with what the client received, at some reading of the clock.\<close>

lemma group_stores:
  assumes "keeps (\<lambda>s. (iw_store s, env_clock (iw_env s))) (h r)" "keyed r k" "map_of (im_entries (iw_store s)) k = None"
    and "group_middleware D h r s = (ops, s')" "rsp_Status (response_of ops) \<noteq> 429"
  shows "env_clock (iw_env s') = env_clock (iw_env s) \<and> (\<exists>i. map_of (im_entries (iw_store s')) k =
    Some (\<lparr>ie_Status = rsp_Status (response_of ops), ie_Body = rsp_Body (response_of ops)\<rparr>,
      env_clock (iw_env s) i + im_ttl (iw_store s)))"
  using assms(4)
proof (cases rule: group_cases)
  case limited
  with assms(5) show ?thesis by (simp add: response_of_rate_limited)
next
  case (admitted t)
  obtain ops1 t1 where h: "h r t = (ops1, t1)" by (rule prod.exhaust)
  have same: "iw_store t1 = iw_store t" "env_clock (iw_env t1) = env_clock (iw_env t)" using keepsD [OF assms(1) h] by auto
  have abs: "map_of (im_entries (iw_store t)) k = None" "iw_store t = iw_store s" "env_clock (iw_env t) = env_clock (iw_env s)"
    using assms(3) admitted(1) by (simp_all add: surroundings_def)
  have "is_Get inmem_store k t = (Inr None, t)"
    using abs(1) by (simp add: inmem_idem_store_def InmemStore_Get_def)
  with assms(2) admitted(2) have "idem_execute inmem_store h k r t = (ops, s')" by (simp add: Idempotency_keyed)
  with inmem_execute_fresh [of h r t ops1 t1 k, OF h same(1) abs(1)] abs same show ?thesis
    by (auto simp: clock_at_def env_tick_def intro!: exI [of _ "env_pos (iw_env t1)"])
qed

text \<open>Under a stored key every handler is bypassed while the entry lives.\<close>

lemma group_replays:
  assumes "keyed r k" "map_of (im_entries (iw_store s)) k = Some (entry, e)" "\<forall>i. env_clock (iw_env s) i \<le> e"
    and "group_middleware D h r s = (ops, s')"
  shows "business s' = business s \<and> (rsp_Status (response_of ops) = 429 \<or> ops = idem_replay entry)"
  using assms(4)
proof (cases rule: group_cases)
  case limited
  then show ?thesis by (simp add: response_of_rate_limited surroundings_def)
next
  case (admitted t)
  then have "live t k = Some entry" using assms(2,3) by (simp add: surroundings_def live_def clock_at_def not_less)
  with inmem_Get_live [of k t] assms(1) admitted show ?thesis
    by (auto simp: Idempotency_keyed surroundings_def business_def)
qed


lemma ref_state:
  assumes "rn_state R = initial_state cfg (Some (NewInmemStore (cf_IdempotencyTTL cfg))) still_env" "Load ref_text ref_vars = Inr cfg"
  shows "map_of (im_entries (iw_store (rn_state R))) k = None" "env_clock (iw_env (rn_state R)) = (\<lambda>_. 1500000000)"
    "0 < im_ttl (iw_store (rn_state R))" "iw_app s = iw_app (rn_state R) \<Longrightarrow> env_clock (iw_env s) = (\<lambda>_. 1500000000) \<Longrightarrow>
      fst (limiter_allow ref_rate at_limiter idem_now i s)"
proof -
  have cfg: "cf_RateLimitRPS cfg = Finite 10 0" "cf_RateLimitBurst cfg = 20" "0 < cf_IdempotencyTTL cfg"
    using assms(2)
    by (auto simp: Load_def getEnv_def getDurationEnv_def getIntEnv_def getFloatEnv_def ref_vars_def ref_text_def
        Config_validate_def Let_def split: if_splits)
  then show "0 < im_ttl (iw_store (rn_state R))" "map_of (im_entries (iw_store (rn_state R))) k = None"
    "env_clock (iw_env (rn_state R)) = (\<lambda>_. 1500000000)"
    by (auto simp: assms(1) initial_state_def NewInmemStore_def still_env_def)
  assume "iw_app s = iw_app (rn_state R)" "env_clock (iw_env s) = (\<lambda>_. 1500000000)"
  then show "fst (limiter_allow ref_rate at_limiter idem_now i s)"
    using cfg(1,2)
    by (simp add: assms(1) initial_state_def limiter_allow_def on_field_def server_fields Limiter_Allow_def ref_rate_def
        still_env_def clock_at_def env_tick_def Let_def)
qed

lemma fst_serve:
  "find_route (rq_Method r) pat (server_routes D R) = Some h \<Longrightarrow> fst (serve D R pat r s) = fst (h r (snd (idem_now s)))"
  by (simp add: serve_def RequestMetrics_def case_prod_unfold Let_def)


end
