(* ===== verification/Isolation.thy ===== *)
theory Isolation
  imports Server
begin

text \<open>
  What a request can touch. Every route of the server writes at most the store of its own component; the others,
  and the readiness flag above all, are as before. With the flag out of reach of every request, the answer of the
  readiness probe is decided by the signal alone, through any traffic.
\<close>

section \<open>Components\<close>

datatype component = CProfiles | CGacha | CEvents | CBoard | CHp | CRoom | COptimize | CReady

text \<open>The state without the components in \<open>C\<close>, and without limiter and histogram, which every request advances.\<close>

definition erase :: "component set \<Rightarrow> 'b server_app \<Rightarrow> 'b server_app" where
  "erase C a =
     \<lparr>sa_profiles = (if CProfiles \<in> C then NewProfileRepo else sa_profiles a),
      sa_gacha = (if CGacha \<in> C then NewGachaRepo else sa_gacha a),
      sa_events = (if CEvents \<in> C then NewEventRepo else sa_events a),
      sa_board = (if CBoard \<in> C then NewLeaderboard else sa_board a),
      sa_hp = (if CHp \<in> C then NewBattleRepo else sa_hp a),
      sa_room = (if CRoom \<in> C then NewRoom else sa_room a),
      sa_opt = (if COptimize \<in> C then \<lparr>op_on = False\<rparr> else sa_opt a),
      sa_ready = (if CReady \<in> C then NewReadiness else sa_ready a),
      sa_limiter = NewLimiter NaN 0 [], sa_hist = []\<rparr>"

definition outside :: "component set \<Rightarrow> 'b server \<Rightarrow> 'b server_app" where
  "outside C s = erase C (iw_app s)"

text \<open>The table of what each route may write.\<close>

definition writes :: "string \<Rightarrow> string \<Rightarrow> component set" where
  "writes m p =
     (if m = ''POST'' then
        if p = ''/api/profile'' then {CProfiles}
        else if p = ''/api/event'' then {CEvents}
        else if p = ''/api/event/{id}/score'' then {CEvents, CBoard}
        else if p = ''/api/optimize'' then {COptimize}
        else if p = ''/api/battle/damage'' then {CHp}
        else if p = ''/api/gacha/roll'' then {CGacha}
        else {}
      else if m = ''GET'' \<and> p = ''/ws/room'' then {CRoom} else {})"

text \<open>The handlers that are arguments stay within their own component.\<close>

definition handlers_confined :: "'b server_deps \<Rightarrow> bool" where
  "handlers_confined D \<longleftrightarrow> (\<forall>r. keeps (outside {CRoom}) (dp_ws D r)) \<and> (\<forall>r. keeps (outside {}) (dp_prom D r))
     \<and> (\<forall>r. keeps (outside {}) (dp_notFound D r)) \<and> (\<forall>p d. keeps (outside {CHp}) (dp_queue D p d))"

lemma outside_surroundings: "surroundings s = surroundings t \<Longrightarrow> outside C s = outside C t"
  by (cases "iw_app s"; cases "iw_app t") (simp add: surroundings_def business_def outside_def erase_def)

lemma outside_app: "iw_app s = iw_app t \<Longrightarrow> outside C s = outside C t"
  by (simp add: outside_def)

lemma erase_erase: "C \<subseteq> C' \<Longrightarrow> erase C' (erase C a) = erase C' a"
  by (rule server_app.equality) (auto simp: erase_def)

lemma outside_mono: "outside C s = outside C t \<Longrightarrow> C \<subseteq> C' \<Longrightarrow> outside C' s = outside C' t"
  unfolding outside_def by (metis erase_erase)

lemma keeps_outside_mono: "keeps (outside C) op \<Longrightarrow> C \<subseteq> C' \<Longrightarrow> keeps (outside C') op"
  unfolding keeps_def by (blast intro: outside_mono)

lemma keeps_outside_stored: "keeps stored op \<Longrightarrow> keeps (outside C) op"
  by (auto simp: keeps_def stored_def intro: outside_app)

lemma keeps_outside_fields [keeps_intros]:
  "keeps (outside C) (on_field in_env eop)"
  "CProfiles \<in> C \<Longrightarrow> keeps (outside C) (on_field at_profiles pop)"
  "CGacha \<in> C \<Longrightarrow> keeps (outside C) (on_field at_gacha gop)"
  "CEvents \<in> C \<Longrightarrow> keeps (outside C) (on_field at_event_repo vop)"
  "CBoard \<in> C \<Longrightarrow> keeps (outside C) (on_field at_leaderboard bop)"
  "CHp \<in> C \<Longrightarrow> keeps (outside C) (on_field at_hp hop)"
  by (rule keeps_on_other_field; simp add: server_fields outside_def erase_def)+

lemma keeps_outside_now: "keeps (outside C) idem_now"
  by (simp add: idem_now_field keeps_outside_fields)

section \<open>The routes that write\<close>

interpretation roll_route: gacha_writes server_gacha "outside {CGacha}"
  by unfold_locales
    (auto simp: server_gacha_def NewGachaService_def inmem_gacha_repository_def intro!: keeps_outside_fields)

interpretation create_route: event_creates server_events "outside {CEvents}" idem_now
  by unfold_locales
    (auto simp: server_events_def NewEventService_def inmem_event_repository_def intro!: keeps_outside_fields keeps_outside_now)

lemma keeps_inmem_AddScore: "CEvents \<in> C \<Longrightarrow> keeps (outside C) (er_AddScore (es_repo server_events) ev p d)"
  by (rule keepsI)
    (auto simp: server_events_def NewEventService_def inmem_event_repository_def
      dest!: keepsD [OF keeps_outside_fields(1)] keepsD [OF keeps_outside_fields(4)] split: prod.splits)

interpretation score_route: event_scores server_events "outside {CEvents, CBoard}" idem_now
proof unfold_locales
  fix incrBy :: "string \<Rightarrow> string \<Rightarrow> int \<Rightarrow> 'a server \<Rightarrow> int result \<times> 'a server" and ev p d
  assume "es_leaderboard server_events = Some incrBy"
  then show "keeps (outside {CEvents, CBoard}) (incrBy ev p d)"
    by (auto simp: server_events_def NewEventService_def server_board_def inmem_ranking_store_def intro!: keeps_outside_fields)
qed (auto simp: server_events_def NewEventService_def inmem_event_repository_def
    intro!: keeps_outside_fields keeps_outside_now keeps_inmem_AddScore [unfolded server_events_def NewEventService_def inmem_event_repository_def, simplified])

lemma profile_route: "keeps (outside {CProfiles}) (ProfileHandler_Create server_profiles vldtr r)"
  by (rule keeps_ProfileHandler_Create)
    (auto simp: server_profiles_def NewProfileService_def inmem_profile_repository_def intro!: keeps_outside_fields)

lemma optimize_route: "keeps (outside {COptimize}) (OptimizeHandler_ServeHTTP at_opt r)"
  by (auto simp: keeps_def OptimizeHandler_ServeHTTP_def server_fields outside_def erase_def split: option.splits)

lemma login_route: "keeps obs (AuthHandler_Login J issuer vldtr r)"
  by (rule keepsI) (auto simp: AuthHandler_Login_def split: option.splits verdict.splits sum.splits)

lemma battle_route:
  assumes "handlers_confined D"
  shows "keeps (outside {CHp}) (BattleHandler_ApplyDamage (case impl of V1Naive \<Rightarrow> server_naive | V2UserQueue \<Rightarrow> dp_queue D) label vldtr r)"
  by (rule keeps_BattleHandler_ApplyDamage)
    (use assms in \<open>auto simp: handlers_confined_def server_naive_def intro!: keeps_V1Naive_Apply keeps_outside_fields split: Applier.splits\<close>)

text \<open>Every entry of the route table stays within the components of its line in \<open>writes\<close>.\<close>

lemma POST_routes:
  assumes "(''POST'', p, h) \<in> set (public_routes D R @ protected_routes D R)"
  shows "(p, h) \<in> {(''/api/auth/login'', AuthHandler_Login (dp_jwt D) (rn_issuer R) (dp_vldtr D)),
      (''/api/profile'', ProfileHandler_Create server_profiles (dp_vldtr D)),
      (''/api/event'', EventHandler_Create server_events idem_now (dp_parseTime D) (dp_vldtr D)),
      (''/api/event/{id}/score'', EventHandler_AddScore server_events (dp_vldtr D)),
      (''/api/optimize'', OptimizeHandler_ServeHTTP at_opt),
      (''/api/battle/damage'', BattleHandler_ApplyDamage (case rn_impl R of V1Naive \<Rightarrow> server_naive | V2UserQueue \<Rightarrow> dp_queue D)
         (cf_BattleImpl (rn_cfg R)) (dp_vldtr D)),
      (''/api/gacha/roll'', RequireAuth (dp_jwt D) (rn_validator R) (GachaHandler_Roll (gacha_iface server_gacha) (dp_vldtr D)))}"
  using assms
  unfolding public_routes_def protected_routes_def use_on_def MetricsHandler_Mount_def HealthHandler_Mount_def
    PrometheusHandler_Mount_def AuthHandler_Mount_def WSHandler_Mount_def RankingHandler_Mount_def ProfileHandler_Mount_def
    EventHandler_Mount_def OptimizeHandler_Mount_def BattleHandler_Mount_def GachaHandler_Mount_def
  by simp

lemma writes_POST:
  "writes ''POST'' ''/api/auth/login'' = {}" "writes ''POST'' ''/api/profile'' = {CProfiles}"
  "writes ''POST'' ''/api/event'' = {CEvents}" "writes ''POST'' ''/api/event/{id}/score'' = {CEvents, CBoard}"
  "writes ''POST'' ''/api/optimize'' = {COptimize}" "writes ''POST'' ''/api/battle/damage'' = {CHp}"
  "writes ''POST'' ''/api/gacha/roll'' = {CGacha}"
  by (simp_all add: writes_def)

lemma POST_routes_confined:
  assumes "handlers_confined D" "(''POST'', p, h) \<in> set (public_routes D R @ protected_routes D R)"
  shows "keeps (outside (writes ''POST'' p)) (h r)"
proof -
  note kept = login_route profile_route create_route.keeps_Create score_route.keeps_AddScore optimize_route
    battle_route [OF assms(1)] keeps_RequireAuth [OF roll_route.keeps_Roll]
  from POST_routes [OF assms(2)] show ?thesis
    by (elim insertE emptyE) (simp_all only: prod.inject writes_POST kept)
qed

lemma GET_routes_confined:
  assumes "handlers_confined D" "(''GET'', p, h) \<in> set (public_routes D R @ protected_routes D R)"
  shows "keeps (outside (writes ''GET'' p)) (h r)"
proof (cases "p \<in> {''/metrics'', ''/ws/room''}")
  case True
  with assms show ?thesis
    unfolding public_routes_def protected_routes_def use_on_def MetricsHandler_Mount_def HealthHandler_Mount_def
      PrometheusHandler_Mount_def AuthHandler_Mount_def WSHandler_Mount_def RankingHandler_Mount_def ProfileHandler_Mount_def
      EventHandler_Mount_def OptimizeHandler_Mount_def BattleHandler_Mount_def GachaHandler_Mount_def
    by (auto simp: writes_def handlers_confined_def)
next
  case False
  with GET_routes_keep [OF assms(2)] show ?thesis by (blast intro: keeps_outside_stored)
qed

lemma route_methods:
  "(m, p, h) \<in> set (public_routes D R @ protected_routes D R) \<Longrightarrow> m = ''GET'' \<or> m = ''POST''"
  unfolding public_routes_def protected_routes_def use_on_def MetricsHandler_Mount_def HealthHandler_Mount_def
    PrometheusHandler_Mount_def AuthHandler_Mount_def WSHandler_Mount_def RankingHandler_Mount_def ProfileHandler_Mount_def
    EventHandler_Mount_def OptimizeHandler_Mount_def BattleHandler_Mount_def GachaHandler_Mount_def
  by auto

lemma routes_confined:
  "handlers_confined D \<Longrightarrow> (m, p, h) \<in> set (public_routes D R @ protected_routes D R) \<Longrightarrow> keeps (outside (writes m p)) (h r)"
  using route_methods [of m p h D R] GET_routes_confined [of D p h R r] POST_routes_confined [of D p h R r] by blast

text \<open>The middleware around a confined handler is confined: it refuses, replays, or runs the handler.\<close>

lemma group_confined:
  assumes "\<And>r. keeps (outside C) (h r)" "group_middleware D h r s = (ops, s')"
  shows "outside C s' = outside C s"
  using assms(2)
proof (cases rule: group_cases)
  case limited
  then show ?thesis by (blast intro: outside_surroundings)
next
  case (admitted t)
  have t: "outside C t = outside C s" by (rule outside_surroundings) (rule admitted(1))
  from admitted(2) show ?thesis
  proof (cases rule: inmem_replayed_or_handled)
    case (replayed k entry e)
    from outside_app [OF replayed(3), of C] t show ?thesis by simp
  next
    case (handled t1)
    have "outside C (snd (h r t1)) = outside C t1" using assms(1) by (simp add: keeps_def)
    with outside_app [OF handled(1), of C] outside_app [OF handled(3), of C] t show ?thesis by simp
  qed
qed

lemma keeps_RequestMetrics:
  assumes "keeps obs now" "keeps obs (h r)" "\<And>a s. obs (fput hist a s) = obs s"
  shows "keeps obs (RequestMetrics hist now pattern h r)"
  using assms by (simp add: keeps_def RequestMetrics_def Let_def case_prod_unfold)

lemma serve_unrouted:
  assumes "find_route (rq_Method r) pat (server_routes D R) = None" "keeps (outside {}) (dp_notFound D r)"
  shows "keeps (outside {}) (serve D R pat r)"
proof -
  have "keeps (outside {}) (RequestMetrics at_hist idem_now (\<lambda>_. pat) (dp_notFound D) r)"
    by (rule keeps_RequestMetrics) (simp_all add: keeps_outside_now assms(2) server_fields outside_def erase_def)
  then show ?thesis using assms(1) by (simp add: keeps_def serve_def)
qed

lemma serve_confined:
  assumes "handlers_confined D" "serve D R pat r s = (ops, s')"
  shows "outside (writes (rq_Method r) pat) s' = outside (writes (rq_Method r) pat) s"
proof (cases "find_route (rq_Method r) pat (server_routes D R)")
  case None
  have "keeps (outside {}) (dp_notFound D r)" using assms(1) by (simp add: handlers_confined_def)
  from keepsD [OF serve_unrouted [OF None this] assms(2)] show ?thesis by (rule outside_mono) simp
next
  case (Some g)
  obtain h where h: "(rq_Method r, pat, h) \<in> set (public_routes D R @ protected_routes D R)" "g = group_middleware D h"
    using server_route_group [OF Some] by metis
  from serve_route [OF Some assms(2)] obtain s1 s2 where st: "surroundings s1 = surroundings s" "g r s1 = (ops, s2)"
      "surroundings s' = surroundings s2" by blast
  from group_confined [OF routes_confined [OF assms(1) h(1)] st(2) [unfolded h(2)]] show ?thesis
    using outside_surroundings [OF st(1)] outside_surroundings [OF st(3)] by metis
qed

section \<open>Traffic and the signal\<close>

datatype action = Request string request | Signal

fun traffic :: "'b server_deps \<Rightarrow> 'b running \<Rightarrow> action list \<Rightarrow> 'b server \<Rightarrow> 'b server" where
  "traffic D R [] s = s"
| "traffic D R (Request pat r # as) s = traffic D R as (snd (serve D R pat r s))"
| "traffic D R (Signal # as) s = traffic D R as (set_draining s)"

lemma CReady_not_written: "CReady \<notin> writes m p"
  by (simp add: writes_def)

lemma ready_outside: "CReady \<notin> C \<Longrightarrow> outside C s = outside C t \<Longrightarrow> sa_ready (iw_app s) = sa_ready (iw_app t)"
  by (simp add: outside_def erase_def)

lemma serve_keeps_ready:
  "handlers_confined D \<Longrightarrow> sa_ready (iw_app (snd (serve D R pat r s))) = sa_ready (iw_app s)"
  using ready_outside [OF CReady_not_written serve_confined [OF _ surjective_pairing]] by blast

lemma traffic_ready:
  "handlers_confined D \<Longrightarrow> rd_ready (sa_ready (iw_app (traffic D R as s))) \<longleftrightarrow> rd_ready (sa_ready (iw_app s)) \<and> Signal \<notin> set as"
proof (induction as arbitrary: s)
  case (Cons a as)
  then show ?case by (cases a) (simp_all add: serve_keeps_ready set_draining_def SetDraining_def)
qed simp

lemma probe_routes:
  "find_route ''GET'' ''/health/ready'' (server_routes D R) =
     Some (group_middleware D (HealthHandler_Ready (Some (\<lambda>s. sa_ready (iw_app s)))))"
  "find_route ''GET'' ''/health/live'' (server_routes D R) = Some (group_middleware D HealthHandler_Live)"
  by (simp_all add: server_routes_def find_route_use_on find_route_def public_routes_def use_on_def
      MetricsHandler_Mount_def HealthHandler_Mount_def)

text \<open>A GET request is refused by the limiter, or answered by its handler in a state with the same surroundings.\<close>

lemma serve_GET:
  assumes "rq_Method r = ''GET''" "find_route ''GET'' pat (server_routes D R) = Some (group_middleware D h)"
    and "serve D R pat r s = (ops, s')"
  obtains "ops = rate_limited" | t where "surroundings t = surroundings s" "ops = fst (h r t)"
proof -
  from serve_route [of r pat D R "group_middleware D h" s ops s'] assms obtain s1 s2
    where st: "surroundings s1 = surroundings s" "group_middleware D h r s1 = (ops, s2)" by auto
  from st(2) show ?thesis
  proof (cases rule: group_cases)
    case limited
    then show ?thesis using that(1) by blast
  next
    case (admitted t)
    then have "h r t = (ops, s2)" using inmem_idem.passes_through [of r h t] assms(1) by simp
    with admitted(1) st(1) that(2) [of t] show ?thesis by simp
  qed
qed

lemma ref_deps_confined: "handlers_confined ref_deps"
  by (simp add: handlers_confined_def ref_deps_def keeps_def)

section \<open>Properties\<close>



text \<open>
  C32: the readiness gate. Through any traffic, of any routes and with any results, the readiness probe of a server
  that started ready answers 503 with \<open>{"ready":false}\<close> from the first signal on and 200 before it, unless the limiter
  refuses the probe (429), and the liveness probe answers 200 or is refused: draining cannot be undone or faked by a request.
\<close>

theorem readiness_gate:
  assumes "handlers_confined D" "rd_ready (sa_ready (iw_app s))" "rq_Method r = ''GET''"
    and "serve D R ''/health/ready'' r (traffic D R as s) = (ops, s')"
    and "serve D R ''/health/live'' r (traffic D R as s) = (ops2, s2)"
  shows "(rsp_Status (response_of ops) = 429
      \<or> response_of ops = (if Signal \<in> set as
          then \<lparr>rsp_Status = 503, rsp_Header = [(''Content-Type'', ''application/json'')], rsp_Body = [RawChunk ''{\"ready\":false}'']\<rparr>
          else \<lparr>rsp_Status = 200, rsp_Header = [], rsp_Body = []\<rparr>))
    \<and> rsp_Status (response_of ops2) \<in> {200, 429}"
proof
  have flag: "rd_ready (sa_ready (iw_app t)) \<longleftrightarrow> Signal \<notin> set as" if "surroundings t = surroundings (traffic D R as s)" for t
    using ready_outside [OF _ outside_surroundings [OF that, of "{}"]] traffic_ready [OF assms(1), of R as s] assms(2) by simp
  from serve_GET [OF assms(3) probe_routes(1) assms(4)] show "rsp_Status (response_of ops) = 429
      \<or> response_of ops = (if Signal \<in> set as
          then \<lparr>rsp_Status = 503, rsp_Header = [(''Content-Type'', ''application/json'')], rsp_Body = [RawChunk ''{\"ready\":false}'']\<rparr>
          else \<lparr>rsp_Status = 200, rsp_Header = [], rsp_Body = []\<rparr>)"
  proof cases
    case 1
    then show ?thesis by (simp add: response_of_rate_limited)
  next
    case (2 t)
    with flag [OF 2(1)] show ?thesis by (simp add: response_of_Ready)
  qed
  from serve_GET [OF assms(3) probe_routes(2) assms(5)] show "rsp_Status (response_of ops2) \<in> {200, 429}"
    by cases (simp_all add: response_of_rate_limited, simp add: HealthHandler_Live_def rw_defs)
qed

theorem readiness_gate_witness:
  "\<exists>R. run_startup ref_text ref_ext ref_vars still_env = Inr R
     \<and> rsp_Status (response_of (fst (serve ref_deps R ''/health/ready'' (ref_request ''GET'' (\<lambda>_. '''') None)
          (traffic ref_deps R [Request ''/api/optimize'' (ref_request ''POST'' (\<lambda>_. '''') None), Signal,
             Request ''/api/profile/{id}'' (ref_request ''GET'' (\<lambda>_. '''') None)] (rn_state R))))) \<in> {429, 503}"
proof -
  obtain R :: "(int \<times> int \<times> int) running" and cfg
    where R: "run_startup ref_text ref_ext ref_vars still_env = Inr R"
      "rn_state R = initial_state cfg (Some (NewInmemStore (cf_IdempotencyTTL cfg))) still_env"
    using ref_startup by metis
  have ready: "rd_ready (sa_ready (iw_app (rn_state R)))" by (simp add: R(2) initial_state_def NewReadiness_def)
  let ?r = "ref_request ''GET'' (\<lambda>_. '''') None"
  let ?as = "[Request ''/api/optimize'' (ref_request ''POST'' (\<lambda>_. '''') None), Signal, Request ''/api/profile/{id}'' ?r]"
  let ?s = "traffic ref_deps R ?as (rn_state R)"
  have get: "rq_Method ?r = ''GET''" by (simp add: ref_request_def)
  from readiness_gate [OF ref_deps_confined ready get surjective_pairing surjective_pairing, of R ?as]
  have "rsp_Status (response_of (fst (serve ref_deps R ''/health/ready'' ?r ?s))) \<in> {429, 503}" by auto
  with R(1) show ?thesis by blast
qed

end
