(* ===== verification/Process.thy ===== *)
theory Process
  imports Server
begin

text \<open>
  The server as a process: \<open>main\<close> and \<open>run\<close> of \<open>cmd/server/main.go\<close> from the first to the last statement with their
  deferred calls, and the connection to MySQL (\<open>mysql.go\<close>, \<open>migrate.go\<close>). A step yields its result and the effects it
  had, in order; what drivers, goose, Redis, the listener and the operating system answer is the argument \<open>world\<close>.
  What the requests do in between is the theory \<open>Server\<close>; here it is the single effect \<open>Listen\<close>.
\<close>

section \<open>Effects\<close>

text \<open>What has to be given back: a timer by its \<open>cancel\<close>, the handles by \<open>Close\<close>, the sweeper by \<open>Stop\<close>.\<close>

datatype resource = SignalHandler | Database | LeaderboardClient | IdempotencyClient | Sweeper int | Timer int

datatype effect = Acquire resource | Release resource | SetPool int int int | Ping resource | GooseUp
  | Listen | Draining | Sleep int | Shutdown

type_synonym 'a proc = "'a \<times> effect list"

definition after :: "effect list \<Rightarrow> 'a proc \<Rightarrow> 'a proc" where
  "after fx p = (fst p, fx @ snd p)"

text \<open>\<open>defer\<close>: whatever the rest of the function returns, the cleanup runs after it.\<close>

definition deferred :: "resource list \<Rightarrow> 'a proc \<Rightarrow> 'a proc" where
  "deferred cleanup p = (fst p, snd p @ map Release cleanup)"

record world =
  w_sqlOpen :: "string \<Rightarrow> unit result"
  w_sqlPing :: "unit result"
  w_dialect :: "unit result"
  w_gooseUp :: "unit result"
  w_redisPing :: "string \<Rightarrow> unit result"
  w_idemPing :: "string \<Rightarrow> unit result"
  w_listen :: "go_error option option"
  w_shutdown :: "unit result"

section \<open>MySQL\<close>

abbreviation "seconds n \<equiv> n * (1000000000 :: int)"

definition mysql_Open :: "world \<Rightarrow> string \<Rightarrow> unit result proc" where
  "mysql_Open W dsn =
     (case w_sqlOpen W dsn of
        Inl err \<Rightarrow> (Inl (Wrap ''sql.Open'' err), [])
      | Inr _ \<Rightarrow>
          after [Acquire Database, SetPool 25 5 (seconds (30 * 60)), Acquire (Timer (seconds 5))]
            (deferred [Timer (seconds 5)]
              (case w_sqlPing W of
                 Inl err \<Rightarrow> (Inl (Wrap ''ping'' err), [Ping Database, Release Database])
               | Inr _ \<Rightarrow> (Inr (), [Ping Database]))))"

definition Migrate :: "world \<Rightarrow> unit result proc" where
  "Migrate W =
     (case w_dialect W of
        Inl err \<Rightarrow> (Inl (Wrap ''goose set dialect'' err), [])
      | Inr _ \<Rightarrow>
          (case w_gooseUp W of
             Inl err \<Rightarrow> (Inl (Wrap ''goose up'' err), [GooseUp])
           | Inr _ \<Rightarrow> (Inr (), [GooseUp])))"

section \<open>Opening the backends\<close>

text \<open>The returned cleanup is the list of what it releases.\<close>

definition open_db :: "world \<Rightarrow> string \<Rightarrow> (backend \<times> resource list) result proc" where
  "open_db W dsn =
     (if dsn = '''' then (Inr (InmemBackend, []), [])
      else case mysql_Open W dsn of
        (Inl err, fx) \<Rightarrow> (Inl (Wrap ''mysql open'' err), fx)
      | (Inr _, fx) \<Rightarrow>
          after fx
            (case Migrate W of
               (Inl err, fx) \<Rightarrow> (Inl (Wrap ''mysql migrate'' err), fx @ [Release Database])
             | (Inr _, fx) \<Rightarrow> (Inr (ExternalBackend, [Database]), fx)))"

text \<open>\<open>openLeaderboard\<close> and \<open>openIdempotencyStore\<close> connect alike.\<close>

definition open_redis :: "resource \<Rightarrow> (string \<Rightarrow> unit result) \<Rightarrow> string \<Rightarrow> (backend \<times> resource list) result proc" where
  "open_redis client ping addr =
     (if addr = '''' then (Inr (InmemBackend, []), [])
      else after [Acquire client, Acquire (Timer (seconds 3))]
        (deferred [Timer (seconds 3)]
          (case ping addr of
             Inl err \<Rightarrow> (Inl (Wrap (''redis ping '' @ addr) err), [Ping client, Release client])
           | Inr _ \<Rightarrow> (Inr (ExternalBackend, [client]), [Ping client]))))"

section \<open>Running\<close>

text \<open>The listener's goroutine is started; then \<open>run\<close> waits for it or for the signal, drains and shuts down.\<close>

definition run_serve :: "world \<Rightarrow> Config \<Rightarrow> unit result proc" where
  "run_serve W cfg =
     after [Listen]
       (case w_listen W of
          Some (Some err) \<Rightarrow> (Inl (Wrap ''listen and serve'' err), [])
        | Some None \<Rightarrow> (Inr (), [])
        | None \<Rightarrow>
            after [Draining, Sleep (seconds 5), Acquire (Timer (cf_ShutdownTimeout cfg))]
              (deferred [Timer (cf_ShutdownTimeout cfg)]
                (case w_shutdown W of
                   Inl err \<Rightarrow> (Inl (Wrap ''shutdown'' err), [Shutdown])
                 | Inr _ \<Rightarrow> (Inr (), [Shutdown]))))"

definition run_process :: "text_lib \<Rightarrow> world \<Rightarrow> ('w \<Rightarrow> int) \<Rightarrow> (string \<Rightarrow> string) \<Rightarrow> unit result proc" where
  "run_process L W clk vars =
     (case Load L vars of
        Inl err \<Rightarrow> (Inl (Wrap ''config'' err), [])
      | Inr cfg \<Rightarrow>
          after [Acquire SignalHandler] (deferred [SignalHandler]
            (case open_db W (cf_MySQLDSN cfg) of
               (Inl err, fx) \<Rightarrow> (Inl (Wrap ''open db'' err), fx)
             | (Inr (db, cleanup), fx) \<Rightarrow>
                 after fx (deferred cleanup
                   (case open_redis LeaderboardClient (w_redisPing W) (cf_RedisAddr cfg) of
                      (Inl err, fx) \<Rightarrow> (Inl (Wrap ''open redis'' err), fx)
                    | (Inr (leaderboard, redisCleanup), fx) \<Rightarrow>
                        after fx (deferred redisCleanup
                          (case buildAuth clk (cf_AuthSecret cfg) (cf_AuthTokenTTL cfg) of
                             Inl err \<Rightarrow> (Inl (Wrap ''auth'' err), [])
                           | Inr _ \<Rightarrow>
                               (case open_redis IdempotencyClient (w_idemPing W) (cf_RedisAddr cfg) of
                                  (Inl err, fx) \<Rightarrow> (Inl (Wrap ''idempotency'' err), fx)
                                | (Inr (store, idempCleanup), fx) \<Rightarrow>
                                    after fx (deferred idempCleanup
                                      (after [Acquire (Sweeper (seconds 60))]
                                        (deferred [Sweeper (seconds 60)] (run_serve W cfg))))))))))))"

text \<open>\<open>main\<close>: the exit status.\<close>

definition server_main :: "text_lib \<Rightarrow> world \<Rightarrow> ('w \<Rightarrow> int) \<Rightarrow> (string \<Rightarrow> string) \<Rightarrow> nat proc" where
  "server_main L W clk vars =
     (case run_process L W clk vars of (Inl err, fx) \<Rightarrow> (1, fx) | (Inr _, fx) \<Rightarrow> (0, fx))"

section \<open>What is held\<close>

text \<open>
  The resources held after a sequence of effects, the last one first; \<open>None\<close> if something is acquired twice or
  released without being held.
\<close>

fun held :: "resource list \<Rightarrow> effect list \<Rightarrow> resource list option" where
  "held st [] = Some st"
| "held st (Acquire x # fx) = (if x \<in> set st then None else held (x # st) fx)"
| "held st (Release x # fx) = (if x \<in> set st then held (remove1 x st) fx else None)"
| "held st (_ # fx) = held st fx"

lemma held_append: "held st (fx @ gx) = (case held st fx of None \<Rightarrow> None | Some st' \<Rightarrow> held st' gx)"
  by (induction st fx rule: held.induct) auto

lemma held_releases: "held (xs @ st) (map Release xs) = Some st"
  by (induction xs) auto

definition externals_of :: "world \<Rightarrow> externals" where
  "externals_of W = \<lparr>ex_mysql = (\<lambda>dsn. fst (mysql_Open W dsn)), ex_migrate = fst (Migrate W),
     ex_redis = w_redisPing W, ex_redis_idem = w_idemPing W\<rparr>"

text \<open>What a server with the settings and backends \<open>R\<close> holds while it serves.\<close>

definition holdings :: "'b running \<Rightarrow> resource list" where
  "holdings R = Sweeper (seconds 60)
     # (if rn_redis R = ExternalBackend then [IdempotencyClient, LeaderboardClient] else [])
     @ (if rn_db R = ExternalBackend then [Database] else []) @ [SignalHandler]"

section \<open>Lemmas\<close>

lemmas proc_defs = after_def deferred_def

text \<open>
  An opener that fails has given back what it acquired; one that succeeds holds exactly what its cleanup releases.
\<close>

definition opened :: "resource list \<Rightarrow> resource \<Rightarrow> (backend \<times> resource list) result proc \<Rightarrow> bool" where
  "opened st x p \<longleftrightarrow> Listen \<notin> set (snd p) \<and>
     (case fst p of
        Inl _ \<Rightarrow> held st (snd p) = Some st
      | Inr (b, cleanup) \<Rightarrow> cleanup = (if b = ExternalBackend then [x] else []) \<and> held st (snd p) = Some (cleanup @ st))"

lemma open_db_opened: "Database \<notin> set st \<Longrightarrow> Timer (seconds 5) \<notin> set st \<Longrightarrow> opened st Database (open_db W dsn)"
  by (auto simp: opened_def open_db_def mysql_Open_def Migrate_def proc_defs split: sum.splits)

lemma open_redis_opened:
  "x \<notin> set st \<Longrightarrow> Timer (seconds 3) \<notin> set st \<Longrightarrow> x \<noteq> Timer (seconds 3) \<Longrightarrow> opened st x (open_redis x ping addr)"
  by (auto simp: opened_def open_redis_def proc_defs split: sum.splits)

text \<open>The results are those of the startup without effects.\<close>

lemma open_db_result: "map_sum id fst (fst (open_db W dsn)) = openMaybeMySQL (ex_mysql (externals_of W)) (ex_migrate (externals_of W)) dsn"
  by (auto simp: open_db_def openMaybeMySQL_def externals_of_def proc_defs split: sum.splits prod.splits)

lemma open_redis_result: "map_sum id fst (fst (open_redis x ping addr)) = openLeaderboard ping addr"
  by (auto simp: open_redis_def openLeaderboard_def proc_defs split: sum.splits)

lemma openIdempotencyStore_result:
  "openIdempotencyStore ping addr ttl =
     map_sum id (\<lambda>b. if b = InmemBackend then Some (NewInmemStore ttl) else None) (openLeaderboard ping addr)"
  by (auto simp: openIdempotencyStore_def openLeaderboard_def split: sum.splits)

lemma openLeaderboard_backend: "openLeaderboard ping addr = Inr b \<Longrightarrow> b = InmemBackend \<longleftrightarrow> addr = ''''"
  by (auto simp: openLeaderboard_def split: if_splits sum.splits)

text \<open>A body between an opener's effects and its cleanup.\<close>

lemma held_deferred:
  assumes "held st fx = Some (cleanup @ st)" "held (cleanup @ st) (snd p) = Some (cleanup @ st)"
  shows "held st (snd (after fx (deferred cleanup p))) = Some st"
  using assms by (simp add: proc_defs held_append held_releases)

lemma run_serve_held: "Timer (cf_ShutdownTimeout cfg) \<notin> set st \<Longrightarrow> held st (snd (run_serve W cfg)) = Some st"
  by (auto simp: run_serve_def proc_defs split: option.splits sum.splits)

text \<open>The stages of the startup, in the order of \<open>run\<close>, with what they hold.\<close>

lemma stages:
  assumes "open_db W dsn = (r1, fx1)" "open_redis LeaderboardClient ping addr = (r2, fx2)"
    "open_redis IdempotencyClient iping addr = (r3, fx3)"
  shows "opened [SignalHandler] Database (r1, fx1)"
    and "r1 = Inr (b1, cl1) \<Longrightarrow> opened (cl1 @ [SignalHandler]) LeaderboardClient (r2, fx2)"
    and "r1 = Inr (b1, cl1) \<Longrightarrow> r2 = Inr (b2, cl2) \<Longrightarrow> opened (cl2 @ cl1 @ [SignalHandler]) IdempotencyClient (r3, fx3)"
proof -
  show one: "opened [SignalHandler] Database (r1, fx1)"
    unfolding assms(1) [symmetric] by (rule open_db_opened) simp_all
  show "opened (cl1 @ [SignalHandler]) LeaderboardClient (r2, fx2)" if "r1 = Inr (b1, cl1)"
    unfolding assms(2) [symmetric] using one that by (intro open_redis_opened) (auto simp: opened_def split: if_splits)
  then show "opened (cl2 @ cl1 @ [SignalHandler]) IdempotencyClient (r3, fx3)" if "r1 = Inr (b1, cl1)" "r2 = Inr (b2, cl2)"
    unfolding assms(3) [symmetric] using one that by (intro open_redis_opened) (auto simp: opened_def split: if_splits)
qed

text \<open>The state of \<open>run\<close> after the settings are loaded, over the results of the stages.\<close>

lemma run_stages:
  assumes "Load L vars = Inr cfg" "open_db W (cf_MySQLDSN cfg) = (r1, fx1)"
    "open_redis LeaderboardClient (w_redisPing W) (cf_RedisAddr cfg) = (r2, fx2)"
    "open_redis IdempotencyClient (w_idemPing W) (cf_RedisAddr cfg) = (r3, fx3)"
  shows "run_startup L (externals_of W) vars e =
     (case r1 of Inl err \<Rightarrow> Inl (Wrap ''open db'' err)
      | Inr (b1, _) \<Rightarrow> (case r2 of Inl err \<Rightarrow> Inl (Wrap ''open redis'' err)
      | Inr (b2, _) \<Rightarrow> (case buildAuth clock_at (cf_AuthSecret cfg) (cf_AuthTokenTTL cfg) of Inl err \<Rightarrow> Inl (Wrap ''auth'' err)
      | Inr (i, v) \<Rightarrow> (case r3 of Inl err \<Rightarrow> Inl (Wrap ''idempotency'' err)
      | Inr (b3, _) \<Rightarrow> Inr \<lparr>rn_cfg = cfg, rn_level = parseLogLevel (cf_LogLevel cfg), rn_db = b1, rn_redis = b2,
          rn_issuer = i, rn_validator = v, rn_impl = Build (cf_BattleImpl cfg),
          rn_state = initial_state cfg (if b3 = InmemBackend then Some (NewInmemStore (cf_IdempotencyTTL cfg)) else None) e\<rparr>))))"
proof -
  have "openMaybeMySQL (ex_mysql (externals_of W)) (ex_migrate (externals_of W)) (cf_MySQLDSN cfg) = map_sum id fst r1"
    "openLeaderboard (ex_redis (externals_of W)) (cf_RedisAddr cfg) = map_sum id fst r2"
    "openLeaderboard (ex_redis_idem (externals_of W)) (cf_RedisAddr cfg) = map_sum id fst r3"
    using open_db_result [of W "cf_MySQLDSN cfg"] open_redis_result [of LeaderboardClient "w_redisPing W" "cf_RedisAddr cfg"]
      open_redis_result [of IdempotencyClient "w_idemPing W" "cf_RedisAddr cfg"] assms(2-4)
    by (simp_all add: externals_of_def)
  then show ?thesis
    by (simp add: run_startup_def assms(1) openIdempotencyStore_result split: sum.splits prod.splits)
qed

lemma run_process_failing:
  assumes "run_startup L (externals_of W) vars e = (Inl err :: 'b running result)"
    and "run_process L W (clock_at :: 'b server \<Rightarrow> int) vars = (r, fx)"
  shows "r = Inl err \<and> Listen \<notin> set fx \<and> held [] fx = Some []"
proof (cases "Load L vars")
  case (Inl err)
  with assms show ?thesis by (auto simp: run_startup_def run_process_def)
next
  case (Inr cfg)
  obtain r1 fx1 r2 fx2 r3 fx3 where st: "open_db W (cf_MySQLDSN cfg) = (r1, fx1)"
      "open_redis LeaderboardClient (w_redisPing W) (cf_RedisAddr cfg) = (r2, fx2)"
      "open_redis IdempotencyClient (w_idemPing W) (cf_RedisAddr cfg) = (r3, fx3)" by (metis surj_pair)
  note run = assms(1) [unfolded run_stages [OF Inr st]] assms(2) [unfolded run_process_def Inr sum.case st]
  note ops = stages [OF st, unfolded opened_def fst_conv snd_conv]
  show ?thesis
  proof (cases r1)
    case (Inl err)
    with run ops(1) show ?thesis by (auto simp: proc_defs held_append)
  next
    case r1: (Inr p1)
    obtain b1 cl1 where p1: "p1 = (b1, cl1)" by (rule prod.exhaust)
    note one = ops(1) [unfolded r1 p1 sum.case prod.case] and ops2 = ops(2) [OF r1 [unfolded p1]]
    show ?thesis
    proof (cases r2)
      case (Inl err)
      with run r1 p1 one ops2 show ?thesis by (auto simp: proc_defs held_append held_releases)
    next
      case r2: (Inr p2)
      obtain b2 cl2 where p2: "p2 = (b2, cl2)" by (rule prod.exhaust)
      note two = ops2 [unfolded r2 p2 sum.case prod.case] and ops3 = ops(3) [OF r1 [unfolded p1] r2 [unfolded p2]]
      show ?thesis
      proof (cases "buildAuth (clock_at :: 'b server \<Rightarrow> int) (cf_AuthSecret cfg) (cf_AuthTokenTTL cfg)")
        case (Inl err)
        with run r1 p1 r2 p2 one two show ?thesis by (auto simp: proc_defs held_append held_releases)
      next
        case (Inr au)
        with run r1 p1 r2 p2 one two ops3 show ?thesis
          by (auto simp: proc_defs held_append held_releases split: sum.splits prod.splits)
      qed
    qed
  qed
qed

lemma run_process_serving:
  assumes "run_startup L (externals_of W) vars e = Inr (R :: 'b running)"
    and "run_process L W (clock_at :: 'b server \<Rightarrow> int) vars = (r, fx)"
  shows "\<exists>pre. Listen \<notin> set pre \<and> held [] pre = Some (holdings R) \<and> r = fst (run_serve W (rn_cfg R))
    \<and> fx = pre @ snd (run_serve W (rn_cfg R)) @ map Release (holdings R)"
proof -
  obtain cfg where cfg: "Load L vars = Inr cfg" using assms(1) by (auto simp: run_startup_def split: sum.splits)
  obtain r1 fx1 r2 fx2 r3 fx3 where st: "open_db W (cf_MySQLDSN cfg) = (r1, fx1)"
      "open_redis LeaderboardClient (w_redisPing W) (cf_RedisAddr cfg) = (r2, fx2)"
      "open_redis IdempotencyClient (w_idemPing W) (cf_RedisAddr cfg) = (r3, fx3)" by (metis surj_pair)
  obtain b1 cl1 b2 cl2 b3 cl3 i v where rs: "r1 = Inr (b1, cl1)" "r2 = Inr (b2, cl2)" "r3 = Inr (b3, cl3)"
      "buildAuth (clock_at :: 'b server \<Rightarrow> int) (cf_AuthSecret cfg) (cf_AuthTokenTTL cfg) = Inr (i, v)"
      "rn_cfg R = cfg" "rn_db R = b1" "rn_redis R = b2"
    using assms(1) [unfolded run_stages [OF cfg st]] by (auto split: sum.splits)
  note ops = stages [OF st, unfolded opened_def fst_conv snd_conv]
  have "b2 = b3"
    using open_redis_result [of LeaderboardClient "w_redisPing W" "cf_RedisAddr cfg"] openLeaderboard_backend [of "w_redisPing W" "cf_RedisAddr cfg" b2]
      open_redis_result [of IdempotencyClient "w_idemPing W" "cf_RedisAddr cfg"] openLeaderboard_backend [of "w_idemPing W" "cf_RedisAddr cfg" b3]
      st rs by (cases b2; cases b3) auto
  with ops(1) ops(2) [OF rs(1)] ops(3) [OF rs(1,2)] rs
  have cl: "Listen \<notin> set (fx1 @ fx2 @ fx3)" "holdings R = Sweeper (seconds 60) # cl3 @ cl2 @ cl1 @ [SignalHandler]"
      "held [SignalHandler] fx1 = Some (cl1 @ [SignalHandler])"
      "held (cl1 @ [SignalHandler]) fx2 = Some (cl2 @ cl1 @ [SignalHandler])"
      "held (cl2 @ cl1 @ [SignalHandler]) fx3 = Some (cl3 @ cl2 @ cl1 @ [SignalHandler])"
      "Sweeper (seconds 60) \<notin> set (cl3 @ cl2 @ cl1 @ [SignalHandler])"
    by (auto simp: holdings_def split: if_splits)
  let ?pre = "Acquire SignalHandler # fx1 @ fx2 @ fx3 @ [Acquire (Sweeper (seconds 60))]"
  have "held [] ?pre = Some (holdings R)" using cl by (simp add: held_append)
  moreover have "r = fst (run_serve W cfg)" "fx = ?pre @ snd (run_serve W cfg) @ map Release (holdings R)"
    using assms(2) cfg st rs cl(2) by (auto simp: run_process_def proc_defs)
  ultimately show ?thesis using cl(1) rs(5) by (intro exI [of _ ?pre]) simp
qed

lemma run_serve_shape:
  "run_serve W cfg = (fst (run_await (w_listen W) pause (w_shutdown W) s),
     Listen # (if w_listen W = None
       then [Draining, Sleep (seconds 5), Acquire (Timer (cf_ShutdownTimeout cfg)), Shutdown, Release (Timer (cf_ShutdownTimeout cfg))]
       else []))"
  by (auto simp: run_serve_def run_await_def proc_defs Let_def split: option.splits sum.splits)

lemma server_main_exit:
  "run_process L W clk vars = (r, fx) \<Longrightarrow> server_main L W clk vars = (if isl r then 1 else 0, fx)"
  by (cases r) (simp_all add: server_main_def)

section \<open>Properties\<close>

text \<open>
  C30: the life of the process. Whatever the settings are and however drivers, migrations, Redis, the listener
  and the operating system answer: a startup that fails exits with status 1 and the error of the failing step, never
  listens, and has given back everything it had acquired, each thing once. A startup that succeeds listens while it
  holds exactly the stores that the settings ask for, the sweeper and the signal handler; after a signal it drains, waits five
  seconds and shuts down, in this order and before any store is closed; in the end everything is released in the
  reverse order of acquisition, each thing once, also when the listener fails or the shutdown times out.
\<close>

theorem process_lifecycle:
  "case (run_startup L (externals_of W) vars e :: 'b running result) of
     Inl err \<Rightarrow> (\<exists>fx. run_process L W (clock_at :: 'b server \<Rightarrow> int) vars = (Inl err, fx)
       \<and> server_main L W (clock_at :: 'b server \<Rightarrow> int) vars = (1, fx) \<and> Listen \<notin> set fx \<and> held [] fx = Some [])
   | Inr R \<Rightarrow> (\<exists>pre r fx. run_process L W (clock_at :: 'b server \<Rightarrow> int) vars = (r, fx)
       \<and> server_main L W (clock_at :: 'b server \<Rightarrow> int) vars = (if isl r then 1 else 0, fx)
       \<and> r = fst (run_await (w_listen W) pause (w_shutdown W) s)
       \<and> fx = pre @ Listen # (if w_listen W = None
           then [Draining, Sleep (seconds 5), Acquire (Timer (cf_ShutdownTimeout (rn_cfg R))), Shutdown,
             Release (Timer (cf_ShutdownTimeout (rn_cfg R)))]
           else []) @ map Release (holdings R)
       \<and> Listen \<notin> set pre \<and> held [] pre = Some (holdings R) \<and> held [] fx = Some [])"
proof (cases "run_startup L (externals_of W) vars e :: 'b running result")
  case (Inl err)
  obtain r fx where run: "run_process L W (clock_at :: 'b server \<Rightarrow> int) vars = (r, fx)" by (rule prod.exhaust)
  from run_process_failing [OF Inl run] run server_main_exit [OF run] show ?thesis by (simp add: Inl)
next
  case (Inr R)
  obtain r fx where run: "run_process L W (clock_at :: 'b server \<Rightarrow> int) vars = (r, fx)" by (rule prod.exhaust)
  from run_process_serving [OF Inr run] obtain pre where pre: "Listen \<notin> set pre" "held [] pre = Some (holdings R)"
      "r = fst (run_serve W (rn_cfg R))" "fx = pre @ snd (run_serve W (rn_cfg R)) @ map Release (holdings R)" by blast
  have "held (holdings R) (snd (run_serve W (rn_cfg R))) = Some (holdings R)"
    by (rule run_serve_held) (simp add: holdings_def)
  then have "held [] fx = Some []" using pre(2,4) held_releases [of "holdings R" "[]"] by (simp add: held_append)
  with pre run server_main_exit [OF run] show ?thesis
    by (simp add: Inr run_serve_shape [where pause = pause and s = s])
qed

end
