(* ===== verification/Observability.thy ===== *)
theory Observability
  imports Server
begin

text \<open>
  What operators see: the access log (\<open>RequestLogger\<close> and \<open>LoggerFrom\<close> of \<open>endpoint/middleware.go\<close>) and the
  Prometheus registry (\<open>endpoint/prometheus.go\<close>). A logger is the list of its attributes; a line that its level
  admits is appended to a field of the state. The handler inside is given the logger that the context carries.
  The Prometheus library is an argument with its documented laws.
\<close>

section \<open>Loggers\<close>

datatype log_value = LStr string | LInt int

type_synonym log_attrs = "(string \<times> log_value) list"

record logger =
  lg_level :: log_level
  lg_attrs :: log_attrs

record log_line =
  ll_level :: log_level
  ll_msg :: string
  ll_attrs :: log_attrs

fun slog_Level :: "log_level \<Rightarrow> int" where
  "slog_Level LevelDebug = - 4"
| "slog_Level LevelInfo = 0"
| "slog_Level LevelWarn = 4"
| "slog_Level LevelError = 8"

definition logger_With :: "log_attrs \<Rightarrow> logger \<Rightarrow> logger" where
  "logger_With attrs l = l\<lparr>lg_attrs := lg_attrs l @ attrs\<rparr>"

definition logger_log :: "('s, log_line list) field \<Rightarrow> logger \<Rightarrow> log_level \<Rightarrow> string \<Rightarrow> log_attrs \<Rightarrow> 's \<Rightarrow> 's" where
  "logger_log sink l level msg attrs s =
     (if slog_Level (lg_level l) \<le> slog_Level level
      then fput sink (fget sink s @ [\<lparr>ll_level = level, ll_msg = msg, ll_attrs = lg_attrs l @ attrs\<rparr>]) s
      else s)"

text \<open>\<open>LoggerFrom\<close>: the logger in the context, or the default one.\<close>

definition LoggerFrom :: "logger \<Rightarrow> logger option \<Rightarrow> logger" where
  "LoggerFrom dflt ctx = (case ctx of Some l \<Rightarrow> l | None \<Rightarrow> dflt)"

section \<open>The access log\<close>

text \<open>Integer division rounds towards zero.\<close>

definition Milliseconds :: "int \<Rightarrow> int" where
  "Milliseconds d = (if d < 0 then - (- d div 1000000) else d div 1000000)"

definition BytesWritten :: "(chunk \<Rightarrow> nat) \<Rightarrow> rw_op list \<Rightarrow> nat" where
  "BytesWritten len ops = sum_list (map len (rw_out (rw_run ops new_rw)))"

text \<open>\<open>reqID\<close> and \<open>path\<close> are \<open>middleware.GetReqID\<close> and \<open>r.URL.Path\<close>; \<open>len\<close> is the length of an encoded chunk.\<close>

definition RequestLogger ::
  "('s, log_line list) field \<Rightarrow> ('s \<Rightarrow> int \<times> 's) \<Rightarrow> (chunk \<Rightarrow> nat) \<Rightarrow> (request \<Rightarrow> string) \<Rightarrow> (request \<Rightarrow> string) \<Rightarrow>
     logger \<Rightarrow> (logger option \<Rightarrow> 's handler) \<Rightarrow> 's handler" where
  "RequestLogger sink now len reqID path base next r s =
     (let l = logger_With [(''request_id'', LStr (reqID r)), (''method'', LStr (rq_Method r)), (''path'', LStr (path r))] base;
          (start, s) = now s; (ops, s) = next (Some l) r s; (t, s) = now s
      in (ops, logger_log sink l LevelInfo ''request''
            [(''status'', LInt (int (wrapped_Status ops))), (''bytes'', LInt (int (BytesWritten len ops))),
             (''duration_ms'', LInt (Milliseconds (t - start)))] s))"

section \<open>Prometheus\<close>

datatype 's collector =
    GoCollector
  | ProcessCollector
  | GaugeFunc string string "'s \<Rightarrow> float64"
  | HistogramVec string string "float64 list" "string list"

text \<open>\<open>Register\<close> refuses a collector by \<open>None\<close>; \<open>MustRegister\<close> panics then.\<close>

record 's prom_lib =
  pl_Register :: "'s collector \<Rightarrow> 's collector list \<Rightarrow> 's collector list option"
  pl_DefBuckets :: "float64 list"
  pl_HandlerFor :: "'s collector list \<Rightarrow> 's handler"

record 's PrometheusHandler =
  ph_reg :: "'s collector list"
  ph_handler :: "'s handler"
  ph_httpDurH :: "'s collector"

fun MustRegister :: "'s prom_lib \<Rightarrow> 's collector list \<Rightarrow> 's collector list \<Rightarrow> 's collector list option" where
  "MustRegister P [] reg = Some reg"
| "MustRegister P (c # cs) reg = (case pl_Register P c reg of None \<Rightarrow> None | Some reg \<Rightarrow> MustRegister P cs reg)"

definition http_duration :: "'s prom_lib \<Rightarrow> 's collector" where
  "http_duration P = HistogramVec ''http_request_duration_seconds''
     ''HTTP request latency partitioned by method, chi route pattern, and status code.''
     (pl_DefBuckets P) [''method'', ''path'', ''status'']"

definition NewPrometheusHandler :: "'s prom_lib \<Rightarrow> ('s \<Rightarrow> Room) \<Rightarrow> ('s \<Rightarrow> Optimize) \<Rightarrow> 's PrometheusHandler option" where
  "NewPrometheusHandler P rm opt =
     (case MustRegister P [GoCollector, ProcessCollector] [] of None \<Rightarrow> None
      | Some reg \<Rightarrow> (case MustRegister P [GaugeFunc ''stagesync_room_connected_players''
            ''Number of players currently connected to the WebSocket room.'' (\<lambda>s. gauge_connected_players (rm s))] reg of None \<Rightarrow> None
      | Some reg \<Rightarrow> (case MustRegister P [GaugeFunc ''stagesync_optimize_on''
            ''1 when the optimized (pooled) AOI path is active, 0 otherwise.'' (\<lambda>s. gauge_optimize_on (opt s))] reg of None \<Rightarrow> None
      | Some reg \<Rightarrow> (case MustRegister P [http_duration P] reg of None \<Rightarrow> None
      | Some reg \<Rightarrow> Some \<lparr>ph_reg = reg, ph_handler = pl_HandlerFor P reg, ph_httpDurH = http_duration P\<rparr>))))"

definition HTTPDurationHistogram :: "'s PrometheusHandler \<Rightarrow> 's collector" where
  "HTTPDurationHistogram h = ph_httpDurH h"

section \<open>The logged server\<close>

text \<open>The server with its log: \<open>RequestLogger\<close> outside of the middleware of \<open>serve\<close>, with the logger that \<open>run\<close> creates.\<close>

definition run_logger :: "'b running \<Rightarrow> logger" where
  "run_logger R = \<lparr>lg_level = rn_level R, lg_attrs = []\<rparr>"

definition logged_serve ::
  "(chunk \<Rightarrow> nat) \<Rightarrow> (request \<Rightarrow> string) \<Rightarrow> (request \<Rightarrow> string) \<Rightarrow> 'b server_deps \<Rightarrow> 'b running \<Rightarrow> string \<Rightarrow>
     ('b server \<times> log_line list) handler" where
  "logged_serve len reqID path D R pat =
     RequestLogger snd_of (on_field fst_of idem_now) len reqID path (run_logger R)
       (\<lambda>_ r. on_field fst_of (serve D R pat r))"

lemma RequestMetrics_observes:
  assumes "RequestMetrics at_hist idem_now pattern h r s = (ops, s')"
  shows "\<exists>os ob. sa_hist (iw_app s') = os @ [ob] \<and> ob_method ob = rq_Method r \<and> ob_status ob = itoa_nat (wrapped_Status ops)
    \<and> ob_path ob = (if pattern r = '''' then ''(unknown)'' else pattern r)"
  using assms by (auto simp: RequestMetrics_def Let_def case_prod_unfold server_fields)

lemma serve_observes:
  assumes "serve D R pat r s = (ops, s')"
  shows "\<exists>os ob. sa_hist (iw_app s') = os @ [ob] \<and> ob_method ob = rq_Method r \<and> ob_status ob = itoa_nat (wrapped_Status ops)
    \<and> ob_path ob = (if pat = '''' then ''(unknown)'' else pat)"
  using RequestMetrics_observes [OF assms [unfolded serve_def]] .

lemma info_admitted: "slog_Level l \<le> 0 \<longleftrightarrow> l = LevelDebug \<or> l = LevelInfo"
  by (cases l) simp_all

section \<open>Properties\<close>


section \<open>The registry\<close>

text \<open>
  The documented laws: a collector is accepted unless one of its metric names is taken. The names of the two
  collectors of the library begin with \<open>go_\<close> and \<open>process_\<close>.
\<close>

fun metric_names :: "string set \<Rightarrow> string set \<Rightarrow> 's collector \<Rightarrow> string set" where
  "metric_names go prc GoCollector = go"
| "metric_names go prc ProcessCollector = prc"
| "metric_names go prc (GaugeFunc n h f) = {n}"
| "metric_names go prc (HistogramVec n h bs ls) = {n}"

definition prom_laws :: "string set \<Rightarrow> string set \<Rightarrow> 's prom_lib \<Rightarrow> bool" where
  "prom_laws go prc P \<longleftrightarrow> (\<forall>n\<in>go. take 3 n = ''go_'') \<and> (\<forall>n\<in>prc. take 8 n = ''process_'')
     \<and> (\<forall>c cs. (\<forall>d\<in>set cs. metric_names go prc c \<inter> metric_names go prc d = {}) \<longrightarrow> pl_Register P c cs = Some (cs @ [c]))"

definition gauges :: "'s collector list \<Rightarrow> 's \<Rightarrow> (string \<times> float64) list" where
  "gauges cs s = concat (map (\<lambda>c. case c of GaugeFunc n h f \<Rightarrow> [(n, f s)] | _ \<Rightarrow> []) cs)"

lemma metric_names_apart:
  assumes "prom_laws go prc P"
  shows "prc \<inter> go = {}" "take 3 n \<noteq> ''go_'' \<Longrightarrow> n \<notin> go" "take 8 n \<noteq> ''process_'' \<Longrightarrow> n \<notin> prc"
proof -
  have "take 3 n = ''pro''" if "n \<in> prc" for n
  proof -
    have "take 8 n = ''process_''" using assms that by (simp add: prom_laws_def)
    then have "take 3 (take 8 n) = take 3 ''process_''" by simp
    then show ?thesis by simp
  qed
  with assms show "prc \<inter> go = {}" by (fastforce simp: prom_laws_def)
qed (use assms in \<open>auto simp: prom_laws_def\<close>)

text \<open>
  The constructor never panics, and what a scrape reads of the two gauges is the size of the room and the switch at
  that moment.
\<close>

theorem prometheus_registered:
  assumes "prom_laws go prc P"
  shows "\<exists>h. NewPrometheusHandler P rm opt = Some h \<and> http_duration P \<in> set (ph_reg h) \<and> HTTPDurationHistogram h = http_duration P
    \<and> ph_handler h = pl_HandlerFor P (ph_reg h)
    \<and> gauges (ph_reg h) s = [(''stagesync_room_connected_players'', f64_of_int (Room_Size (rm s))),
        (''stagesync_optimize_on'', if Optimize_On (opt s) then Finite 1 0 else Finite 0 0)]"
proof -
  have reg: "pl_Register P c cs = Some (cs @ [c])" if "\<forall>d\<in>set cs. metric_names go prc c \<inter> metric_names go prc d = {}" for c cs
    using assms that by (simp add: prom_laws_def)
  show ?thesis
    by (simp add: NewPrometheusHandler_def reg http_duration_def HTTPDurationHistogram_def gauges_def gauge_connected_players_def
        gauge_optimize_on_def metric_names_apart [OF assms])
qed

text \<open>A registry that keeps exactly these laws.\<close>

definition ref_prom :: "'s prom_lib" where
  "ref_prom = \<lparr>pl_Register = (\<lambda>c cs. if \<exists>d\<in>set cs. metric_names {} {} c \<inter> metric_names {} {} d \<noteq> {} then None else Some (cs @ [c])),
     pl_DefBuckets = [], pl_HandlerFor = (\<lambda>_ r s. ([WriteHeader 200], s))\<rparr>"

lemma ref_prom_laws: "prom_laws {} {} ref_prom"
  by (auto simp: prom_laws_def ref_prom_def)

end
