(* ===== verification/Aoi.thy ===== *)
theory Aoi
  imports Go_Float
begin

text \<open>
  \<open>internal/service/aoi\<close>: the area-of-interest filter. \<open>Naive\<close> appends to a new slice, \<open>Pooled\<close> to a
  buffer of a \<open>sync.Pool\<close>, whose backing array still holds the results of earlier calls. A slice that
  starts at its array is the array and a length; \<open>append\<close> overwrites the array while there is
  room and moves to a larger array otherwise (\<open>grow\<close> gives the spare room, which Go leaves
  open). \<open>sync.Pool.Get\<close> may return any buffer that was put back, or a new one.
\<close>

section \<open>Points\<close>

record Point =
  pt_X :: float64
  pt_Y :: float64

definition squaredDist :: "Point \<Rightarrow> Point \<Rightarrow> float64" where
  "squaredDist a b =
     (let dx = f64_sub (pt_X a) (pt_X b); dy = f64_sub (pt_Y a) (pt_Y b)
      in f64_add (f64_mul dx dx) (f64_mul dy dy))"

section \<open>The simple filter\<close>

fun Naive_loop :: "Point \<Rightarrow> float64 \<Rightarrow> int \<Rightarrow> Point list \<Rightarrow> int list \<Rightarrow> int list" where
  "Naive_loop self r2 i [] result = result"
| "Naive_loop self r2 i (o' # os) result =
     Naive_loop self r2 (i + 1) os (if f64_le (squaredDist self o') r2 then result @ [i] else result)"

definition Naive :: "Point \<Rightarrow> Point list \<Rightarrow> float64 \<Rightarrow> int list" where
  "Naive self others radius = (let r2 = f64_mul radius radius in Naive_loop self r2 0 others [])"

section \<open>Slices and the pool\<close>

record slice =
  sl_array :: "int list"
  sl_len :: nat

definition slice_elems :: "slice \<Rightarrow> int list" where
  "slice_elems b = take (sl_len b) (sl_array b)"

definition slice_append :: "(nat \<Rightarrow> nat) \<Rightarrow> slice \<Rightarrow> int \<Rightarrow> slice" where
  "slice_append grow b x =
     (if sl_len b < length (sl_array b)
      then \<lparr>sl_array = (sl_array b)[sl_len b := x], sl_len = Suc (sl_len b)\<rparr>
      else \<lparr>sl_array = sl_array b @ x # replicate (grow (sl_len b)) 0, sl_len = Suc (sl_len b)\<rparr>)"

text \<open>\<open>b[:0]\<close>.\<close>

definition slice_reset :: "slice \<Rightarrow> slice" where
  "slice_reset b = b\<lparr>sl_len := 0\<rparr>"

definition idxPool_New :: slice where
  "idxPool_New = \<lparr>sl_array = replicate 64 0, sl_len = 0\<rparr>"

text \<open>\<open>pick\<close> is the pool's choice: the position of a pooled buffer, or none.\<close>

definition idxPool_Get :: "nat option \<Rightarrow> slice list \<Rightarrow> slice \<times> slice list" where
  "idxPool_Get pick pool =
     (case pick of
        Some i \<Rightarrow> if i < length pool then (pool ! i, take i pool @ drop (Suc i) pool) else (idxPool_New, pool)
      | None \<Rightarrow> (idxPool_New, pool))"

section \<open>The pooled filter\<close>

fun Pooled_loop :: "(nat \<Rightarrow> nat) \<Rightarrow> Point \<Rightarrow> float64 \<Rightarrow> int \<Rightarrow> Point list \<Rightarrow> slice \<Rightarrow> slice" where
  "Pooled_loop grow self r2 i [] buf = buf"
| "Pooled_loop grow self r2 i (o' # os) buf =
     Pooled_loop grow self r2 (i + 1) os
       (if f64_le (squaredDist self o') r2 then slice_append grow buf i else buf)"

definition Pooled ::
  "(nat \<Rightarrow> nat) \<Rightarrow> nat option \<Rightarrow> Point \<Rightarrow> Point list \<Rightarrow> float64 \<Rightarrow> (int list \<Rightarrow> 's \<Rightarrow> 's)
     \<Rightarrow> slice list \<times> 's \<Rightarrow> slice list \<times> 's" where
  "Pooled grow pick self others radius fn st =
     (let (pool, s) = st;
          (bp, pool) = idxPool_Get pick pool;
          r2 = f64_mul radius radius;
          buf = Pooled_loop grow self r2 0 others (slice_reset bp);
          s = fn (slice_elems buf) s
      in (slice_reset buf # pool, s))"

section \<open>Slices behave like lists\<close>

definition slice_wf :: "slice \<Rightarrow> bool" where
  "slice_wf b \<longleftrightarrow> sl_len b \<le> length (sl_array b)"

lemma slice_append_elems [simp]:
  assumes "slice_wf b"
  shows "slice_elems (slice_append grow b x) = slice_elems b @ [x]" "slice_wf (slice_append grow b x)"
  using assms by (auto simp: slice_append_def slice_elems_def slice_wf_def take_Suc_conv_app_nth)

lemma slice_reset_elems [simp]: "slice_elems (slice_reset b) = []" "slice_wf (slice_reset b)"
  by (simp_all add: slice_reset_def slice_elems_def slice_wf_def)

lemma Pooled_loop_elems:
  "slice_wf buf \<Longrightarrow>
     slice_elems (Pooled_loop grow self r2 i os buf) = Naive_loop self r2 i os (slice_elems buf)"
  by (induction os arbitrary: i buf) simp_all

text \<open>The loop as a filter on the indices.\<close>

lemma Naive_loop_filter:
  "Naive_loop self r2 i os acc =
     acc @ map (\<lambda>k. i + int k) (filter (\<lambda>k. f64_le (squaredDist self (os ! k)) r2) [0..<length os])"
proof (induction os arbitrary: i acc)
  case Nil
  then show ?case by simp
next
  case (Cons o' os)
  have upt: "[0..<length (o' # os)] = 0 # map Suc [0..<length os]"
    by (simp add: upt_conv_Cons map_Suc_upt del: upt_Suc)
  show ?case unfolding upt using Cons.IH by (simp add: filter_map comp_def add.assoc)
qed

section \<open>Properties\<close>

text \<open>
  C37: the pooled filter computes what the simple filter computes: whatever buffers the pool holds,
  whichever of them is taken and however the array grows, the callback is called once, on exactly
  the result of \<open>Naive\<close>, in the caller's state.
\<close>

theorem Pooled_eq_Naive:
  "snd (Pooled grow pick self others radius fn (pool, s)) = fn (Naive self others radius) s"
  by (simp add: Pooled_def Naive_def Pooled_loop_elems Let_def case_prod_unfold)

definition grid_point :: "int \<times> int \<Rightarrow> Point" where
  "grid_point p = \<lparr>pt_X = f64_of_int (fst p), pt_Y = f64_of_int (snd p)\<rparr>"

lemma square_bound: "\<bar>d\<bar> < 2 ^ 26 \<Longrightarrow> d * d < (2 :: int) ^ 52"
  using mult_strict_mono' [of "\<bar>d\<bar>" "2 ^ 26" "\<bar>d\<bar>" "2 ^ 26"] by (simp add: abs_mult_self_eq)

lemma squaredDist_grid:
  assumes "\<bar>fst a\<bar> < 2 ^ 25" "\<bar>snd a\<bar> < 2 ^ 25" "\<bar>fst b\<bar> < 2 ^ 25" "\<bar>snd b\<bar> < 2 ^ 25"
  shows "squaredDist (grid_point a) (grid_point b) =
    Finite ((fst a - fst b) * (fst a - fst b) + (snd a - snd b) * (snd a - snd b)) 0"
proof -
  have d: "\<bar>fst a - fst b\<bar> < 2 ^ 26" "\<bar>snd a - snd b\<bar> < 2 ^ 26" using assms by auto
  note sq = square_bound [OF d(1)] square_bound [OF d(2)]
  have pos: "0 \<le> (fst a - fst b) * (fst a - fst b)" "0 \<le> (snd a - snd b) * (snd a - snd b)" by simp_all
  have ints: "f64_of_int (fst a) = Finite (fst a) 0" "f64_of_int (snd a) = Finite (snd a) 0"
    "f64_of_int (fst b) = Finite (fst b) 0" "f64_of_int (snd b) = Finite (snd b) 0"
    using assms by (auto intro!: f64_of_int_exact)
  show ?thesis
    using d sq pos by (simp add: squaredDist_def grid_point_def ints Let_def f64_int_ops del: f64_add.simps f64_mul.simps)
qed

text \<open>
  The filter is exact on whole-number coordinates of magnitude below \<open>2^25\<close>, where binary64 does not round: the
  result lists, in ascending order and without repetition, exactly the indices of the points whose
  distance is at most the radius, the boundary included.
\<close>

theorem Naive_exact:
  assumes "\<bar>fst self\<bar> < 2 ^ 25" "\<bar>snd self\<bar> < 2 ^ 25" "\<bar>radius\<bar> < 2 ^ 26"
    and "\<forall>p \<in> set others. \<bar>fst p\<bar> < 2 ^ 25 \<and> \<bar>snd p\<bar> < 2 ^ 25"
  shows "Naive (grid_point self) (map grid_point others) (f64_of_int radius) =
    map int (filter (\<lambda>k. (fst self - fst (others ! k))\<^sup>2 + (snd self - snd (others ! k))\<^sup>2 \<le> radius\<^sup>2)
      [0..<length others])"
proof -
  have r: "f64_mul (f64_of_int radius) (f64_of_int radius) = Finite (radius * radius) 0"
    using square_bound [OF assms(3)] assms(3)
    by (simp add: f64_of_int_exact f64_int_ops del: f64_mul.simps)
  have "f64_le (squaredDist (grid_point self) (map grid_point others ! k)) (Finite (radius * radius) 0) \<longleftrightarrow>
      (fst self - fst (others ! k))\<^sup>2 + (snd self - snd (others ! k))\<^sup>2 \<le> radius\<^sup>2"
    if "k < length others" for k
  proof -
    have b: "\<bar>fst (others ! k)\<bar> < 2 ^ 25" "\<bar>snd (others ! k)\<bar> < 2 ^ 25" using assms(4) that by auto
    show ?thesis using that
      by (simp add: squaredDist_grid [OF assms(1,2) b] power2_eq_square)
  qed
  then have "filter (\<lambda>k. f64_le (squaredDist (grid_point self) (map grid_point others ! k)) (Finite (radius * radius) 0))
        [0..<length others] =
      filter (\<lambda>k. (fst self - fst (others ! k))\<^sup>2 + (snd self - snd (others ! k))\<^sup>2 \<le> radius\<^sup>2) [0..<length others]"
    by (intro filter_cong) auto
  then show ?thesis by (simp add: Naive_def r Naive_loop_filter)
qed

theorem Naive_exact_witness:
  "Naive (grid_point (0, 0)) (map grid_point [(10, 0), (0, 30), (30, 40), (51, 0)]) (f64_of_int 50) = [0, 1, 2]"
  using Naive_exact [of "(0, 0)" 50 "[(10, 0), (0, 30), (30, 40), (51, 0)]"] by (simp add: upt_rec)

end
