(* ===== verification/Redis_Leaderboard.thy ===== *)
theory Redis_Leaderboard
  imports Ranking Go_Float
begin

text \<open>
  \<open>internal/persistence/redis/leaderboard.go\<close>: the leaderboard on Redis sorted sets. The client is an
  argument; \<open>zset_laws\<close> states what Redis documents of its four commands. Scores in Redis are doubles, so
  the store agrees with the in-memory one as long as no score leaves the whole numbers below \<open>2^53\<close>.
\<close>

section \<open>The store\<close>

text \<open>The commands of the client; \<open>goredis.Nil\<close> is the sentinel \<open>RedisNil\<close>.\<close>

record 's zset_client =
  zc_ZIncrBy :: "string \<Rightarrow> float64 \<Rightarrow> string \<Rightarrow> 's \<Rightarrow> float64 result \<times> 's"
  zc_ZRevRangeWithScores :: "string \<Rightarrow> int \<Rightarrow> int \<Rightarrow> 's \<Rightarrow> (string \<times> float64) list result \<times> 's"
  zc_ZRevRank :: "string \<Rightarrow> string \<Rightarrow> 's \<Rightarrow> int result \<times> 's"
  zc_ZScore :: "string \<Rightarrow> string \<Rightarrow> 's \<Rightarrow> float64 result \<times> 's"

definition redis_key :: "string \<Rightarrow> string" where
  "redis_key eventID = ''ranking:event:'' @ eventID"

definition redis_IncrBy :: "'s zset_client \<Rightarrow> string \<Rightarrow> string \<Rightarrow> int \<Rightarrow> 's \<Rightarrow> int result \<times> 's" where
  "redis_IncrBy Z eventID playerID delta s =
     (case zc_ZIncrBy Z (redis_key eventID) (f64_of_int delta) playerID s of
        (Inl err, s) \<Rightarrow> (Inl (Wrap ''ZINCRBY'' err), s)
      | (Inr newScore, s) \<Rightarrow> (Inr (f64_to_int64 newScore), s))"

text \<open>The loop that turns a range, which starts at index \<open>i\<close> of the set, into entries.\<close>

fun redis_entries :: "int \<Rightarrow> (string \<times> float64) list \<Rightarrow> Entry list" where
  "redis_entries i [] = []"
| "redis_entries i ((pid, sc) # zs) =
     \<lparr>en_PlayerID = pid, en_Score = f64_to_int64 sc, en_Rank = int64 (i + 1)\<rparr> # redis_entries (i + 1) zs"

definition redis_Top :: "'s zset_client \<Rightarrow> string \<Rightarrow> int \<Rightarrow> 's \<Rightarrow> Entry list result \<times> 's" where
  "redis_Top Z eventID n s =
     (if n \<le> 0 then (Inr [], s)
      else case zc_ZRevRangeWithScores Z (redis_key eventID) 0 (int64 (n - 1)) s of
             (Inl err, s) \<Rightarrow> (Inl (Wrap ''ZREVRANGE'' err), s)
           | (Inr res, s) \<Rightarrow> (Inr (redis_entries 0 res), s))"

definition redis_Rank :: "'s zset_client \<Rightarrow> string \<Rightarrow> string \<Rightarrow> 's \<Rightarrow> Entry result \<times> 's" where
  "redis_Rank Z eventID playerID s =
     (let k = redis_key eventID
      in case zc_ZRevRank Z k playerID s of
           (Inl err, s) \<Rightarrow>
             (if errors_Is err RedisNil then (Inl (Sentinel ErrPlayerNotRanked), s)
              else (Inl (Wrap ''ZREVRANK'' err), s))
         | (Inr rank, s) \<Rightarrow>
             (case zc_ZScore Z k playerID s of
                (Inl err, s) \<Rightarrow>
                  (if errors_Is err RedisNil then (Inl (Sentinel ErrPlayerNotRanked), s)
                   else (Inl (Wrap ''ZSCORE'' err), s))
              | (Inr score, s) \<Rightarrow>
                  (Inr \<lparr>en_PlayerID = playerID, en_Score = f64_to_int64 score, en_Rank = int64 (rank + 1)\<rparr>, s)))"

definition redis_Around :: "'s zset_client \<Rightarrow> string \<Rightarrow> string \<Rightarrow> int \<Rightarrow> 's \<Rightarrow> Entry list result \<times> 's" where
  "redis_Around Z eventID playerID radius s =
     (let k = redis_key eventID
      in case zc_ZRevRank Z k playerID s of
           (Inl err, s) \<Rightarrow>
             (if errors_Is err RedisNil then (Inl (Sentinel ErrPlayerNotRanked), s)
              else (Inl (Wrap ''ZREVRANK'' err), s))
         | (Inr rank, s) \<Rightarrow>
             (let start = int64 (rank - radius); start = (if start < 0 then 0 else start);
                  end' = int64 (rank + radius)
              in case zc_ZRevRangeWithScores Z k start end' s of
                   (Inl err, s) \<Rightarrow> (Inl (Wrap ''ZREVRANGE'' err), s)
                 | (Inr res, s) \<Rightarrow> (Inr (redis_entries start res), s)))"

definition redis_ranking_store :: "'s zset_client \<Rightarrow> 's ranking_store" where
  "redis_ranking_store Z =
     \<lparr>rs_IncrBy = redis_IncrBy Z, rs_Top = redis_Top Z, rs_Rank = redis_Rank Z, rs_Around = redis_Around Z\<rparr>"

section \<open>What Redis documents\<close>

text \<open>The order of \<open>ZREVRANGE\<close>: descending scores, equal scores in descending order of the members.\<close>

definition z_before :: "string \<times> float64 \<Rightarrow> string \<times> float64 \<Rightarrow> bool" where
  "z_before a b \<longleftrightarrow> \<not> f64_le (snd a) (snd b) \<or> f64_le (snd b) (snd a) \<and> fst a > fst b"

definition z_listing :: "(string \<Rightarrow> float64 option) \<Rightarrow> (string \<times> float64) list \<Rightarrow> bool" where
  "z_listing m zs \<longleftrightarrow> distinct (map fst zs) \<and> (\<forall>p x. m p = Some x \<longleftrightarrow> (p, x) \<in> set zs) \<and> sorted_wrt z_before zs"

fun z_index :: "string \<Rightarrow> (string \<times> float64) list \<Rightarrow> int option" where
  "z_index p [] = None"
| "z_index p ((q, x) # zs) = (if q = p then Some 0 else map_option (\<lambda>i. i + 1) (z_index p zs))"

definition z_slice :: "int \<Rightarrow> int \<Rightarrow> 'a list \<Rightarrow> 'a list" where
  "z_slice a b zs = take (nat (b - a + 1)) (drop (nat a) zs)"

text \<open>
  \<open>content s k\<close> is the sorted set under key \<open>k\<close>. Doubles represent the whole numbers below \<open>2^53\<close> exactly,
  and for sets of such scores the documentation says: \<open>ZINCRBY\<close> adds and creates a missing member with the
  increment, the other three commands read, by position in the listing and by member.
\<close>

definition whole :: "float64 \<Rightarrow> bool" where
  "whole x \<longleftrightarrow> (\<exists>n. x = Finite n 0 \<and> \<bar>n\<bar> < 2 ^ 53)"

definition zset_laws :: "'s zset_client \<Rightarrow> ('s \<Rightarrow> string \<Rightarrow> string \<Rightarrow> float64 option) \<Rightarrow> bool" where
  "zset_laws Z content \<longleftrightarrow>
     (\<forall>k p s d n. (case content s k p of None \<Rightarrow> n = 0 | Some x \<Rightarrow> x = Finite n 0) \<longrightarrow>
        \<bar>n\<bar> < 2 ^ 53 \<longrightarrow> \<bar>d\<bar> < 2 ^ 53 \<longrightarrow> \<bar>n + d\<bar> < 2 ^ 53 \<longrightarrow>
        (\<exists>s'. zc_ZIncrBy Z k (Finite d 0) p s = (Inr (Finite (n + d) 0), s') \<and>
          content s' = (content s)(k := (content s k)(p \<mapsto> Finite (n + d) 0)))) \<and>
     (\<forall>k s. finite (dom (content s k)) \<longrightarrow> (\<forall>x\<in>ran (content s k). whole x) \<longrightarrow>
        (\<exists>zs. z_listing (content s k) zs \<and>
          (\<forall>a b. 0 \<le> a \<longrightarrow> 0 \<le> b \<longrightarrow> zc_ZRevRangeWithScores Z k a b s = (Inr (z_slice a b zs), s)) \<and>
          (\<forall>p. zc_ZRevRank Z k p s =
             (case z_index p zs of Some i \<Rightarrow> Inr i | None \<Rightarrow> Inl (Sentinel RedisNil), s)))) \<and>
     (\<forall>k p s. zc_ZScore Z k p s =
        (case content s k p of Some x \<Rightarrow> Inr x | None \<Rightarrow> Inl (Sentinel RedisNil), s))"

section \<open>The store keeps the contract of reading\<close>

definition redis_scores :: "('s \<Rightarrow> string \<Rightarrow> string \<Rightarrow> float64 option) \<Rightarrow> 's \<Rightarrow> string \<Rightarrow> string \<Rightarrow> int option" where
  "redis_scores content s ev p = map_option f64_to_int64 (content s (redis_key ev) p)"

text \<open>Every score is a whole number below \<open>2^53\<close>, and the sets have at most \<open>2^62\<close> members.\<close>

definition redis_ok :: "('s \<Rightarrow> string \<Rightarrow> string \<Rightarrow> float64 option) \<Rightarrow> 's \<Rightarrow> bool" where
  "redis_ok content s \<longleftrightarrow>
     (\<forall>k. finite (dom (content s k)) \<and> int (card (dom (content s k))) \<le> 2 ^ 62 \<and>
        (\<forall>x\<in>ran (content s k). whole x))"

lemma redis_entries_nth:
  "i < length zs \<Longrightarrow> redis_entries k zs ! i =
     \<lparr>en_PlayerID = fst (zs ! i), en_Score = f64_to_int64 (snd (zs ! i)), en_Rank = int64 (k + int i + 1)\<rparr>"
  by (induction zs arbitrary: k i) (auto simp: nth_Cons' algebra_simps)

lemma length_redis_entries [simp]: "length (redis_entries k zs) = length zs"
  by (induction zs arbitrary: k) auto

text \<open>Entries of a slice are a slice of the entries.\<close>

lemma redis_entries_slice:
  "0 \<le> a \<Longrightarrow> redis_entries a (z_slice a b zs) = z_slice a b (redis_entries 0 zs)"
  by (rule nth_equalityI) (auto simp: z_slice_def redis_entries_nth algebra_simps)

lemma z_index_nth: "distinct (map fst zs) \<Longrightarrow> i < length zs \<Longrightarrow> z_index (fst (zs ! i)) zs = Some (int i)"
proof (induction zs arbitrary: i)
  case Nil
  then show ?case by simp
next
  case (Cons z zs)
  then show ?case by (cases z; cases i) (auto simp: image_iff dest: nth_mem)
qed

lemma z_index_None: "p \<notin> fst ` set zs \<Longrightarrow> z_index p zs = None"
  by (induction zs) auto

lemma is_ranking_redis:
  assumes l: "z_listing m zs" and len: "int (length zs) \<le> 2 ^ 62"
    and whole: "\<forall>x\<in>ran m. whole x"
  shows "is_ranking (\<lambda>p. map_option f64_to_int64 (m p)) (redis_entries 0 zs)"
proof -
  let ?es = "redis_entries 0 zs"
  have in64: "in_int64 n" if "\<bar>n\<bar> < 2 ^ 53" for n :: int
    using that by (intro in_int64_bounded) auto
  have score: "\<exists>n. snd (zs ! i) = Finite n 0 \<and> f64_to_int64 (snd (zs ! i)) = n" if "i < length zs" for i
  proof -
    have "m (fst (zs ! i)) = Some (snd (zs ! i))"
      using l that by (auto simp: z_listing_def)
    then have "whole (snd (zs ! i))" using whole by (auto intro: ranI)
    with in64 show ?thesis by (metis f64_to_int64_int whole_def)
  qed
  have keys: "(\<exists>e\<in>set ?es. en_PlayerID e = p \<and> en_Score e = a) \<longleftrightarrow> map_option f64_to_int64 (m p) = Some a" for p a
  proof -
    have "(\<exists>e\<in>set ?es. en_PlayerID e = p \<and> en_Score e = a) \<longleftrightarrow>
        (\<exists>i<length zs. fst (zs ! i) = p \<and> f64_to_int64 (snd (zs ! i)) = a)"
      by (auto simp: set_conv_nth redis_entries_nth)
    also have "\<dots> \<longleftrightarrow> (\<exists>x. (p, x) \<in> set zs \<and> f64_to_int64 x = a)"
      by (auto simp: in_set_conv_nth) (metis prod.collapse fst_conv snd_conv)+
    also have "\<dots> \<longleftrightarrow> map_option f64_to_int64 (m p) = Some a"
      using l by (auto simp: z_listing_def)
    finally show ?thesis .
  qed
  have "beats (en_PlayerID (?es ! i)) (en_Score (?es ! i)) (en_PlayerID (?es ! j)) (en_Score (?es ! j))"
    if ij: "i < j" "j < length zs" for i j
  proof -
    have "z_before (zs ! i) (zs ! j)" using l that by (auto simp: z_listing_def sorted_wrt_iff_nth_less)
    moreover obtain a b where "snd (zs ! i) = Finite a 0" "f64_to_int64 (Finite a 0) = a"
      "snd (zs ! j) = Finite b 0" "f64_to_int64 (Finite b 0) = b"
      using score [OF order.strict_trans [OF ij]] score [OF ij(2)] by metis
    ultimately show ?thesis
      using that by (auto simp: z_before_def beats_def redis_entries_nth f64_int_ops simp del: f64_to_int64.simps f64_le.simps)
  qed
  moreover have "map en_Rank ?es = map int [1..<Suc (length ?es)]"
    using len by (intro nth_equalityI) (auto simp: redis_entries_nth int64_small simp del: upt_Suc)
  ultimately show ?thesis
    using keys by (auto simp: is_ranking_def sorted_wrt_iff_nth_less)
qed

text \<open>The listing of a set that satisfies the invariant, and what the commands answer on it.\<close>

lemma redis_listing:
  assumes "zset_laws Z content" "redis_ok content s"
  obtains zs where "z_listing (content s (redis_key ev)) zs" "int (length zs) \<le> 2 ^ 62"
    "\<And>a b. 0 \<le> a \<Longrightarrow> 0 \<le> b \<Longrightarrow> zc_ZRevRangeWithScores Z (redis_key ev) a b s = (Inr (z_slice a b zs), s)"
    "\<And>p. zc_ZRevRank Z (redis_key ev) p s =
       (case z_index p zs of Some i \<Rightarrow> Inr i | None \<Rightarrow> Inl (Sentinel RedisNil), s)"
    "is_ranking (redis_scores content s ev) (redis_entries 0 zs)"
proof -
  let ?m = "content s (redis_key ev)"
  have fin: "finite (dom ?m)" and card: "int (card (dom ?m)) \<le> 2 ^ 62"
    and whole: "\<forall>x\<in>ran ?m. whole x"
    using assms(2) by (auto simp: redis_ok_def)
  from assms(1) fin whole obtain zs where l: "z_listing ?m zs"
    and range: "\<And>a b. 0 \<le> a \<Longrightarrow> 0 \<le> b \<Longrightarrow> zc_ZRevRangeWithScores Z (redis_key ev) a b s = (Inr (z_slice a b zs), s)"
    and rank: "\<And>p. zc_ZRevRank Z (redis_key ev) p s =
       (case z_index p zs of Some i \<Rightarrow> Inr i | None \<Rightarrow> Inl (Sentinel RedisNil), s)"
    unfolding zset_laws_def by blast
  have "dom ?m = set (map fst zs)" using l by (force simp: z_listing_def dom_def)
  then have len: "int (length zs) \<le> 2 ^ 62"
    using card l by (metis z_listing_def distinct_card length_map)
  have "(\<lambda>p. map_option f64_to_int64 (?m p)) = redis_scores content s ev"
    by (simp add: fun_eq_iff redis_scores_def)
  with is_ranking_redis [OF l len whole] that [OF l len range rank] show thesis by simp
qed

lemma redis_member:
  assumes "is_ranking m (redis_entries 0 zs)" "z_listing c zs" "e \<in> set (redis_entries 0 zs)"
  obtains k where "k < length zs" "e = redis_entries 0 zs ! k" "en_PlayerID e = fst (zs ! k)"
    "z_index (en_PlayerID e) zs = Some (int k)" "c (en_PlayerID e) = Some (snd (zs ! k))"
proof -
  obtain k where k: "k < length zs" "e = redis_entries 0 zs ! k"
    using assms(3) by (metis in_set_conv_nth length_redis_entries)
  then have "en_PlayerID e = fst (zs ! k)" by (simp add: redis_entries_nth)
  moreover have "c (fst (zs ! k)) = Some (snd (zs ! k))" using assms(2) k by (auto simp: z_listing_def)
  moreover have "z_index (fst (zs ! k)) zs = Some (int k)"
    using assms(2) k by (auto simp: z_listing_def intro: z_index_nth)
  ultimately show thesis using that k by simp
qed

lemma redis_window:
  assumes rk: "is_ranking m es" and k: "k < length es" and r: "0 \<le> radius"
  shows "window radius (es ! k) es =
    z_slice (if int k - radius < 0 then 0 else int k - radius) (int k + radius) es"
proof -
  define lo where "lo = (if int k - radius < 0 then 0 else int k - radius)"
  have "window radius (es ! k) es = take (nat (int k + radius + 1) - nat lo) (drop (nat lo) es)"
    unfolding window_def
  proof (rule filter_window)
    fix i assume i: "i < length es"
    then show "\<bar>en_Rank (es ! i) - en_Rank (es ! k)\<bar> \<le> radius \<longleftrightarrow> nat lo \<le> i \<and> i < nat (int k + radius + 1)"
      using is_ranking_rank [OF rk i] is_ranking_rank [OF rk k] r by (auto simp: abs_le_iff lo_def)
  qed (use r in \<open>auto simp: lo_def\<close>)
  moreover have "nat (int k + radius + 1) - nat lo = nat (int k + radius - lo + 1)"
    using r by (auto simp: lo_def)
  ultimately show ?thesis by (simp add: z_slice_def lo_def)
qed

text \<open>The store on Redis answers like any ranking store.\<close>

lemma redis_view:
  assumes Z: "zset_laws Z content"
  shows "ranking_view (redis_ranking_store Z) (redis_scores content) (redis_ok content)"
proof
  fix s ev
  assume ok: "redis_ok content s"
  show "\<exists>es. is_ranking (redis_scores content s ev) es"
    by (rule redis_listing [OF Z ok, of ev]) blast
next
  fix s ev es and n :: int
  assume ok: "redis_ok content s" and r: "is_ranking (redis_scores content s ev) es" and n: "0 \<le> n" "n \<le> MaxTopN"
  from redis_listing [OF Z ok, of ev] obtain zs
    where range: "\<And>b. 0 \<le> b \<Longrightarrow> zc_ZRevRangeWithScores Z (redis_key ev) 0 b s = (Inr (z_slice 0 b zs), s)"
      and rk: "is_ranking (redis_scores content s ev) (redis_entries 0 zs)" by (metis order_refl)
  have "int64 (n - 1) = n - 1" using n by (intro int64_small) (auto simp: ranking_consts)
  then show "rs_Top (redis_ranking_store Z) ev n s = (Inr (take (nat n) es), s)"
    using n range [of "n - 1"] is_ranking_unique [OF r rk]
    by (simp add: redis_ranking_store_def redis_Top_def redis_entries_slice) (simp add: z_slice_def)
next
  fix s ev es e
  assume ok: "redis_ok content s" and r: "is_ranking (redis_scores content s ev) es" and e: "e \<in> set es"
  from redis_listing [OF Z ok, of ev] obtain zs
    where l: "z_listing (content s (redis_key ev)) zs" and len: "int (length zs) \<le> 2 ^ 62"
      and rank: "\<And>p. zc_ZRevRank Z (redis_key ev) p s =
        (case z_index p zs of Some i \<Rightarrow> Inr i | None \<Rightarrow> Inl (Sentinel RedisNil), s)"
      and rk: "is_ranking (redis_scores content s ev) (redis_entries 0 zs)" by metis
  from redis_member [OF rk l] e is_ranking_unique [OF r rk] obtain k where
    k: "k < length zs" "e = redis_entries 0 zs ! k" "en_PlayerID e = fst (zs ! k)"
      "z_index (en_PlayerID e) zs = Some (int k)"
      "content s (redis_key ev) (en_PlayerID e) = Some (snd (zs ! k))" by metis
  moreover have "\<And>p. zc_ZScore Z (redis_key ev) p s =
        (case content s (redis_key ev) p of Some x \<Rightarrow> Inr x | None \<Rightarrow> Inl (Sentinel RedisNil), s)"
    using Z unfolding zset_laws_def by blast
  ultimately show "rs_Rank (redis_ranking_store Z) ev (en_PlayerID e) s = (Inr e, s)"
    by (simp add: redis_ranking_store_def redis_Rank_def rank redis_entries_nth Let_def)
next
  fix s ev es e and radius :: int
  assume ok: "redis_ok content s" and r: "is_ranking (redis_scores content s ev) es" and e: "e \<in> set es"
    and rad: "0 \<le> radius" "radius \<le> MaxAroundRadius"
  from redis_listing [OF Z ok, of ev] obtain zs
    where l: "z_listing (content s (redis_key ev)) zs" and len: "int (length zs) \<le> 2 ^ 62"
      and range: "\<And>a b. 0 \<le> a \<Longrightarrow> 0 \<le> b \<Longrightarrow> zc_ZRevRangeWithScores Z (redis_key ev) a b s = (Inr (z_slice a b zs), s)"
      and rank: "\<And>p. zc_ZRevRank Z (redis_key ev) p s =
        (case z_index p zs of Some i \<Rightarrow> Inr i | None \<Rightarrow> Inl (Sentinel RedisNil), s)"
      and rk: "is_ranking (redis_scores content s ev) (redis_entries 0 zs)" by metis
  from redis_member [OF rk l] e is_ranking_unique [OF r rk] obtain k where
    k: "k < length zs" "e = redis_entries 0 zs ! k" "z_index (en_PlayerID e) zs = Some (int k)" by metis
  have i64: "int64 (int k - radius) = int k - radius" "int64 (int k + radius) = int k + radius"
    using k len rad by (intro int64_small; simp add: ranking_consts)+
  from redis_window [OF rk, of k radius] k rad range is_ranking_unique [OF r rk]
  show "rs_Around (redis_ranking_store Z) ev (en_PlayerID e) radius s = (Inr (window radius e es), s)"
    by (simp add: redis_ranking_store_def redis_Around_def rank i64 Let_def redis_entries_slice)
next
  fix s ev p and radius :: int
  assume ok: "redis_ok content s" and none: "redis_scores content s ev p = None"
  from redis_listing [OF Z ok, of ev] obtain zs
    where l: "z_listing (content s (redis_key ev)) zs"
      and rank: "\<And>p. zc_ZRevRank Z (redis_key ev) p s =
        (case z_index p zs of Some i \<Rightarrow> Inr i | None \<Rightarrow> Inl (Sentinel RedisNil), s)" by metis
  have "z_index p zs = None"
    using l none by (intro z_index_None) (force simp: z_listing_def redis_scores_def)
  then show "rs_Rank (redis_ranking_store Z) ev p s = (Inl (Sentinel ErrPlayerNotRanked), s) \<and>
      rs_Around (redis_ranking_store Z) ev p radius s = (Inl (Sentinel ErrPlayerNotRanked), s)"
    by (simp add: redis_ranking_store_def redis_Rank_def redis_Around_def rank Let_def)
qed

section \<open>Increments\<close>

fun redis_increments :: "'s zset_client \<Rightarrow> (string \<times> string \<times> int) list \<Rightarrow> 's \<Rightarrow> 's" where
  "redis_increments Z [] s = s"
| "redis_increments Z ((ev, p, d) # us) s = redis_increments Z us (snd (redis_IncrBy Z ev p d s))"

definition total_abs :: "(string \<times> string \<times> int) list \<Rightarrow> int" where
  "total_abs us = sum_list (map (\<lambda>(_, _, d). \<bar>d\<bar>) us)"

lemma redis_increments_snoc:
  "redis_increments Z (us @ [(ev, p, d)]) s = snd (redis_IncrBy Z ev p d (redis_increments Z us s))"
  by (induction Z us s rule: redis_increments.induct) auto

lemma total_abs_snoc [simp]: "total_abs (us @ [(ev, p, d)]) = total_abs us + \<bar>d\<bar>"
  by (simp add: total_abs_def)

lemma sum_deltas_le: "\<bar>sum_list (deltas us ev p)\<bar> \<le> total_abs us"
  by (induction us) (auto simp: deltas_def total_abs_def)

lemma redis_key_inj [simp]: "redis_key a = redis_key b \<longleftrightarrow> a = b"
  by (simp add: redis_key_def)

text \<open>The content after a run that stays below \<open>2^53\<close>: the sums of the deltas, exactly.\<close>

definition redis_tally :: "(string \<times> string \<times> int) list \<Rightarrow> string \<Rightarrow> string \<Rightarrow> float64 option" where
  "redis_tally us k p =
     (if \<exists>ev. k = redis_key ev \<and> deltas us ev p \<noteq> []
      then Some (Finite (sum_list (deltas us (drop (length (redis_key [])) k) p)) 0) else None)"

lemma redis_tally_key:
  "redis_tally us (redis_key ev) p =
     (if deltas us ev p = [] then None else Some (Finite (sum_list (deltas us ev p)) 0))"
  by (auto simp: redis_tally_def) (simp_all add: redis_key_def)

lemma redis_tally_snoc:
  "redis_tally (us @ [(ev, p, d)]) =
     (redis_tally us)(redis_key ev := (redis_tally us (redis_key ev))(p \<mapsto> Finite (sum_list (deltas us ev p) + d) 0))"
proof (intro ext)
  fix k q
  show "redis_tally (us @ [(ev, p, d)]) k q =
     ((redis_tally us)(redis_key ev := (redis_tally us (redis_key ev))(p \<mapsto> Finite (sum_list (deltas us ev p) + d) 0))) k q"
  proof (cases "\<exists>e. k = redis_key e")
    case True
    then show ?thesis by (auto simp: redis_tally_key deltas_snoc)
  next
    case False
    then show ?thesis by (auto simp: redis_tally_def)
  qed
qed

lemma redis_IncrBy_exact:
  assumes Z: "zset_laws Z content" and c: "content s = redis_tally us" and b: "total_abs us + \<bar>d\<bar> < 2 ^ 53"
  shows "\<exists>s'. redis_IncrBy Z ev p d s = (Inr (sum_list (deltas us ev p) + d), s') \<and>
    content s' = redis_tally (us @ [(ev, p, d)])"
proof -
  let ?n = "sum_list (deltas us ev p)"
  have le: "\<bar>?n\<bar> < 2 ^ 53" "\<bar>d\<bar> < 2 ^ 53" "\<bar>?n + d\<bar> < 2 ^ 53"
    using sum_deltas_le [of us ev p] b by linarith+
  have fd: "f64_of_int d = Finite d 0" using le(2) by (rule f64_of_int_exact)
  have "case content s (redis_key ev) p of None \<Rightarrow> ?n = 0 | Some x \<Rightarrow> x = Finite ?n 0"
    by (simp add: c redis_tally_key)
  with Z le obtain s' where "zc_ZIncrBy Z (redis_key ev) (Finite d 0) p s = (Inr (Finite (?n + d) 0), s')"
      "content s' = (content s)(redis_key ev := (content s (redis_key ev))(p \<mapsto> Finite (?n + d) 0))"
    unfolding zset_laws_def by blast
  moreover have "f64_to_int64 (Finite (?n + d) 0) = ?n + d"
    using le by (intro f64_to_int64_int in_int64_bounded) auto
  ultimately show ?thesis
    by (simp add: redis_IncrBy_def fd c redis_tally_snoc del: f64_to_int64.simps)
qed

lemma redis_tally_dom: "dom (redis_tally us k) \<subseteq> (\<lambda>(_, p, _). p) ` set us"
proof -
  have "deltas us ev p \<noteq> [] \<Longrightarrow> p \<in> (\<lambda>(_, p, _). p) ` set us" for ev p
    by (force simp: deltas_def filter_empty_conv)
  then show ?thesis by (auto simp: redis_tally_def split: if_splits)
qed

lemma redis_increments_content:
  assumes "zset_laws Z content" "content s = (\<lambda>_ _. None)" "total_abs us < 2 ^ 53"
  shows "content (redis_increments Z us s) = redis_tally us"
  using assms(3)
proof (induction us rule: rev_induct)
  case Nil
  then show ?case using assms(2) by (simp add: fun_eq_iff redis_tally_def deltas_def)
next
  case (snoc u us)
  obtain ev p d where u: "u = (ev, p, d)" by (metis prod_cases3)
  with snoc have "content (redis_increments Z us s) = redis_tally us" "total_abs us + \<bar>d\<bar> < 2 ^ 53" by auto
  from redis_IncrBy_exact [OF assms(1) this, of ev p] show ?case by (auto simp: u redis_increments_snoc)
qed

lemma redis_ok_tally:
  assumes "content s = redis_tally us" "total_abs us < 2 ^ 53" "int (length us) \<le> 2 ^ 62"
  shows "redis_ok content s" "redis_scores content s ev = tally us ev"
proof -
  have fin: "finite (dom (redis_tally us k))" for k
    using redis_tally_dom finite_subset by blast
  have "card (dom (redis_tally us k)) \<le> length us" for k
    using card_mono [OF _ redis_tally_dom [of us k]] card_image_le [of "set us" "\<lambda>(_, p, _). p"]
      card_length [of us] by fastforce
  then have "int (card (dom (redis_tally us k))) \<le> 2 ^ 62" for k
    using assms(3) by (meson of_nat_mono order_trans)
  moreover have "\<bar>sum_list (deltas us e p)\<bar> < 2 ^ 53" for e p
    using sum_deltas_le [of us e p] assms(2) by linarith
  then have "\<forall>x\<in>ran (redis_tally us k). whole x" for k
    by (auto simp: redis_tally_def whole_def ran_def split: if_splits)
  ultimately show "redis_ok content s"
    using fin by (simp add: redis_ok_def assms(1))
  have "f64_to_int64 (Finite (sum_list (deltas us ev p)) 0) = int64 (sum_list (deltas us ev p))" for p
  proof -
    have "in_int64 (sum_list (deltas us ev p))"
      using sum_deltas_le [of us ev p] assms(2) by (intro in_int64_bounded) simp_all
    then show ?thesis by (metis f64_to_int64_int int64_id)
  qed
  then show "redis_scores content s ev = tally us ev"
    by (simp add: fun_eq_iff redis_scores_def assms(1) redis_tally_key tally_def del: f64_to_int64.simps)
qed

section \<open>A client that keeps the laws\<close>

text \<open>A sorted-set server that keeps the log of its increments.\<close>

type_synonym zlog = "(string \<times> string \<times> int) list"

definition log_content :: "zlog \<Rightarrow> string \<Rightarrow> string \<Rightarrow> float64 option" where
  "log_content us k p = (if deltas us k p = [] then None else Some (Finite (sum_list (deltas us k p)) 0))"

definition log_listing :: "zlog \<Rightarrow> string \<Rightarrow> (string \<times> float64) list" where
  "log_listing us k =
     map (\<lambda>e. (en_PlayerID e, Finite (en_Score e) 0)) (sortedLocked (increments us NewLeaderboard) k)"

definition log_client :: "zlog zset_client" where
  "log_client =
     \<lparr>zc_ZIncrBy = (\<lambda>k x p us.
        let d = f64_to_int64 x in (Inr (Finite (sum_list (deltas us k p) + d) 0), us @ [(k, p, d)])),
      zc_ZRevRangeWithScores = (\<lambda>k a b us. (Inr (z_slice a b (log_listing us k)), us)),
      zc_ZRevRank = (\<lambda>k p us.
        (case z_index p (log_listing us k) of Some i \<Rightarrow> Inr i | None \<Rightarrow> Inl (Sentinel RedisNil), us)),
      zc_ZScore = (\<lambda>k p us.
        (case log_content us k p of Some x \<Rightarrow> Inr x | None \<Rightarrow> Inl (Sentinel RedisNil), us))\<rparr>"

lemma log_listing_ok:
  assumes "\<forall>x\<in>ran (log_content us k). whole x"
  shows "z_listing (log_content us k) (log_listing us k)"
proof -
  let ?es = "sortedLocked (increments us NewLeaderboard) k"
  have rk: "is_ranking (tally us k) ?es"
    using is_ranking_sortedLocked increments_board by metis
  have small: "int64 (sum_list (deltas us k p)) = sum_list (deltas us k p)" if "deltas us k p \<noteq> []" for p
  proof -
    have "log_content us k p = Some (Finite (sum_list (deltas us k p)) 0)"
      using that by (simp add: log_content_def)
    with assms have "\<bar>sum_list (deltas us k p)\<bar> < 2 ^ 53" by (auto simp: whole_def dest: ranI)
    then show ?thesis by (intro int64_small) auto
  qed
  have "log_content us k p = Some x \<longleftrightarrow> (\<exists>a. tally us k p = Some a \<and> x = Finite a 0)" for p x
    using small [of p] by (auto simp: log_content_def tally_def)
  then have "log_content us k p = Some x \<longleftrightarrow> (p, x) \<in> set (log_listing us k)" for p x
    using rk by (auto simp: is_ranking_def log_listing_def image_iff)
  moreover have "distinct (map fst (log_listing us k))"
    using is_ranking_distinct [OF rk] by (simp add: log_listing_def comp_def)
  moreover have "sorted_wrt z_before (log_listing us k)"
    using rk by (auto simp: is_ranking_def log_listing_def sorted_wrt_map z_before_def beats_def
        intro: sorted_wrt_mono_rel [rotated])
  ultimately show ?thesis by (simp add: z_listing_def)
qed

lemma log_client_laws: "zset_laws log_client log_content"
proof -
  have incr: "\<exists>us'. zc_ZIncrBy log_client k (Finite d 0) p us = (Inr (Finite (n + d) 0), us') \<and>
      log_content us' = (log_content us)(k := (log_content us k)(p \<mapsto> Finite (n + d) 0))"
    if n: "case log_content us k p of None \<Rightarrow> n = 0 | Some x \<Rightarrow> x = Finite n 0" and d: "\<bar>d\<bar> < 2 ^ 53"
    for k p us d n
  proof -
    have "f64_to_int64 (Finite d 0) = d" using d by (intro f64_to_int64_int in_int64_bounded) auto
    moreover have "n = sum_list (deltas us k p)" using n by (auto simp: log_content_def split: if_splits)
    ultimately show ?thesis
      by (auto simp: log_client_def Let_def log_content_def deltas_snoc fun_eq_iff simp del: f64_to_int64.simps)
  qed
  then show ?thesis
    unfolding zset_laws_def
  proof (intro conjI allI impI)
    fix k us
    assume "\<forall>x\<in>ran (log_content us k). whole x"
    from log_listing_ok [OF this]
    show "\<exists>zs. z_listing (log_content us k) zs \<and>
          (\<forall>a b. 0 \<le> a \<longrightarrow> 0 \<le> b \<longrightarrow> zc_ZRevRangeWithScores log_client k a b us = (Inr (z_slice a b zs), us)) \<and>
          (\<forall>p. zc_ZRevRank log_client k p us =
             (case z_index p zs of Some i \<Rightarrow> Inr i | None \<Rightarrow> Inl (Sentinel RedisNil), us))"
      by (auto simp: log_client_def)
  qed (auto simp: log_client_def)
qed

section \<open>Properties\<close>

text \<open>
  C33: the two leaderboards are interchangeable. On a server with the documented behaviour of sorted sets,
  after any run of increments whose absolute values add up to less than \<open>2^53\<close>, the next increment returns
  the same new score from Redis as from memory, and \<open>Top\<close>, \<open>Rank\<close> and \<open>Around\<close> give the same answers,
  errors included.
\<close>

theorem redis_equals_inmem:
  assumes "zset_laws Z content" "content s = (\<lambda>_ _. None)"
    and "total_abs us + \<bar>d\<bar> < 2 ^ 53" "int (length us) \<le> 2 ^ 62"
  shows "let r = redis_increments Z us s; l = increments us NewLeaderboard;
           R = redis_ranking_store Z; M = inmem_ranking_store id_field
    in fst (redis_IncrBy Z ev p d r) = fst (inmem_IncrBy ev p d l) \<and>
       fst (ranking_Top R ev n r) = fst (ranking_Top M ev n l) \<and>
       fst (ranking_Rank R ev p r) = fst (ranking_Rank M ev p l) \<and>
       fst (ranking_Around R ev p radius r) = fst (ranking_Around M ev p radius l)"
proof -
  define r where "r = redis_increments Z us s"
  define l where "l = increments us NewLeaderboard"
  define R where "R = redis_ranking_store Z"
  define M :: "Leaderboard ranking_store" where "M = inmem_ranking_store id_field"
  have b: "total_abs us < 2 ^ 53" using assms(3) by linarith
  have c: "content r = redis_tally us"
    unfolding r_def by (rule redis_increments_content [OF assms(1,2) b])
  note ok = redis_ok_tally [of content r, OF c b assms(4)]
  note wf = increments_board [of us, folded l_def]
  note V = redis_view [OF assms(1), folded R_def]
  let ?es = "sortedLocked l ev"
  have rk: "is_ranking (tally us ev) ?es" using is_ranking_sortedLocked wf by metis
  then have es: "is_ranking (redis_scores content r ev) ?es" by (simp add: ok)
  obtain zs where "int (length zs) \<le> 2 ^ 62" "is_ranking (redis_scores content r ev) (redis_entries 0 zs)"
    using redis_listing [OF assms(1) ok(1)] by metis
  with is_ranking_unique [OF es] have len: "int (length ?es) \<le> 2 ^ 62" by fastforce
  have "fst (inmem_IncrBy ev p d l) = Inr (int64 (score_or_0 (tally us ev p) + d))"
    using board_scores_IncrBy [OF surjective_pairing, of ev p d l] wf by simp
  also have "int64 (score_or_0 (tally us ev p) + d) = int64 (sum_list (deltas us ev p) + d)"
    by (simp add: tally_def score_or_0_def int64_add_left)
  also have "\<dots> = sum_list (deltas us ev p) + d"
    using sum_deltas_le [of us ev p] assms(3) by (intro int64_small) simp_all
  finally have "fst (redis_IncrBy Z ev p d r) = fst (inmem_IncrBy ev p d l)"
    using redis_IncrBy_exact [OF assms(1) c assms(3), of ev p] by auto
  moreover have "fst (ranking_Top R ev n r) = fst (ranking_Top M ev n l)"
    using ranking_view.service_Top [OF V ok(1) es] board.contract.service_Top [of l ev ?es, folded M_def] wf rk by simp
  moreover have "fst (ranking_Rank R ev p r) = fst (ranking_Rank M ev p l)"
    using ranking_view.service_Rank [OF V ok(1) es] board.contract.service_Rank [of l ev ?es, folded M_def] wf rk
    by (simp add: ok cong: option.case_cong)
  moreover have "fst (ranking_Around R ev p radius r) = fst (ranking_Around M ev p radius l)"
    using ranking_view.service_Around [OF V ok(1) es len] board.contract.service_Around [of l ev ?es, folded M_def]
      wf rk len by simp
  ultimately show ?thesis
    unfolding Let_def r_def [symmetric] l_def [symmetric] R_def [symmetric] M_def [symmetric] by blast
qed

theorem redis_equals_inmem_witness:
  "let us = [(''ev'', ''a'', 5), (''ev'', ''b'', 9), (''ev'', ''a'', 4)]
   in fst (ranking_Rank (redis_ranking_store log_client) ''ev'' ''a'' (redis_increments log_client us [])) =
      Inr \<lparr>en_PlayerID = ''a'', en_Score = 9, en_Rank = 2\<rparr>"
proof -
  let ?us = "[(''ev'', ''a'', 5), (''ev'', ''b'', 9), (''ev'', ''a'', 4)] :: zlog"
  have "log_content [] = (\<lambda>_ _. None)" by (simp add: fun_eq_iff log_content_def deltas_def)
  from redis_equals_inmem [OF log_client_laws this, of ?us 0 "''ev''" "''a''" 1 1]
  have "fst (ranking_Rank (redis_ranking_store log_client) ''ev'' ''a'' (redis_increments log_client ?us [])) =
      fst (ranking_Rank (inmem_ranking_store id_field) ''ev'' ''a'' (increments ?us NewLeaderboard))"
    by (simp add: total_abs_def Let_def del: increments.simps redis_increments.simps)
  also have "\<dots> = Inr \<lparr>en_PlayerID = ''a'', en_Score = 9, en_Rank = 2\<rparr>"
    by (simp add: ranking_Rank_def inmem_ranking_store_def on_field_def id_field_def
        inmem_Rank_def inmem_IncrBy_def NewLeaderboard_def sortedLocked_def sort_Slice_def entry_less_def int64_small)
  finally show ?thesis by (simp only: Let_def)
qed

end
