(* ===== verification/Idempotency_Redis.thy ===== *)
theory Idempotency_Redis
  imports Idempotency
begin

text \<open>
  \<open>internal/idempotency/redis.go\<close>: the idempotency store on Redis. The client and the JSON encoding of an entry are
  arguments. \<open>kv_laws\<close> states what Redis documents of \<open>GET\<close> and of \<open>SET \<dots> NX\<close>; a command may fail, and then it
  changes nothing.
\<close>

section \<open>The store\<close>

text \<open>\<open>SetArgs\<close> with mode \<open>NX\<close> and a lifetime; \<open>goredis.Nil\<close> is \<open>RedisNil\<close>.\<close>

record 's kv_client =
  kv_Get :: "string \<Rightarrow> 's \<Rightarrow> string result \<times> 's"
  kv_SetNX :: "string \<Rightarrow> string \<Rightarrow> int \<Rightarrow> 's \<Rightarrow> unit result \<times> 's"

record entry_codec =
  ec_Marshal :: "idem_entry \<Rightarrow> string result"
  ec_Unmarshal :: "string \<Rightarrow> idem_entry result"

record RedisStore =
  rs_ttl :: int

definition NewRedisStore :: "int \<Rightarrow> RedisStore" where
  "NewRedisStore ttl = (let ttl = (if ttl \<le> 0 then 300000000000 else ttl) in \<lparr>rs_ttl = ttl\<rparr>)"

definition RedisStore_Get :: "'s kv_client \<Rightarrow> entry_codec \<Rightarrow> string \<Rightarrow> 's \<Rightarrow> idem_entry option result \<times> 's" where
  "RedisStore_Get C J key s =
     (case kv_Get C key s of
        (Inl err, s) \<Rightarrow>
          (if errors_Is err RedisNil then (Inr None, s) else (Inl (Wrap ''redis get'' err), s))
      | (Inr raw, s) \<Rightarrow>
          (case ec_Unmarshal J raw of
             Inl err \<Rightarrow> (Inl (Wrap ''unmarshal idempotency entry'' err), s)
           | Inr e \<Rightarrow> (Inr (Some e), s)))"

definition RedisStore_Set ::
  "'s kv_client \<Rightarrow> entry_codec \<Rightarrow> RedisStore \<Rightarrow> string \<Rightarrow> idem_entry \<Rightarrow> 's \<Rightarrow> unit result \<times> 's" where
  "RedisStore_Set C J st key entry s =
     (case ec_Marshal J entry of
        Inl err \<Rightarrow> (Inl (Wrap ''marshal idempotency entry'' err), s)
      | Inr raw \<Rightarrow>
          (case kv_SetNX C key raw (rs_ttl st) s of
             (Inl err, s) \<Rightarrow>
               (if \<not> errors_Is err RedisNil then (Inl (Wrap ''redis set nx'' err), s) else (Inr (), s))
           | (Inr _, s) \<Rightarrow> (Inr (), s)))"

definition redis_idem_store :: "'s kv_client \<Rightarrow> entry_codec \<Rightarrow> RedisStore \<Rightarrow> 's idem_store" where
  "redis_idem_store C J st = \<lparr>is_Get = RedisStore_Get C J, is_Set = RedisStore_Set C J st\<rparr>"

section \<open>What Redis documents\<close>

text \<open>
  \<open>keys s\<close> are the unexpired keys with their values. \<open>GET\<close> answers the value or \<open>Nil\<close>; \<open>SET NX\<close> stores a value under
  an absent key and answers \<open>Nil\<close> for a present one.
\<close>

definition kv_laws :: "'s kv_client \<Rightarrow> ('s \<Rightarrow> string \<Rightarrow> string option) \<Rightarrow> bool" where
  "kv_laws C keys \<longleftrightarrow>
     (\<forall>k s r s'. kv_Get C k s = (r, s') \<longrightarrow> keys s' = keys s \<and>
        (case r of
           Inr raw \<Rightarrow> keys s k = Some raw
         | Inl err \<Rightarrow> errors_Is err RedisNil \<longrightarrow> keys s k = None)) \<and>
     (\<forall>k v t s r s'. 0 < t \<longrightarrow> kv_SetNX C k v t s = (r, s') \<longrightarrow>
        (case r of
           Inr _ \<Rightarrow> keys s k = None \<and> keys s' = (keys s)(k \<mapsto> v)
         | Inl err \<Rightarrow> keys s' = keys s \<and> (errors_Is err RedisNil \<longrightarrow> keys s k \<noteq> None)))"

section \<open>The first response wins\<close>

text \<open>A stored response is never replaced while it is alive, and is what every lookup that succeeds returns.\<close>

lemma redis_Set_cases:
  assumes "kv_laws C keys" "RedisStore_Set C J (NewRedisStore ttl) k x s = (r, s')"
  shows "keys s k \<noteq> None \<Longrightarrow> keys s' = keys s"
    and "r = Inr () \<Longrightarrow> keys s k = None \<Longrightarrow> \<exists>raw. ec_Marshal J x = Inr raw \<and> keys s' = (keys s)(k \<mapsto> raw)"
    and "r = Inl err \<Longrightarrow> keys s' = keys s"
proof -
  have t: "0 < rs_ttl (NewRedisStore ttl)" by (simp add: NewRedisStore_def Let_def)
  have set_law: "kv_SetNX C k v (rs_ttl (NewRedisStore ttl)) s = (q, s') \<Longrightarrow>
      (case q of
         Inr _ \<Rightarrow> keys s k = None \<and> keys s' = (keys s)(k \<mapsto> v)
       | Inl err \<Rightarrow> keys s' = keys s \<and> (errors_Is err RedisNil \<longrightarrow> keys s k \<noteq> None))" for v q
    using assms(1) t unfolding kv_laws_def by blast
  show "keys s k \<noteq> None \<Longrightarrow> keys s' = keys s" "r = Inl err \<Longrightarrow> keys s' = keys s"
    "r = Inr () \<Longrightarrow> keys s k = None \<Longrightarrow> \<exists>raw. ec_Marshal J x = Inr raw \<and> keys s' = (keys s)(k \<mapsto> raw)"
    using assms(2)
    by (auto simp: RedisStore_Set_def split: sum.splits prod.splits if_splits dest!: set_law)
qed

lemma redis_Get_cases:
  assumes "kv_laws C keys" "RedisStore_Get C J k s = (r, s')"
  shows "keys s' = keys s" and "r = Inr None \<Longrightarrow> keys s k = None"
    and "r = Inr (Some e) \<Longrightarrow> \<exists>raw. keys s k = Some raw \<and> ec_Unmarshal J raw = Inr e"
proof -
  have get_law: "kv_Get C k s = (q, s') \<Longrightarrow> keys s' = keys s \<and>
      (case q of Inr raw \<Rightarrow> keys s k = Some raw | Inl err \<Rightarrow> errors_Is err RedisNil \<longrightarrow> keys s k = None)" for q
    using assms(1) unfolding kv_laws_def by blast
  show "keys s' = keys s" "r = Inr None \<Longrightarrow> keys s k = None"
    "r = Inr (Some e) \<Longrightarrow> \<exists>raw. keys s k = Some raw \<and> ec_Unmarshal J raw = Inr e"
    using assms(2)
    by (auto simp: RedisStore_Get_def split: sum.splits prod.splits if_splits dest!: get_law)
qed

text \<open>
  Replay on Redis: once a response is stored under a key, a keyed request with that key whose lookup succeeds is
  answered with it and runs no handler; and a handler that runs although the key is stored (a failed lookup, an
  overlapping duplicate) does not replace it.
\<close>

theorem redis_first_response_wins:
  assumes "kv_laws C keys" "keys s k = Some raw" "ec_Unmarshal J raw = Inr entry" "keyed r k"
    and "\<And>r s. keys (snd (h r s)) = keys s"
    and "Idempotency (Some (redis_idem_store C J (NewRedisStore ttl))) h r s = (ops, s')"
  shows "keys s' = keys s \<and> (ops = idem_replay entry \<or> (\<exists>err s1. RedisStore_Get C J k s = (Inl err, s1)))"
proof -
  let ?store = "redis_idem_store C J (NewRedisStore ttl)"
  obtain g s1 where g: "RedisStore_Get C J k s = (g, s1)" by (rule prod.exhaust)
  note get = redis_Get_cases [OF assms(1) g]
  have run: "keys s' = keys s" if ex: "idem_execute ?store h k r s1 = (ops, s')"
  proof -
    obtain ops1 s2 where h: "h r s1 = (ops1, s2)" by (rule prod.exhaust)
    have k2: "keys s2 = keys s" using assms(5) [of r s1] h get(1) by simp
    then obtain x y where "RedisStore_Set C J (NewRedisStore ttl) k x s2 = (y, s')"
      using ex h by (auto simp: idem_execute_def redis_idem_store_def split: prod.splits)
    from redis_Set_cases(1) [OF assms(1) this] k2 assms(2) show ?thesis by simp
  qed
  show ?thesis
  proof (cases g)
    case (Inl err)
    with assms(4,6) g run show ?thesis by (auto simp: Idempotency_keyed redis_idem_store_def)
  next
    case (Inr found)
    then obtain e where e: "found = Some e" "ec_Unmarshal J raw = Inr e"
      using get(2,3) assms(2) by (cases found) auto
    with assms(3,4,6) g Inr get(1) show ?thesis by (auto simp: Idempotency_keyed redis_idem_store_def)
  qed
qed

end
