(* ===== verification/Sql.thy ===== *)
theory Sql
  imports Go_World "HOL-Library.Sublist"
begin

text \<open>
  What the MySQL repositories use of \<open>database/sql\<close>, and what they rely on in MySQL. Statements are kept as
  syntax trees of the SQL fragment of \<open>internal/persistence/mysql\<close>; \<open>Rows\<close>, \<open>Row.Scan\<close> and the conversions of
  \<open>Scan\<close> are those of the Go library. The database is an argument; \<open>sql_laws\<close> states the documented behaviour of
  these statements on the schema of \<open>schema.sql\<close>: primary keys compared under the collation \<open>coll\<close>, what a
  \<open>TIMESTAMP\<close> column keeps of a time (\<open>ts\<close>), and transactions that take effect when they commit. Any statement
  may fail at any time; a failed one has no effect.
\<close>

section \<open>Statements\<close>

datatype sql_value = SqlString string | SqlInt int | SqlBool bool | SqlTime int

datatype sql_cmp = CmpEq | CmpLe | CmpGe

text \<open>The right-hand side of \<open>ON DUPLICATE KEY UPDATE c = \<dots>\<close>: \<open>VALUES(c)\<close> or \<open>c + VALUES(c)\<close>.\<close>

datatype sql_assign = AssignValues | AddValues

text \<open>
  \<open>Select cols table conds order limit\<close>: \<open>order\<close> is a column and whether the order is descending, \<open>limit\<close> whether
  there is a \<open>LIMIT ?\<close>. The parameters are those of the conditions in order, then the limit.
  \<open>UpdateWhere table c k\<close> is \<open>UPDATE table SET c = ? WHERE k = ?\<close>.
\<close>

datatype sql_stmt =
    Select "string list" string "(string \<times> sql_cmp) list" "(string \<times> bool) option" bool
  | Insert string "string list"
  | InsertOnDuplicate string "string list" string sql_assign
  | UpdateWhere string string string

section \<open>database/sql\<close>

text \<open>A result set: the rows that \<open>Next\<close> delivers, and what \<open>Close\<close> and \<open>Err\<close> return after the last.\<close>

record sql_rows =
  rows_values :: "sql_value list list"
  rows_Close :: "go_error option"
  rows_Err :: "go_error option"

record 's dbtx =
  dt_Exec :: "sql_stmt \<Rightarrow> sql_value list \<Rightarrow> 's \<Rightarrow> unit result \<times> 's"
  dt_Query :: "sql_stmt \<Rightarrow> sql_value list \<Rightarrow> 's \<Rightarrow> sql_rows result \<times> 's"

record ('s, 't) sql_db =
  db_conn :: "'s dbtx"
  db_BeginTx :: "'s \<Rightarrow> 't result \<times> 's"
  db_tx :: "'t \<Rightarrow> 's dbtx"
  db_Commit :: "'t \<Rightarrow> 's \<Rightarrow> unit result \<times> 's"
  db_Rollback :: "'t \<Rightarrow> 's \<Rightarrow> unit result \<times> 's"

text \<open>
  The conversions of \<open>Scan\<close> from the type of a column to the Go type the sources read it into. The columns have
  the types of the schema, so the conversions between other kinds are not used; here they fail.
\<close>

definition scan_error :: go_error where
  "scan_error = ErrorString ''sql: Scan error''"

fun scan_string :: "sql_value \<Rightarrow> string result" where
  "scan_string (SqlString s) = Inr s"
| "scan_string _ = Inl scan_error"

fun scan_int :: "(int \<Rightarrow> bool) \<Rightarrow> sql_value \<Rightarrow> int result" where
  "scan_int fits (SqlInt n) = (if fits n then Inr n else Inl scan_error)"
| "scan_int fits _ = Inl scan_error"

fun scan_bool :: "sql_value \<Rightarrow> bool result" where
  "scan_bool (SqlBool b) = Inr b"
| "scan_bool (SqlInt n) = (if n = 0 then Inr False else if n = 1 then Inr True else Inl scan_error)"
| "scan_bool _ = Inl scan_error"

fun scan_time :: "sql_value \<Rightarrow> int result" where
  "scan_time (SqlTime t) = Inr t"
| "scan_time _ = Inl scan_error"

definition bind_result :: "'a result \<Rightarrow> ('a \<Rightarrow> 'b result) \<Rightarrow> 'b result" where
  "bind_result r f = (case r of Inl err \<Rightarrow> Inl err | Inr x \<Rightarrow> f x)"

lemma bind_result_simps [simp]:
  "bind_result (Inl err) f = Inl err" "bind_result (Inr x) f = f x"
  by (simp_all add: bind_result_def)

text \<open>\<open>QueryRowContext(\<dots>).Scan(\<dots>)\<close>, with \<open>sc\<close> reading one row.\<close>

definition row_Scan :: "(sql_value list \<Rightarrow> 'a result) \<Rightarrow> sql_rows result \<Rightarrow> 'a result" where
  "row_Scan sc r =
     (case r of
        Inl err \<Rightarrow> Inl err
      | Inr rows \<Rightarrow>
          (case rows_values rows of
             [] \<Rightarrow> (case rows_Err rows of Some err \<Rightarrow> Inl err | None \<Rightarrow> Inl (Sentinel SqlErrNoRows))
           | vs # _ \<Rightarrow>
               bind_result (sc vs) (\<lambda>x. case rows_Close rows of Some err \<Rightarrow> Inl err | None \<Rightarrow> Inr x)))"

text \<open>The loop over \<open>QueryContext(\<dots>)\<close> that sqlc generates.\<close>

fun scan_rows :: "(sql_value list \<Rightarrow> 'a result) \<Rightarrow> sql_value list list \<Rightarrow> 'a list result" where
  "scan_rows sc [] = Inr []"
| "scan_rows sc (vs # rest) =
     bind_result (sc vs) (\<lambda>i. bind_result (scan_rows sc rest) (\<lambda>items. Inr (i # items)))"

definition rows_Items :: "(sql_value list \<Rightarrow> 'a result) \<Rightarrow> sql_rows result \<Rightarrow> 'a list result" where
  "rows_Items sc r =
     (case r of
        Inl err \<Rightarrow> Inl err
      | Inr rows \<Rightarrow>
          bind_result (scan_rows sc (rows_values rows))
            (\<lambda>items. case rows_Close rows of
               Some err \<Rightarrow> Inl err
             | None \<Rightarrow> (case rows_Err rows of Some err \<Rightarrow> Inl err | None \<Rightarrow> Inr items)))"

text \<open>\<open>BeginTx\<close>, a body that works on the transaction and commits it, and the deferred \<open>Rollback\<close>.\<close>

definition in_tx ::
  "('s, 't) sql_db \<Rightarrow> ('t \<Rightarrow> 's \<Rightarrow> 'a result \<times> 's) \<Rightarrow> 's \<Rightarrow> 'a result \<times> 's" where
  "in_tx D body s =
     (case db_BeginTx D s of
        (Inl err, s) \<Rightarrow> (Inl (Wrap ''begin tx'' err), s)
      | (Inr tx, s) \<Rightarrow>
          (let (r, s) = body tx s; (_, s) = db_Rollback D tx s in (r, s)))"

section \<open>The schema\<close>

datatype col_type = Varchar | Character | Integer | Bigint | Tinyint | Timestamp

datatype col_default = NoDefault | DefaultInt int | CurrentTimestamp | CurrentTimestampOnUpdate

record sql_table =
  tb_cols :: "(string \<times> col_type \<times> col_default) list"
  tb_key :: "string list"

definition schema :: "(string \<times> sql_table) list" where
  "schema =
     [(''profiles'',
       \<lparr>tb_cols = [(''id'', Varchar, NoDefault), (''name'', Varchar, NoDefault), (''created_at'', Timestamp, CurrentTimestamp)],
        tb_key = [''id'']\<rparr>),
      (''gacha_rolls'',
       \<lparr>tb_cols = [(''id'', Character, NoDefault), (''player_id'', Varchar, NoDefault), (''pool_id'', Varchar, NoDefault),
          (''card_id'', Varchar, NoDefault), (''rarity'', Varchar, NoDefault), (''is_pity'', Tinyint, DefaultInt 0),
          (''pulled_at'', Timestamp, CurrentTimestamp)],
        tb_key = [''id'']\<rparr>),
      (''gacha_pity'',
       \<lparr>tb_cols = [(''player_id'', Varchar, NoDefault), (''pool_id'', Varchar, NoDefault), (''counter'', Integer, DefaultInt 0),
          (''updated_at'', Timestamp, CurrentTimestampOnUpdate)],
        tb_key = [''player_id'', ''pool_id'']\<rparr>),
      (''events'',
       \<lparr>tb_cols = [(''id'', Varchar, NoDefault), (''name'', Varchar, NoDefault), (''start_at'', Timestamp, NoDefault),
          (''end_at'', Timestamp, NoDefault), (''created_at'', Timestamp, CurrentTimestamp)],
        tb_key = [''id'']\<rparr>),
      (''event_scores'',
       \<lparr>tb_cols = [(''event_id'', Varchar, NoDefault), (''player_id'', Varchar, NoDefault), (''points'', Bigint, DefaultInt 0),
          (''updated_at'', Timestamp, CurrentTimestampOnUpdate)],
        tb_key = [''event_id'', ''player_id'']\<rparr>),
      (''event_rewards'',
       \<lparr>tb_cols = [(''event_id'', Varchar, NoDefault), (''tier'', Integer, NoDefault), (''min_points'', Bigint, NoDefault),
          (''reward_name'', Varchar, NoDefault)],
        tb_key = [''event_id'', ''tier'']\<rparr>),
      (''player_hp'',
       \<lparr>tb_cols = [(''player_id'', Varchar, NoDefault), (''hp'', Integer, NoDefault),
          (''updated_at'', Timestamp, CurrentTimestampOnUpdate)],
        tb_key = [''player_id'']\<rparr>)]"

definition table_def :: "string \<Rightarrow> sql_table" where
  "table_def tab = (case map_of schema tab of Some t \<Rightarrow> t | None \<Rightarrow> \<lparr>tb_cols = [], tb_key = []\<rparr>)"

section \<open>What MySQL documents\<close>

text \<open>A row holds the columns of its table; \<open>tables\<close> is the content of a database.\<close>

type_synonym sql_row = "(string \<times> sql_value) list"
type_synonym tables = "string \<Rightarrow> sql_row list"

text \<open>What a column keeps of a value, and whether the value fits the column (strict mode).\<close>

fun store_value :: "(int \<Rightarrow> int) \<Rightarrow> col_type \<Rightarrow> sql_value \<Rightarrow> sql_value" where
  "store_value ts Timestamp (SqlTime t) = SqlTime (ts t)"
| "store_value ts Character (SqlString x) = SqlString (rev (dropWhile (\<lambda>c. c = CHR '' '') (rev x)))"
| "store_value ts Tinyint (SqlBool b) = SqlInt (if b then 1 else 0)"
| "store_value ts ty v = v"

fun fits :: "col_type \<Rightarrow> sql_value \<Rightarrow> bool" where
  "fits Varchar (SqlString x) = True"
| "fits Character (SqlString x) = True"
| "fits Integer (SqlInt n) = in_int32 n"
| "fits Bigint (SqlInt n) = in_int64 n"
| "fits Tinyint (SqlInt n) = (- 128 \<le> n \<and> n \<le> 127)"
| "fits Timestamp (SqlTime t) = True"
| "fits ty v = False"

fun col_value :: "(int \<Rightarrow> int) \<Rightarrow> int \<Rightarrow> col_default \<Rightarrow> sql_value" where
  "col_value ts now (DefaultInt n) = SqlInt n"
| "col_value ts now _ = SqlTime (ts now)"

definition new_row :: "(int \<Rightarrow> int) \<Rightarrow> int \<Rightarrow> string \<Rightarrow> string list \<Rightarrow> sql_value list \<Rightarrow> sql_row" where
  "new_row ts now tab cols args =
     map (\<lambda>(c, ty, d). (c, case map_of (zip cols args) c of Some v \<Rightarrow> store_value ts ty v | None \<Rightarrow> col_value ts now d))
       (tb_cols (table_def tab))"

definition row_ok :: "string \<Rightarrow> sql_row \<Rightarrow> bool" where
  "row_ok tab r \<longleftrightarrow> list_all2 (\<lambda>(c, ty, _) (c', v). c' = c \<and> fits ty v) (tb_cols (table_def tab)) r"

fun value_eq :: "(string \<Rightarrow> string) \<Rightarrow> sql_value \<Rightarrow> sql_value \<Rightarrow> bool" where
  "value_eq coll (SqlString a) (SqlString b) = (coll a = coll b)"
| "value_eq coll v w = (v = w)"

fun value_le :: "sql_value \<Rightarrow> sql_value \<Rightarrow> bool" where
  "value_le (SqlInt a) (SqlInt b) = (a \<le> b)"
| "value_le (SqlTime a) (SqlTime b) = (a \<le> b)"
| "value_le _ _ = False"

definition column :: "string \<Rightarrow> sql_row \<Rightarrow> sql_value" where
  "column c r = (case map_of r c of Some v \<Rightarrow> v | None \<Rightarrow> SqlBool False)"

fun compares :: "(string \<Rightarrow> string) \<Rightarrow> sql_cmp \<Rightarrow> sql_value \<Rightarrow> sql_value \<Rightarrow> bool" where
  "compares coll CmpEq v w = value_eq coll v w"
| "compares coll CmpLe v w = value_le v w"
| "compares coll CmpGe v w = value_le w v"

definition satisfies :: "(string \<Rightarrow> string) \<Rightarrow> (string \<times> sql_cmp) list \<Rightarrow> sql_value list \<Rightarrow> sql_row \<Rightarrow> bool" where
  "satisfies coll conds args r \<longleftrightarrow> list_all (\<lambda>((c, op), v). compares coll op (column c r) v) (zip conds args)"

definition same_key :: "(string \<Rightarrow> string) \<Rightarrow> string \<Rightarrow> sql_row \<Rightarrow> sql_row \<Rightarrow> bool" where
  "same_key coll tab r r' \<longleftrightarrow> list_all (\<lambda>c. value_eq coll (column c r) (column c r')) (tb_key (table_def tab))"

text \<open>The rows of every table have the declared columns and types, and no two have the same key.\<close>

definition table_ok :: "(string \<Rightarrow> string) \<Rightarrow> tables \<Rightarrow> string \<Rightarrow> bool" where
  "table_ok coll T tab \<longleftrightarrow> list_all (row_ok tab) (T tab) \<and> sorted_wrt (\<lambda>x y. \<not> same_key coll tab x y) (T tab)"

definition tables_ok :: "(string \<Rightarrow> string) \<Rightarrow> tables \<Rightarrow> bool" where
  "tables_ok coll T \<longleftrightarrow> list_all (table_ok coll T) (map fst schema)"

text \<open>A changed row, with \<open>ON UPDATE CURRENT_TIMESTAMP\<close>.\<close>

definition set_column :: "(int \<Rightarrow> int) \<Rightarrow> int \<Rightarrow> string \<Rightarrow> string \<Rightarrow> sql_value \<Rightarrow> sql_row \<Rightarrow> sql_row" where
  "set_column ts now tab c v r =
     (let r' = map (\<lambda>(d, w). (d, if d = c then v else w)) r
      in if r' = r then r
         else map (\<lambda>(d, w). (d, if map_of (tb_cols (table_def tab)) d = Some (Timestamp, CurrentTimestampOnUpdate)
                                then SqlTime (ts now) else w)) r')"

fun assigned :: "sql_assign \<Rightarrow> sql_value \<Rightarrow> sql_value \<Rightarrow> sql_value" where
  "assigned AddValues (SqlInt old) (SqlInt new) = SqlInt (old + new)"
| "assigned how old new = new"

text \<open>The effect of a statement on the tables; \<open>Refused n\<close> is the MySQL error \<open>n\<close>.\<close>

datatype sql_outcome = Refused nat | Done tables

definition replaced :: "(string \<Rightarrow> string) \<Rightarrow> tables \<Rightarrow> string \<Rightarrow> sql_row list \<Rightarrow> sql_outcome" where
  "replaced coll T tab rs = (if list_all (row_ok tab) rs then Done (T(tab := rs)) else Refused 1264)"

fun sql_effect :: "(string \<Rightarrow> string) \<Rightarrow> (int \<Rightarrow> int) \<Rightarrow> int \<Rightarrow> sql_stmt \<Rightarrow> sql_value list \<Rightarrow> tables \<Rightarrow> sql_outcome" where
  "sql_effect coll ts now (Insert tab cols) args T =
     (let r = new_row ts now tab cols args
      in if list_ex (same_key coll tab r) (T tab) then Refused 1062 else replaced coll T tab (T tab @ [r]))"
| "sql_effect coll ts now (InsertOnDuplicate tab cols c how) args T =
     (let r = new_row ts now tab cols args
      in if list_ex (same_key coll tab r) (T tab)
         then replaced coll T tab
           (map (\<lambda>x. if same_key coll tab r x then set_column ts now tab c (assigned how (column c x) (column c r)) x else x)
             (T tab))
         else replaced coll T tab (T tab @ [r]))"
| "sql_effect coll ts now (UpdateWhere tab c k) args T =
     replaced coll T tab
       (map (\<lambda>x. if value_eq coll (column k x) (args ! 1) then set_column ts now tab c (args ! 0) x else x) (T tab))"
| "sql_effect coll ts now (Select cols tab conds ord lim) args T = Done T"

text \<open>
  The answers to a query: the rows that satisfy the conditions, in an order that \<open>ORDER BY\<close> allows, up to the limit.
\<close>

definition ordered_by :: "(string \<times> bool) option \<Rightarrow> sql_row list \<Rightarrow> bool" where
  "ordered_by ord rs =
     (case ord of
        None \<Rightarrow> True
      | Some (c, desc) \<Rightarrow>
          sorted_wrt (\<lambda>x y. if desc then value_le (column c y) (column c x) else value_le (column c x) (column c y)) rs)"

fun row_limit :: "bool \<Rightarrow> sql_value list \<Rightarrow> 'a list \<Rightarrow> 'a list" where
  "row_limit True args rs = (case last args of SqlInt n \<Rightarrow> take (nat n) rs | _ \<Rightarrow> rs)"
| "row_limit False args rs = rs"

fun sql_answers :: "(string \<Rightarrow> string) \<Rightarrow> sql_stmt \<Rightarrow> sql_value list \<Rightarrow> tables \<Rightarrow> sql_value list list \<Rightarrow> bool" where
  "sql_answers coll (Select cols tab conds ord lim) args T out \<longleftrightarrow>
     (\<exists>rs. mset rs = mset (filter (satisfies coll conds args) (T tab)) \<and> ordered_by ord rs \<and>
       out = map (\<lambda>r. map (\<lambda>c. column c r) cols) (row_limit lim args rs))"
| "sql_answers coll _ args T out \<longleftrightarrow> False"

text \<open>
  A connection, seen through the tables \<open>cur\<close> it works on. A statement that succeeds has its documented effect,
  one that fails has none. Error 1062 is reported for duplicate keys only. A query changes nothing, and what it
  delivers before an error is the beginning of an answer. The library returns \<open>ErrNoRows\<close> from \<open>Row.Scan\<close> only.
\<close>

definition no_rows_free :: "go_error \<Rightarrow> bool" where
  "no_rows_free err \<longleftrightarrow> \<not> errors_Is err SqlErrNoRows"

definition exec_law ::
  "(string \<Rightarrow> string) \<Rightarrow> (int \<Rightarrow> int) \<Rightarrow> sql_stmt \<Rightarrow> sql_value list \<Rightarrow> tables \<Rightarrow> unit result \<Rightarrow> tables \<Rightarrow> bool" where
  "exec_law coll ts st args T r T' \<longleftrightarrow>
     (case r of
        Inr _ \<Rightarrow> \<exists>now. sql_effect coll ts now st args T = Done T'
      | Inl err \<Rightarrow> T' = T \<and> (errors_As_MySQL err = Some 1062 \<longrightarrow> (\<exists>now. sql_effect coll ts now st args T = Refused 1062)))"

definition query_law ::
  "(string \<Rightarrow> string) \<Rightarrow> sql_stmt \<Rightarrow> sql_value list \<Rightarrow> tables \<Rightarrow> sql_rows result \<Rightarrow> bool" where
  "query_law coll st args T r \<longleftrightarrow>
     (case r of
        Inl err \<Rightarrow> no_rows_free err
      | Inr rows \<Rightarrow>
          (\<exists>out. sql_answers coll st args T out \<and> prefix (rows_values rows) out \<and>
             (rows_Err rows = None \<longrightarrow> rows_values rows = out)) \<and>
          pred_option no_rows_free (rows_Err rows) \<and> pred_option no_rows_free (rows_Close rows))"

text \<open>
  The database: \<open>view s\<close> are the committed tables, \<open>pend s t\<close> the tables as transaction \<open>t\<close> sees them. A transaction
  starts from the committed tables, works on its own, and replaces the committed ones when it commits; a commit
  that fails and a rollback leave the committed tables alone.
\<close>

definition sql_laws ::
  "(string \<Rightarrow> string) \<Rightarrow> (int \<Rightarrow> int) \<Rightarrow> ('s, 't) sql_db \<Rightarrow> ('s \<Rightarrow> tables) \<Rightarrow> ('s \<Rightarrow> 't \<Rightarrow> tables) \<Rightarrow> bool" where
  "sql_laws coll ts D view pend \<longleftrightarrow>
     (\<forall>s. tables_ok coll (view s)) \<and> (\<forall>s t. tables_ok coll (pend s t)) \<and>
     (\<forall>st args s r s'. dt_Exec (db_conn D) st args s = (r, s') \<longrightarrow> exec_law coll ts st args (view s) r (view s')) \<and>
     (\<forall>st args s r s'. dt_Query (db_conn D) st args s = (r, s') \<longrightarrow> query_law coll st args (view s) r \<and> view s' = view s) \<and>
     (\<forall>s t s'. db_BeginTx D s = (Inr t, s') \<longrightarrow> view s' = view s \<and> pend s' t = view s) \<and>
     (\<forall>s err s'. db_BeginTx D s = (Inl err, s') \<longrightarrow> view s' = view s) \<and>
     (\<forall>t st args s r s'. dt_Exec (db_tx D t) st args s = (r, s') \<longrightarrow>
        view s' = view s \<and> exec_law coll ts st args (pend s t) r (pend s' t)) \<and>
     (\<forall>t st args s r s'. dt_Query (db_tx D t) st args s = (r, s') \<longrightarrow>
        view s' = view s \<and> pend s' t = pend s t \<and> query_law coll st args (pend s t) r) \<and>
     (\<forall>t s u s'. db_Commit D t s = (Inr u, s') \<longrightarrow> view s' = pend s t) \<and>
     (\<forall>t s err s'. db_Commit D t s = (Inl err, s') \<longrightarrow> view s' = view s) \<and>
     (\<forall>t s r s'. db_Rollback D t s = (r, s') \<longrightarrow> view s' = view s)"

lemma sql_lawsD:
  assumes "sql_laws coll ts D view pend"
  shows "tables_ok coll (view s)" "tables_ok coll (pend s t)"
    "dt_Exec (db_conn D) st args s = (r, s') \<Longrightarrow> exec_law coll ts st args (view s) r (view s')"
    "dt_Query (db_conn D) st args s = (rq, s') \<Longrightarrow> query_law coll st args (view s) rq \<and> view s' = view s"
    "db_BeginTx D s = (Inr t, s') \<Longrightarrow> view s' = view s \<and> pend s' t = view s"
    "db_BeginTx D s = (Inl err, s') \<Longrightarrow> view s' = view s"
    "dt_Exec (db_tx D t) st args s = (r, s') \<Longrightarrow> view s' = view s \<and> exec_law coll ts st args (pend s t) r (pend s' t)"
    "dt_Query (db_tx D t) st args s = (rq, s') \<Longrightarrow>
       view s' = view s \<and> pend s' t = pend s t \<and> query_law coll st args (pend s t) rq"
    "db_Commit D t s = (Inr u, s') \<Longrightarrow> view s' = pend s t"
    "db_Commit D t s = (Inl err, s') \<Longrightarrow> view s' = view s"
    "db_Rollback D t s = (r, s') \<Longrightarrow> view s' = view s"
  using assms unfolding sql_laws_def by - (elim conjE; simp)+

section \<open>Transactions\<close>

text \<open>
  A transaction is all or nothing: if it fails the committed tables are as before; if it succeeds they are the
  tables the body worked out, provided that the body commits whenever it succeeds and not otherwise.
\<close>

lemma in_tx_cases:
  assumes "in_tx D body s = (r, s')"
  obtains err s1 where "db_BeginTx D s = (Inl err, s1)" "r = Inl (Wrap ''begin tx'' err)" "s' = s1"
  | t s1 s2 x where "db_BeginTx D s = (Inr t, s1)" "body t s1 = (r, s2)" "db_Rollback D t s2 = (x, s')"
  using assms by (auto simp: in_tx_def split: prod.splits sum.splits)

lemma in_tx_atomic:
  assumes laws: "sql_laws coll ts D view pend" and tx: "in_tx D body s = (r, s')"
    and fail: "\<And>t s1 err s2. pend s1 t = view s1 \<Longrightarrow> body t s1 = (Inl err, s2) \<Longrightarrow> view s2 = view s1"
    and ok: "\<And>t s1 x s2. pend s1 t = view s1 \<Longrightarrow> body t s1 = (Inr x, s2) \<Longrightarrow> Q x (view s1) (view s2)"
  shows "case r of Inl err \<Rightarrow> view s' = view s | Inr x \<Rightarrow> Q x (view s) (view s')"
  using tx
proof (cases rule: in_tx_cases)
  case (1 err s1)
  then show ?thesis using sql_lawsD(6) [OF laws] by auto
next
  case (2 t s1 s2 x)
  then have v: "view s1 = view s" "pend s1 t = view s1" "view s' = view s2"
    using sql_lawsD(5,11) [OF laws] by metis+
  then show ?thesis
    using fail [OF v(2), of _ s2] ok [OF v(2), of _ s2] 2(2) by (auto split: sum.splits)
qed

section \<open>Rows\<close>

lemma row_Scan_law:
  assumes "query_law coll st args T r" "row_Scan sc r = res"
  shows "case res of
      Inr x \<Rightarrow> \<exists>vs rest. sql_answers coll st args T (vs # rest) \<and> sc vs = Inr x
    | Inl err \<Rightarrow> errors_Is err SqlErrNoRows \<longrightarrow> sql_answers coll st args T [] \<or> (\<exists>vs. sc vs = Inl err)"
proof (cases r)
  case (Inl err)
  with assms show ?thesis by (auto simp: row_Scan_def query_law_def no_rows_free_def)
next
  case (Inr rows)
  with assms(1) obtain out where out: "sql_answers coll st args T out" "prefix (rows_values rows) out"
      "rows_Err rows = None \<Longrightarrow> rows_values rows = out"
      "pred_option no_rows_free (rows_Err rows)" "pred_option no_rows_free (rows_Close rows)"
    by (auto simp: query_law_def)
  show ?thesis
  proof (cases "rows_values rows")
    case Nil
    with Inr out assms(2) show ?thesis
      by (auto simp: row_Scan_def no_rows_free_def split: option.splits)
  next
    case (Cons vs rest)
    then obtain more where "out = vs # more" using out(2) by (auto simp: prefix_def)
    moreover have "res = bind_result (sc vs) (\<lambda>x. case rows_Close rows of Some err \<Rightarrow> Inl err | None \<Rightarrow> Inr x)"
      using Cons Inr assms(2) by (simp add: row_Scan_def)
    ultimately show ?thesis
      using out(1,5) by (cases "sc vs"; cases "rows_Close rows") (auto simp: no_rows_free_def)
  qed
qed

text \<open>A scan error is never \<open>ErrNoRows\<close>, so \<open>ErrNoRows\<close> says that there are no rows.\<close>

definition scans_safely :: "(sql_value list \<Rightarrow> 'a result) \<Rightarrow> bool" where
  "scans_safely sc \<longleftrightarrow> (\<forall>vs err. sc vs = Inl err \<longrightarrow> \<not> errors_Is err SqlErrNoRows)"

lemma row_Scan_none:
  assumes "query_law coll st args T r" "row_Scan sc r = Inl err" "errors_Is err SqlErrNoRows" "scans_safely sc"
  shows "sql_answers coll st args T []"
  using row_Scan_law [OF assms(1,2)] assms(3,4) by (auto simp: scans_safely_def)

lemma scan_error_safe:
  "scan_string v = Inl err \<Longrightarrow> \<not> errors_Is err SqlErrNoRows" "scan_int P v = Inl err \<Longrightarrow> \<not> errors_Is err SqlErrNoRows"
  "scan_bool v = Inl err \<Longrightarrow> \<not> errors_Is err SqlErrNoRows" "scan_time v = Inl err \<Longrightarrow> \<not> errors_Is err SqlErrNoRows"
  by (cases v; auto simp: scan_error_def split: if_splits)+

lemma scan_rows_map:
  "scan_rows sc vss = Inr items \<longleftrightarrow> list_all2 (\<lambda>vs i. sc vs = Inr i) vss items"
proof (induction vss arbitrary: items)
  case Nil
  then show ?case by auto
next
  case (Cons vs vss)
  show ?case
    using Cons.IH by (auto simp: bind_result_def list_all2_Cons1 split: sum.splits) (metis sum.inject(2))
qed

lemma rows_Items_law:
  assumes "query_law coll st args T r" "rows_Items sc r = Inr items"
  shows "\<exists>out. sql_answers coll st args T out \<and> list_all2 (\<lambda>vs i. sc vs = Inr i) out items"
  using assms
  by (auto simp: rows_Items_def query_law_def bind_result_def scan_rows_map split: sum.splits option.splits)

section \<open>Tables by key\<close>

text \<open>The rows of a table, by a key that agrees with the primary key.\<close>

definition by_key :: "('r \<Rightarrow> 'k) \<Rightarrow> ('r \<Rightarrow> 'v) \<Rightarrow> 'r list \<Rightarrow> 'k \<Rightarrow> 'v option" where
  "by_key K V xs = map_of (map (\<lambda>x. (K x, V x)) xs)"

lemma by_key_simps [simp]:
  "by_key K V [] k = None"
  "by_key K V (x # xs) k = (if K x = k then Some (V x) else by_key K V xs k)"
  by (simp_all add: by_key_def)

lemma by_key_None: "by_key K V xs k = None \<longleftrightarrow> (\<forall>x\<in>set xs. K x \<noteq> k)"
  by (induction xs) auto

lemma by_key_append: "\<forall>x\<in>set xs. K x \<noteq> K r \<Longrightarrow> by_key K V (xs @ [r]) = (by_key K V xs)(K r \<mapsto> V r)"
  by (induction xs) (auto simp: fun_eq_iff)

lemma by_key_update:
  "(\<And>x. x \<in> set xs \<Longrightarrow> K x = k \<Longrightarrow> K (g x) = k \<and> V (g x) = h (V x)) \<Longrightarrow>
   by_key K V (map (\<lambda>x. if K x = k then g x else x) xs) k' =
     (if k' = k then map_option h (by_key K V xs k) else by_key K V xs k')"
  by (induction xs) auto

text \<open>The statements on a table, through its key.\<close>

lemma replaced_Done: "replaced coll T tab rs = Done T' \<longleftrightarrow> list_all (row_ok tab) rs \<and> T' = T(tab := rs)"
  by (auto simp: replaced_def)

lemma insert_effect:
  assumes "sql_effect coll ts now (Insert tab cols) args T = Done T'" "r = new_row ts now tab cols args"
    and "\<And>x. x \<in> set (T tab) \<Longrightarrow> same_key coll tab r x \<longleftrightarrow> K x = K r"
  shows "T' = T(tab := T tab @ [r])" "by_key K V (T' tab) = (by_key K V (T tab))(K r \<mapsto> V r)" "by_key K V (T tab) (K r) = None"
proof -
  show T': "T' = T(tab := T tab @ [r])" using assms(1,2) by (auto simp: Let_def replaced_Done split: if_splits)
  have "\<forall>x\<in>set (T tab). K x \<noteq> K r"
    using assms by (auto simp: Let_def list_ex_iff split: if_splits)
  then show "by_key K V (T' tab) = (by_key K V (T tab))(K r \<mapsto> V r)" "by_key K V (T tab) (K r) = None"
    by (simp_all add: T' by_key_append by_key_None)
qed

lemma insert_refused:
  assumes "sql_effect coll ts now (Insert tab cols) args T = Refused 1062" "r = new_row ts now tab cols args"
    and "\<And>x. x \<in> set (T tab) \<Longrightarrow> same_key coll tab r x \<longleftrightarrow> K x = K r"
  shows "by_key K V (T tab) (K r) \<noteq> None"
  using assms by (auto simp: Let_def list_ex_iff by_key_None replaced_def split: if_splits)

lemma upsert_effect:
  assumes eff: "sql_effect coll ts now (InsertOnDuplicate tab cols c how) args T = Done T'"
    and r: "r = new_row ts now tab cols args"
    and key: "\<And>x. x \<in> set (T tab) \<Longrightarrow> same_key coll tab r x \<longleftrightarrow> K x = K r"
    and upd: "\<And>x. x \<in> set (T tab) \<Longrightarrow> K x = K r \<Longrightarrow>
      K (set_column ts now tab c (assigned how (column c x) (column c r)) x) = K r \<and>
      V (set_column ts now tab c (assigned how (column c x) (column c r)) x) = h (V x)"
  shows "by_key K V (T' tab) =
      (by_key K V (T tab))(K r \<mapsto> case by_key K V (T tab) (K r) of None \<Rightarrow> V r | Some v \<Rightarrow> h v)"
    and "tab' \<noteq> tab \<Longrightarrow> T' tab' = T tab'"
proof -
  let ?g = "\<lambda>x. set_column ts now tab c (assigned how (column c x) (column c r)) x"
  have dup: "list_ex (same_key coll tab r) (T tab) \<longleftrightarrow> by_key K V (T tab) (K r) \<noteq> None"
    using key by (auto simp: list_ex_iff by_key_None)
  show "tab' \<noteq> tab \<Longrightarrow> T' tab' = T tab'"
    using eff by (auto simp: Let_def replaced_Done split: if_splits)
  show "by_key K V (T' tab) = (by_key K V (T tab))(K r \<mapsto> case by_key K V (T tab) (K r) of None \<Rightarrow> V r | Some v \<Rightarrow> h v)"
  proof (cases "by_key K V (T tab) (K r)")
    case None
    then have "T' tab = T tab @ [r]"
      using eff dup r by (auto simp: Let_def replaced_Done)
    moreover have "\<forall>x\<in>set (T tab). K x \<noteq> K r" using None by (simp add: by_key_None)
    ultimately show ?thesis using None by (simp add: by_key_append)
  next
    case (Some v)
    then have "T' tab = map (\<lambda>x. if same_key coll tab r x then ?g x else x) (T tab)"
      using eff dup r by (auto simp: Let_def replaced_Done)
    also have "\<dots> = map (\<lambda>x. if K x = K r then ?g x else x) (T tab)"
      using key by simp
    finally show ?thesis using Some upd by (auto simp: fun_eq_iff by_key_update)
  qed
qed

lemma update_effect:
  assumes eff: "sql_effect coll ts now (UpdateWhere tab c k) [v, w] T = Done T'"
    and key: "\<And>x. x \<in> set (T tab) \<Longrightarrow> value_eq coll (column k x) w \<longleftrightarrow> K x = kk"
    and upd: "\<And>x. x \<in> set (T tab) \<Longrightarrow> K x = kk \<Longrightarrow>
      K (set_column ts now tab c v x) = kk \<and> V (set_column ts now tab c v x) = h (V x)"
  shows "by_key K V (T' tab) kk' = (if kk' = kk then map_option h (by_key K V (T tab) kk) else by_key K V (T tab) kk')"
    and "tab' \<noteq> tab \<Longrightarrow> T' tab' = T tab'"
proof -
  have "T' = T(tab := map (\<lambda>x. if K x = kk then set_column ts now tab c v x else x) (T tab))"
    using eff key by (auto simp: replaced_Done)
  then show "by_key K V (T' tab) kk' = (if kk' = kk then map_option h (by_key K V (T tab) kk) else by_key K V (T tab) kk')"
    "tab' \<noteq> tab \<Longrightarrow> T' tab' = T tab'"
    using by_key_update [of "T tab" K kk "set_column ts now tab c v" V h, OF upd] by auto
qed

lemma filter_unique:
  "sorted_wrt (\<lambda>x y. \<not> R x y) xs \<Longrightarrow> (\<And>x y. P x \<Longrightarrow> P y \<Longrightarrow> x \<in> set xs \<Longrightarrow> y \<in> set xs \<Longrightarrow> R x y) \<Longrightarrow>
   filter P xs = (case find P xs of None \<Rightarrow> [] | Some x \<Rightarrow> [x])"
proof (induction xs)
  case Nil
  then show ?case by simp
next
  case (Cons x xs)
  show ?case
  proof (cases "P x")
    case True
    then have "filter P xs = []" using Cons.prems by (auto simp: filter_empty_conv)
    with True show ?thesis by simp
  next
    case False
    with Cons show ?thesis by auto
  qed
qed

lemma find_by_key: "find (\<lambda>x. K x = k) xs = by_key K (\<lambda>x. x) xs k"
  by (induction xs) auto

text \<open>A query by the whole key has the one row with that key as its answer, if there is one.\<close>

lemma select_by_key:
  assumes ans: "sql_answers coll (Select cols tab conds None False) args T out" and ok: "table_ok coll T tab"
    and sat: "\<And>x. x \<in> set (T tab) \<Longrightarrow> satisfies coll conds args x \<longleftrightarrow> K x = k"
    and key: "\<And>x y. x \<in> set (T tab) \<Longrightarrow> y \<in> set (T tab) \<Longrightarrow> K x = K y \<Longrightarrow> same_key coll tab x y"
  shows "out = (case by_key K (\<lambda>x. x) (T tab) k of None \<Rightarrow> [] | Some x \<Rightarrow> [map (\<lambda>c. column c x) cols])"
proof -
  have "filter (satisfies coll conds args) (T tab) = filter (\<lambda>x. K x = k) (T tab)"
    using sat by (auto cong: filter_cong)
  also have "\<dots> = (case find (\<lambda>x. K x = k) (T tab) of None \<Rightarrow> [] | Some x \<Rightarrow> [x])"
    using ok key by (intro filter_unique [of "same_key coll tab"]) (auto simp: table_ok_def)
  finally have "filter (satisfies coll conds args) (T tab) =
      (case by_key K (\<lambda>x. x) (T tab) k of None \<Rightarrow> [] | Some x \<Rightarrow> [x])"
    by (simp add: find_by_key)
  with ans show ?thesis by (auto split: option.splits)
qed

lemma by_key_Some: "by_key K (\<lambda>x. x) xs k = Some x \<Longrightarrow> x \<in> set xs \<and> K x = k"
  by (induction xs) (auto split: if_splits)

lemma by_key_map: "by_key K V xs k = map_option V (by_key K (\<lambda>x. x) xs k)"
  by (induction xs) auto

section \<open>Typed rows\<close>

lemma fits_cases:
  "fits Varchar v \<longleftrightarrow> (\<exists>x. v = SqlString x)" "fits Character v \<longleftrightarrow> (\<exists>x. v = SqlString x)"
  "fits Integer v \<longleftrightarrow> (\<exists>n. v = SqlInt n \<and> in_int32 n)" "fits Bigint v \<longleftrightarrow> (\<exists>n. v = SqlInt n \<and> in_int64 n)"
  "fits Tinyint v \<longleftrightarrow> (\<exists>n. v = SqlInt n \<and> - 128 \<le> n \<and> n \<le> 127)" "fits Timestamp v \<longleftrightarrow> (\<exists>t. v = SqlTime t)"
  by (cases v; simp)+

lemmas table_simps = table_def_def schema_def

fun str_of :: "sql_value \<Rightarrow> string" where
  "str_of (SqlString x) = x"
| "str_of _ = ''''"

fun int_of :: "sql_value \<Rightarrow> int" where
  "int_of (SqlInt n) = n"
| "int_of (SqlTime t) = t"
| "int_of _ = 0"

lemma tables_okD:
  assumes "tables_ok coll T" "tab \<in> fst ` set schema"
  shows "table_ok coll T tab" "r \<in> set (T tab) \<Longrightarrow> row_ok tab r"
  using assms by (auto simp: tables_ok_def table_ok_def list_all_iff)

section \<open>A database that keeps the laws\<close>

text \<open>
  The committed tables, those of the one transaction, and whatever else the state holds. A statement whose result
  would not fit the schema is refused, a query that cannot be ordered fails.
\<close>

definition clean :: "(string \<Rightarrow> string) \<Rightarrow> tables \<Rightarrow> tables" where
  "clean coll T = (if tables_ok coll T then T else (\<lambda>_. []))"

definition ref_exec ::
  "(string \<Rightarrow> string) \<Rightarrow> (int \<Rightarrow> int) \<Rightarrow> sql_stmt \<Rightarrow> sql_value list \<Rightarrow> tables \<Rightarrow> unit result \<times> tables" where
  "ref_exec coll ts st args T =
     (case sql_effect coll ts 0 st args T of
        Done T' \<Rightarrow> if tables_ok coll T' then (Inr (), T') else (Inl (MySQLError 1264 ''''), T)
      | Refused n \<Rightarrow> (Inl (MySQLError n ''''), T))"

fun ref_answer :: "(string \<Rightarrow> string) \<Rightarrow> sql_stmt \<Rightarrow> sql_value list \<Rightarrow> tables \<Rightarrow> sql_rows result" where
  "ref_answer coll (Select cols tab conds ord lim) args T =
     (let rs = filter (satisfies coll conds args) (T tab);
          rs = (case ord of
                  None \<Rightarrow> rs
                | Some (c, desc) \<Rightarrow>
                    sort_Slice (\<lambda>x y. if desc then \<not> value_le (column c x) (column c y) else \<not> value_le (column c y) (column c x)) rs)
      in if ordered_by ord rs
         then Inr \<lparr>rows_values = map (\<lambda>r. map (\<lambda>c. column c r) cols) (row_limit lim args rs), rows_Close = None, rows_Err = None\<rparr>
         else Inl (MySQLError 1105 ''''))"
| "ref_answer coll _ args T = Inl (MySQLError 1105 '''')"

definition ref_db ::
  "(string \<Rightarrow> string) \<Rightarrow> (int \<Rightarrow> int) \<Rightarrow> (tables \<times> tables \<times> 'e, unit) sql_db" where
  "ref_db coll ts =
     \<lparr>db_conn = \<lparr>dt_Exec = (\<lambda>st args (c, p, e). let (r, c) = ref_exec coll ts st args (clean coll c) in (r, c, p, e)),
         dt_Query = (\<lambda>st args (c, p, e). (ref_answer coll st args (clean coll c), c, p, e))\<rparr>,
      db_BeginTx = (\<lambda>(c, p, e). (Inr (), c, clean coll c, e)),
      db_tx = (\<lambda>_. \<lparr>dt_Exec = (\<lambda>st args (c, p, e). let (r, p) = ref_exec coll ts st args (clean coll p) in (r, c, p, e)),
         dt_Query = (\<lambda>st args (c, p, e). (ref_answer coll st args (clean coll p), c, p, e))\<rparr>),
      db_Commit = (\<lambda>_ (c, p, e). (Inr (), clean coll p, p, e)),
      db_Rollback = (\<lambda>_ s. (Inr (), s))\<rparr>"

definition ref_view :: "(string \<Rightarrow> string) \<Rightarrow> tables \<times> tables \<times> 'e \<Rightarrow> tables" where
  "ref_view coll s = clean coll (fst s)"

definition ref_pend :: "(string \<Rightarrow> string) \<Rightarrow> tables \<times> tables \<times> 'e \<Rightarrow> unit \<Rightarrow> tables" where
  "ref_pend coll s t = clean coll (fst (snd s))"

lemma tables_ok_empty: "tables_ok coll (\<lambda>_. [])"
  by (simp add: tables_ok_def table_ok_def list_all_iff)

lemma tables_ok_clean [simp]: "tables_ok coll (clean coll T)"
  by (simp add: clean_def tables_ok_empty)

lemma clean_idem [simp]: "clean coll (clean coll T) = clean coll T"
  using tables_ok_clean [of coll T] by (simp add: clean_def)

lemma clean_ok: "tables_ok coll T \<Longrightarrow> clean coll T = T"
  by (simp add: clean_def)

lemma ref_exec_law:
  assumes "ref_exec coll ts st args (clean coll T) = (r, T')"
  shows "exec_law coll ts st args (clean coll T) r (clean coll T')"
  using assms
  by (auto simp: ref_exec_def exec_law_def clean_ok split: sql_outcome.splits if_splits)

lemma ref_answer_law: "query_law coll st args T (ref_answer coll st args T)"
proof (cases st)
  case (Select cols tab conds ord lim)
  then show ?thesis
    by (cases ord) (auto simp: query_law_def no_rows_free_def Let_def split: prod.splits intro!: exI)
qed (auto simp: query_law_def no_rows_free_def)

lemma ref_db_laws: "sql_laws coll ts (ref_db coll ts) (ref_view coll) (ref_pend coll)"
  unfolding sql_laws_def
  by (auto simp: ref_db_def ref_view_def ref_pend_def ref_answer_law split: prod.splits
      intro!: ref_exec_law)

end
