(* ===== verification/Mysql_Queries.thy ===== *)
theory Mysql_Queries
  imports Sql
begin

text \<open>
  \<open>internal/persistence/mysql/gen\<close>: the statements and the query methods that sqlc generated, over a connection
  or a transaction (\<open>DBTX\<close>). The parameter structs are spread into arguments, in the order of their fields.
\<close>

section \<open>models.go\<close>

record gen_Event =
  ge_ID :: string
  ge_Name :: string
  ge_StartAt :: int
  ge_EndAt :: int
  ge_CreatedAt :: int

record gen_EventReward =
  gw_EventID :: string
  gw_Tier :: int
  gw_MinPoints :: int
  gw_RewardName :: string

record gen_EventScore =
  gt_EventID :: string
  gt_PlayerID :: string
  gt_Points :: int
  gt_UpdatedAt :: int

record gen_GachaRoll =
  gg_ID :: string
  gg_PlayerID :: string
  gg_PoolID :: string
  gg_CardID :: string
  gg_Rarity :: string
  gg_IsPity :: bool
  gg_PulledAt :: int

record gen_Profile =
  gp_ID :: string
  gp_Name :: string
  gp_CreatedAt :: int

section \<open>Rows\<close>

text \<open>The destinations of the \<open>Scan\<close> calls; a wrong number of columns is an error.\<close>

fun scan_counter :: "sql_value list \<Rightarrow> int result" where
  "scan_counter [c] = scan_int in_int32 c"
| "scan_counter _ = Inl scan_error"

fun scan_GachaRoll :: "sql_value list \<Rightarrow> gen_GachaRoll result" where
  "scan_GachaRoll [a, b, c, d, e, f, g] =
     bind_result (scan_string a) (\<lambda>a. bind_result (scan_string b) (\<lambda>b. bind_result (scan_string c) (\<lambda>c.
     bind_result (scan_string d) (\<lambda>d. bind_result (scan_string e) (\<lambda>e. bind_result (scan_bool f) (\<lambda>f.
     bind_result (scan_time g) (\<lambda>g.
       Inr \<lparr>gg_ID = a, gg_PlayerID = b, gg_PoolID = c, gg_CardID = d, gg_Rarity = e, gg_IsPity = f, gg_PulledAt = g\<rparr>)))))))"
| "scan_GachaRoll _ = Inl scan_error"

fun scan_Profile :: "sql_value list \<Rightarrow> gen_Profile result" where
  "scan_Profile [a, b, c] =
     bind_result (scan_string a) (\<lambda>a. bind_result (scan_string b) (\<lambda>b. bind_result (scan_time c) (\<lambda>c.
       Inr \<lparr>gp_ID = a, gp_Name = b, gp_CreatedAt = c\<rparr>)))"
| "scan_Profile _ = Inl scan_error"

fun scan_Event :: "sql_value list \<Rightarrow> gen_Event result" where
  "scan_Event [a, b, c, d, e] =
     bind_result (scan_string a) (\<lambda>a. bind_result (scan_string b) (\<lambda>b. bind_result (scan_time c) (\<lambda>c.
     bind_result (scan_time d) (\<lambda>d. bind_result (scan_time e) (\<lambda>e.
       Inr \<lparr>ge_ID = a, ge_Name = b, ge_StartAt = c, ge_EndAt = d, ge_CreatedAt = e\<rparr>)))))"
| "scan_Event _ = Inl scan_error"

fun scan_EventScore :: "sql_value list \<Rightarrow> gen_EventScore result" where
  "scan_EventScore [a, b, c, d] =
     bind_result (scan_string a) (\<lambda>a. bind_result (scan_string b) (\<lambda>b. bind_result (scan_int in_int64 c) (\<lambda>c.
     bind_result (scan_time d) (\<lambda>d.
       Inr \<lparr>gt_EventID = a, gt_PlayerID = b, gt_Points = c, gt_UpdatedAt = d\<rparr>))))"
| "scan_EventScore _ = Inl scan_error"

fun scan_EventReward :: "sql_value list \<Rightarrow> gen_EventReward result" where
  "scan_EventReward [a, b, c, d] =
     bind_result (scan_string a) (\<lambda>a. bind_result (scan_int in_int32 b) (\<lambda>b. bind_result (scan_int in_int64 c) (\<lambda>c.
     bind_result (scan_string d) (\<lambda>d.
       Inr \<lparr>gw_EventID = a, gw_Tier = b, gw_MinPoints = c, gw_RewardName = d\<rparr>))))"
| "scan_EventReward _ = Inl scan_error"

section \<open>gacha.sql.go\<close>

definition getPity :: sql_stmt where
  "getPity = Select [''counter''] ''gacha_pity'' [(''player_id'', CmpEq), (''pool_id'', CmpEq)] None False"

definition gen_GetPity :: "'s dbtx \<Rightarrow> string \<Rightarrow> string \<Rightarrow> 's \<Rightarrow> int result \<times> 's" where
  "gen_GetPity q playerID poolID s =
     (let (row, s) = dt_Query q getPity [SqlString playerID, SqlString poolID] s in (row_Scan scan_counter row, s))"

definition insertRoll :: sql_stmt where
  "insertRoll = Insert ''gacha_rolls''
     [''id'', ''player_id'', ''pool_id'', ''card_id'', ''rarity'', ''is_pity'', ''pulled_at'']"

definition gen_InsertRoll ::
  "'s dbtx \<Rightarrow> string \<Rightarrow> string \<Rightarrow> string \<Rightarrow> string \<Rightarrow> string \<Rightarrow> bool \<Rightarrow> int \<Rightarrow> 's \<Rightarrow> unit result \<times> 's" where
  "gen_InsertRoll q ident playerID poolID cardID rarity isPity pulledAt =
     dt_Exec q insertRoll [SqlString ident, SqlString playerID, SqlString poolID, SqlString cardID, SqlString rarity,
       SqlBool isPity, SqlTime pulledAt]"

definition listRollsByPlayer :: sql_stmt where
  "listRollsByPlayer = Select
     [''id'', ''player_id'', ''pool_id'', ''card_id'', ''rarity'', ''is_pity'', ''pulled_at'']
     ''gacha_rolls'' [(''player_id'', CmpEq)] (Some (''pulled_at'', True)) True"

definition gen_ListRollsByPlayer :: "'s dbtx \<Rightarrow> string \<Rightarrow> int \<Rightarrow> 's \<Rightarrow> gen_GachaRoll list result \<times> 's" where
  "gen_ListRollsByPlayer q playerID limit s =
     (let (rows, s) = dt_Query q listRollsByPlayer [SqlString playerID, SqlInt limit] s
      in (rows_Items scan_GachaRoll rows, s))"

definition upsertPity :: sql_stmt where
  "upsertPity = InsertOnDuplicate ''gacha_pity'' [''player_id'', ''pool_id'', ''counter''] ''counter'' AssignValues"

definition gen_UpsertPity :: "'s dbtx \<Rightarrow> string \<Rightarrow> string \<Rightarrow> int \<Rightarrow> 's \<Rightarrow> unit result \<times> 's" where
  "gen_UpsertPity q playerID poolID counter =
     dt_Exec q upsertPity [SqlString playerID, SqlString poolID, SqlInt counter]"

section \<open>profile.sql.go\<close>

definition createProfile :: sql_stmt where
  "createProfile = Insert ''profiles'' [''id'', ''name'', ''created_at'']"

definition gen_CreateProfile :: "'s dbtx \<Rightarrow> string \<Rightarrow> string \<Rightarrow> int \<Rightarrow> 's \<Rightarrow> unit result \<times> 's" where
  "gen_CreateProfile q ident name createdAt =
     dt_Exec q createProfile [SqlString ident, SqlString name, SqlTime createdAt]"

definition getProfile :: sql_stmt where
  "getProfile = Select [''id'', ''name'', ''created_at''] ''profiles'' [(''id'', CmpEq)] None False"

definition gen_GetProfile :: "'s dbtx \<Rightarrow> string \<Rightarrow> 's \<Rightarrow> gen_Profile result \<times> 's" where
  "gen_GetProfile q ident s =
     (let (row, s) = dt_Query q getProfile [SqlString ident] s in (row_Scan scan_Profile row, s))"

section \<open>event.sql.go\<close>

definition addEventScore :: sql_stmt where
  "addEventScore = InsertOnDuplicate ''event_scores'' [''event_id'', ''player_id'', ''points''] ''points'' AddValues"

definition gen_AddEventScore :: "'s dbtx \<Rightarrow> string \<Rightarrow> string \<Rightarrow> int \<Rightarrow> 's \<Rightarrow> unit result \<times> 's" where
  "gen_AddEventScore q eventID playerID points =
     dt_Exec q addEventScore [SqlString eventID, SqlString playerID, SqlInt points]"

definition createEvent :: sql_stmt where
  "createEvent = Insert ''events'' [''id'', ''name'', ''start_at'', ''end_at'']"

definition gen_CreateEvent :: "'s dbtx \<Rightarrow> string \<Rightarrow> string \<Rightarrow> int \<Rightarrow> int \<Rightarrow> 's \<Rightarrow> unit result \<times> 's" where
  "gen_CreateEvent q ident name startAt endAt =
     dt_Exec q createEvent [SqlString ident, SqlString name, SqlTime startAt, SqlTime endAt]"

definition getEvent :: sql_stmt where
  "getEvent = Select [''id'', ''name'', ''start_at'', ''end_at'', ''created_at''] ''events'' [(''id'', CmpEq)] None False"

definition gen_GetEvent :: "'s dbtx \<Rightarrow> string \<Rightarrow> 's \<Rightarrow> gen_Event result \<times> 's" where
  "gen_GetEvent q ident s =
     (let (row, s) = dt_Query q getEvent [SqlString ident] s in (row_Scan scan_Event row, s))"

definition getEventScore :: sql_stmt where
  "getEventScore = Select [''event_id'', ''player_id'', ''points'', ''updated_at''] ''event_scores''
     [(''event_id'', CmpEq), (''player_id'', CmpEq)] None False"

definition gen_GetEventScore :: "'s dbtx \<Rightarrow> string \<Rightarrow> string \<Rightarrow> 's \<Rightarrow> gen_EventScore result \<times> 's" where
  "gen_GetEventScore q eventID playerID s =
     (let (row, s) = dt_Query q getEventScore [SqlString eventID, SqlString playerID] s
      in (row_Scan scan_EventScore row, s))"

definition insertRewardTier :: sql_stmt where
  "insertRewardTier = Insert ''event_rewards'' [''event_id'', ''tier'', ''min_points'', ''reward_name'']"

definition gen_InsertRewardTier :: "'s dbtx \<Rightarrow> string \<Rightarrow> int \<Rightarrow> int \<Rightarrow> string \<Rightarrow> 's \<Rightarrow> unit result \<times> 's" where
  "gen_InsertRewardTier q eventID tier minPoints rewardName =
     dt_Exec q insertRewardTier [SqlString eventID, SqlInt tier, SqlInt minPoints, SqlString rewardName]"

definition listCurrentEvents :: sql_stmt where
  "listCurrentEvents = Select [''id'', ''name'', ''start_at'', ''end_at'', ''created_at''] ''events''
     [(''start_at'', CmpLe), (''end_at'', CmpGe)] (Some (''end_at'', False)) False"

definition gen_ListCurrentEvents :: "'s dbtx \<Rightarrow> int \<Rightarrow> int \<Rightarrow> 's \<Rightarrow> gen_Event list result \<times> 's" where
  "gen_ListCurrentEvents q startAt endAt s =
     (let (rows, s) = dt_Query q listCurrentEvents [SqlTime startAt, SqlTime endAt] s
      in (rows_Items scan_Event rows, s))"

definition listRewardTiers :: sql_stmt where
  "listRewardTiers = Select [''event_id'', ''tier'', ''min_points'', ''reward_name''] ''event_rewards''
     [(''event_id'', CmpEq)] (Some (''tier'', False)) False"

definition gen_ListRewardTiers :: "'s dbtx \<Rightarrow> string \<Rightarrow> 's \<Rightarrow> gen_EventReward list result \<times> 's" where
  "gen_ListRewardTiers q eventID s =
     (let (rows, s) = dt_Query q listRewardTiers [SqlString eventID] s in (rows_Items scan_EventReward rows, s))"

end
