(* ===== verification/Mysql_Repos.thy ===== *)
theory Mysql_Repos
  imports Mysql_Queries Gacha_Service Profile Event Battle
begin

text \<open>
  \<open>internal/persistence/mysql\<close>: the four repositories over the generated queries. \<open>FOR UPDATE\<close> takes a row lock
  and does not change what a statement answers, so the statement with it is the one without. The constructors
  only store the connection, which is an argument here.
\<close>

section \<open>profile_repo.go\<close>

definition mysqlErrDuplicateEntry :: nat where
  "mysqlErrDuplicateEntry = 1062"

definition mysql_profile_Get :: "'s dbtx \<Rightarrow> string \<Rightarrow> 's \<Rightarrow> Profile result \<times> 's" where
  "mysql_profile_Get q ident s =
     (case gen_GetProfile q ident s of
        (Inl err, s) \<Rightarrow>
          (if errors_Is err SqlErrNoRows then (Inl (Sentinel ErrProfileNotFound), s)
           else (Inl (Wrap ''queries.GetProfile'' err), s))
      | (Inr row, s) \<Rightarrow>
          (Inr \<lparr>pf_ID = gp_ID row, pf_Name = gp_Name row, pf_CreatedAt = gp_CreatedAt row\<rparr>, s))"

definition mysql_profile_Create :: "'s dbtx \<Rightarrow> Profile \<Rightarrow> 's \<Rightarrow> unit result \<times> 's" where
  "mysql_profile_Create q p s =
     (case gen_CreateProfile q (pf_ID p) (pf_Name p) (pf_CreatedAt p) s of
        (Inr _, s) \<Rightarrow> (Inr (), s)
      | (Inl err, s) \<Rightarrow>
          (if errors_As_MySQL err = Some mysqlErrDuplicateEntry then (Inl (Sentinel ErrProfileAlreadyExists), s)
           else (Inl (Wrap ''queries.CreateProfile'' err), s)))"

definition mysql_profile_repository :: "('s, 't) sql_db \<Rightarrow> 's profile_repository" where
  "mysql_profile_repository D =
     \<lparr>pr_Get = mysql_profile_Get (db_conn D), pr_Create = mysql_profile_Create (db_conn D)\<rparr>"

section \<open>gacha_repo.go\<close>

definition mysql_GetPity :: "('s, 't) sql_db \<Rightarrow> string \<Rightarrow> string \<Rightarrow> 's \<Rightarrow> int result \<times> 's" where
  "mysql_GetPity D playerID poolID s =
     (case gen_GetPity (db_conn D) playerID poolID s of
        (Inl err, s) \<Rightarrow>
          (if errors_Is err SqlErrNoRows then (Inr 0, s) else (Inl (Wrap ''queries.GetPity'' err), s))
      | (Inr c, s) \<Rightarrow> (Inr c, s))"

fun insert_rolls :: "'s dbtx \<Rightarrow> Roll list \<Rightarrow> 's \<Rightarrow> unit result \<times> 's" where
  "insert_rolls qtx [] s = (Inr (), s)"
| "insert_rolls qtx (roll # rolls) s =
     (case gen_InsertRoll qtx (ro_ID roll) (ro_PlayerID roll) (ro_PoolID roll) (ro_CardID roll) (ro_Rarity roll)
             (ro_IsPity roll) (ro_PulledAt roll) s of
        (Inl err, s) \<Rightarrow> (Inl (Wrap (''insert roll '' @ ro_ID roll) err), s)
      | (Inr _, s) \<Rightarrow> insert_rolls qtx rolls s)"

definition insert_rolls_body ::
  "('s, 't) sql_db \<Rightarrow> Roll list \<Rightarrow> string \<Rightarrow> string \<Rightarrow> int \<Rightarrow> 't \<Rightarrow> 's \<Rightarrow> unit result \<times> 's" where
  "insert_rolls_body D rolls playerID poolID newCounter tx s =
     (case insert_rolls (db_tx D tx) rolls s of
        (Inl err, s) \<Rightarrow> (Inl err, s)
      | (Inr _, s) \<Rightarrow>
          (case gen_UpsertPity (db_tx D tx) playerID poolID (int32 newCounter) s of
             (Inl err, s) \<Rightarrow> (Inl (Wrap ''upsert pity'' err), s)
           | (Inr _, s) \<Rightarrow>
               (case db_Commit D tx s of
                  (Inl err, s) \<Rightarrow> (Inl (Wrap ''commit'' err), s)
                | (Inr _, s) \<Rightarrow> (Inr (), s))))"

definition mysql_InsertRollsAndUpdatePity ::
  "('s, 't) sql_db \<Rightarrow> Roll list \<Rightarrow> string \<Rightarrow> string \<Rightarrow> int \<Rightarrow> 's \<Rightarrow> unit result \<times> 's" where
  "mysql_InsertRollsAndUpdatePity D rolls playerID poolID newCounter =
     in_tx D (insert_rolls_body D rolls playerID poolID newCounter)"

definition mysql_ListRollsByPlayer :: "('s, 't) sql_db \<Rightarrow> string \<Rightarrow> int \<Rightarrow> 's \<Rightarrow> Roll list result \<times> 's" where
  "mysql_ListRollsByPlayer D playerID limit s =
     (case gen_ListRollsByPlayer (db_conn D) playerID (int32 limit) s of
        (Inl err, s) \<Rightarrow> (Inl (Wrap ''queries.ListRollsByPlayer'' err), s)
      | (Inr rows, s) \<Rightarrow>
          (Inr (map (\<lambda>row. \<lparr>ro_ID = gg_ID row, ro_PlayerID = gg_PlayerID row, ro_PoolID = gg_PoolID row,
                    ro_CardID = gg_CardID row, ro_Rarity = gg_Rarity row, ro_IsPity = gg_IsPity row,
                    ro_PulledAt = gg_PulledAt row\<rparr>) rows), s))"

definition mysql_gacha_repository :: "('s, 't) sql_db \<Rightarrow> 's gacha_repository" where
  "mysql_gacha_repository D =
     \<lparr>gr_GetPity = mysql_GetPity D, gr_InsertRollsAndUpdatePity = mysql_InsertRollsAndUpdatePity D,
      gr_ListRollsByPlayer = mysql_ListRollsByPlayer D\<rparr>"

section \<open>event_repo.go\<close>

definition event_of_row :: "gen_Event \<Rightarrow> Event" where
  "event_of_row row = \<lparr>ev_ID = ge_ID row, ev_Name = ge_Name row, ev_StartAt = ge_StartAt row,
     ev_EndAt = ge_EndAt row, ev_CreatedAt = ge_CreatedAt row\<rparr>"

definition mysql_CreateEvent :: "('s, 't) sql_db \<Rightarrow> Event \<Rightarrow> 's \<Rightarrow> unit result \<times> 's" where
  "mysql_CreateEvent D e s =
     (case gen_CreateEvent (db_conn D) (ev_ID e) (ev_Name e) (ev_StartAt e) (ev_EndAt e) s of
        (Inr _, s) \<Rightarrow> (Inr (), s)
      | (Inl err, s) \<Rightarrow>
          (if errors_As_MySQL err = Some mysqlErrDuplicateEntry then (Inl (Sentinel ErrEventAlreadyExists), s)
           else (Inl (Wrap ''queries.CreateEvent'' err), s)))"

definition mysql_GetEvent :: "('s, 't) sql_db \<Rightarrow> string \<Rightarrow> 's \<Rightarrow> Event result \<times> 's" where
  "mysql_GetEvent D ident s =
     (case gen_GetEvent (db_conn D) ident s of
        (Inl err, s) \<Rightarrow>
          (if errors_Is err SqlErrNoRows then (Inl (Sentinel ErrEventNotFound), s)
           else (Inl (Wrap ''queries.GetEvent'' err), s))
      | (Inr row, s) \<Rightarrow> (Inr (event_of_row row), s))"

definition mysql_ListCurrentEvents :: "('s, 't) sql_db \<Rightarrow> int \<Rightarrow> 's \<Rightarrow> Event list result \<times> 's" where
  "mysql_ListCurrentEvents D now s =
     (case gen_ListCurrentEvents (db_conn D) now now s of
        (Inl err, s) \<Rightarrow> (Inl (Wrap ''queries.ListCurrentEvents'' err), s)
      | (Inr rows, s) \<Rightarrow> (Inr (map event_of_row rows), s))"

definition mysql_AddScore :: "('s, 't) sql_db \<Rightarrow> string \<Rightarrow> string \<Rightarrow> int \<Rightarrow> 's \<Rightarrow> unit result \<times> 's" where
  "mysql_AddScore D eventID playerID delta s =
     (case gen_AddEventScore (db_conn D) eventID playerID delta s of
        (Inl err, s) \<Rightarrow> (Inl (Wrap ''queries.AddEventScore'' err), s)
      | (Inr _, s) \<Rightarrow> (Inr (), s))"

text \<open>A missing row is the zero value with the identifiers.\<close>

definition mysql_GetScore :: "('s, 't) sql_db \<Rightarrow> string \<Rightarrow> string \<Rightarrow> 's \<Rightarrow> EventScore result \<times> 's" where
  "mysql_GetScore D eventID playerID s =
     (case gen_GetEventScore (db_conn D) eventID playerID s of
        (Inl err, s) \<Rightarrow>
          (if errors_Is err SqlErrNoRows
           then (Inr \<lparr>sc_EventID = eventID, sc_PlayerID = playerID, sc_Points = 0, sc_UpdatedAt = zero_time\<rparr>, s)
           else (Inl (Wrap ''queries.GetEventScore'' err), s))
      | (Inr row, s) \<Rightarrow>
          (Inr \<lparr>sc_EventID = gt_EventID row, sc_PlayerID = gt_PlayerID row, sc_Points = gt_Points row,
             sc_UpdatedAt = gt_UpdatedAt row\<rparr>, s))"

definition mysql_ListRewardTiers :: "('s, 't) sql_db \<Rightarrow> string \<Rightarrow> 's \<Rightarrow> RewardTier list result \<times> 's" where
  "mysql_ListRewardTiers D eventID s =
     (case gen_ListRewardTiers (db_conn D) eventID s of
        (Inl err, s) \<Rightarrow> (Inl (Wrap ''queries.ListRewardTiers'' err), s)
      | (Inr rows, s) \<Rightarrow>
          (Inr (map (\<lambda>row. \<lparr>rt_EventID = gw_EventID row, rt_Tier = gw_Tier row, rt_MinPoints = gw_MinPoints row,
                    rt_RewardName = gw_RewardName row\<rparr>) rows), s))"

definition mysql_InsertRewardTier :: "('s, 't) sql_db \<Rightarrow> RewardTier \<Rightarrow> 's \<Rightarrow> unit result \<times> 's" where
  "mysql_InsertRewardTier D t s =
     (case gen_InsertRewardTier (db_conn D) (rt_EventID t) (int32 (rt_Tier t)) (rt_MinPoints t) (rt_RewardName t) s of
        (Inl err, s) \<Rightarrow> (Inl (Wrap ''queries.InsertRewardTier'' err), s)
      | (Inr _, s) \<Rightarrow> (Inr (), s))"

definition mysql_event_repository :: "('s, 't) sql_db \<Rightarrow> 's event_repository" where
  "mysql_event_repository D =
     \<lparr>er_CreateEvent = mysql_CreateEvent D, er_GetEvent = mysql_GetEvent D,
      er_ListCurrentEvents = mysql_ListCurrentEvents D, er_AddScore = mysql_AddScore D,
      er_GetScore = mysql_GetScore D, er_ListRewardTiers = mysql_ListRewardTiers D,
      er_InsertRewardTier = mysql_InsertRewardTier D\<rparr>"

section \<open>battle_repo.go\<close>

definition selectHP :: sql_stmt where
  "selectHP = Select [''hp''] ''player_hp'' [(''player_id'', CmpEq)] None False"

definition insertHP :: sql_stmt where
  "insertHP = Insert ''player_hp'' [''player_id'', ''hp'']"

definition updateHP :: sql_stmt where
  "updateHP = UpdateWhere ''player_hp'' ''hp'' ''player_id''"

definition selectPlayerHP :: sql_stmt where
  "selectPlayerHP = Select [''player_id'', ''hp'', ''updated_at''] ''player_hp'' [(''player_id'', CmpEq)] None False"

definition resetHP :: sql_stmt where
  "resetHP = InsertOnDuplicate ''player_hp'' [''player_id'', ''hp''] ''hp'' AssignValues"

fun scan_hp :: "sql_value list \<Rightarrow> int result" where
  "scan_hp [h] = scan_int in_int64 h"
| "scan_hp _ = Inl scan_error"

fun scan_PlayerHP :: "sql_value list \<Rightarrow> PlayerHP result" where
  "scan_PlayerHP [a, b, c] =
     bind_result (scan_string a) (\<lambda>a. bind_result (scan_int in_int64 b) (\<lambda>b. bind_result (scan_time c) (\<lambda>c.
       Inr \<lparr>ph_PlayerID = a, ph_HP = b, ph_UpdatedAt = c\<rparr>)))"
| "scan_PlayerHP _ = Inl scan_error"

text \<open>The hit points of the player, inserting the initial ones when there is no row.\<close>

definition hp_for_update :: "'s dbtx \<Rightarrow> string \<Rightarrow> 's \<Rightarrow> int result \<times> 's" where
  "hp_for_update tx playerID s =
     (let (row, s) = dt_Query tx selectHP [SqlString playerID] s
      in case row_Scan scan_hp row of
           Inr hp \<Rightarrow> (Inr hp, s)
         | Inl err \<Rightarrow>
             (if errors_Is err SqlErrNoRows
              then case dt_Exec tx insertHP [SqlString playerID, SqlInt DefaultInitialHP] s of
                     (Inl err, s) \<Rightarrow> (Inl (Wrap ''insert hp'' err), s)
                   | (Inr _, s) \<Rightarrow> (Inr DefaultInitialHP, s)
              else (Inl (Wrap ''select for update'' err), s)))"

definition apply_damage_body :: "('s, 't) sql_db \<Rightarrow> string \<Rightarrow> int \<Rightarrow> 't \<Rightarrow> 's \<Rightarrow> int result \<times> 's" where
  "apply_damage_body D playerID damage tx s =
     (case hp_for_update (db_tx D tx) playerID s of
        (Inl err, s) \<Rightarrow> (Inl err, s)
      | (Inr hp, s) \<Rightarrow>
          (let newHP = int64 (hp - damage); newHP = (if newHP < 0 then 0 else newHP)
           in case dt_Exec (db_tx D tx) updateHP [SqlInt newHP, SqlString playerID] s of
                (Inl err, s) \<Rightarrow> (Inl (Wrap ''update hp'' err), s)
              | (Inr _, s) \<Rightarrow>
                  (case db_Commit D tx s of
                     (Inl err, s) \<Rightarrow> (Inl (Wrap ''commit'' err), s)
                   | (Inr _, s) \<Rightarrow> (Inr newHP, s))))"

definition mysql_ApplyDamageNaive :: "('s, 't) sql_db \<Rightarrow> string \<Rightarrow> int \<Rightarrow> 's \<Rightarrow> int result \<times> 's" where
  "mysql_ApplyDamageNaive D playerID damage = in_tx D (apply_damage_body D playerID damage)"

definition mysql_hp_Get :: "('s, 't) sql_db \<Rightarrow> string \<Rightarrow> 's \<Rightarrow> PlayerHP result \<times> 's" where
  "mysql_hp_Get D playerID s =
     (let (row, s) = dt_Query (db_conn D) selectPlayerHP [SqlString playerID] s
      in case row_Scan scan_PlayerHP row of
           Inl err \<Rightarrow>
             (if errors_Is err SqlErrNoRows then (Inl (Sentinel ErrHPNotFound), s) else (Inl (Wrap ''select'' err), s))
         | Inr p \<Rightarrow> (Inr p, s))"

definition mysql_hp_Reset :: "('s, 't) sql_db \<Rightarrow> string \<Rightarrow> int \<Rightarrow> 's \<Rightarrow> unit result \<times> 's" where
  "mysql_hp_Reset D playerID hp s =
     (case dt_Exec (db_conn D) resetHP [SqlString playerID, SqlInt hp] s of
        (Inl err, s) \<Rightarrow> (Inl (Wrap ''reset hp'' err), s)
      | (Inr _, s) \<Rightarrow> (Inr (), s))"

section \<open>Choosing the repositories\<close>

text \<open>\<open>buildRepos\<close> and \<open>buildBattleRepo\<close> of \<open>cmd/server/main.go\<close>; \<open>None\<close> is the nil database.\<close>

definition buildRepos ::
  "('s, ProfileRepo) field \<Rightarrow> ('s, GachaRepo) field \<Rightarrow> ('s, EventRepo) field \<Rightarrow> ('s, env) field \<Rightarrow> ('s, 't) sql_db option \<Rightarrow>
     's profile_repository \<times> 's gacha_repository \<times> 's event_repository" where
  "buildRepos pf gf ef e db =
     (case db of
        None \<Rightarrow> (inmem_profile_repository pf, inmem_gacha_repository gf, inmem_event_repository ef e)
      | Some D \<Rightarrow> (mysql_profile_repository D, mysql_gacha_repository D, mysql_event_repository D))"

definition buildBattleRepo ::
  "('s, BattleRepo) field \<Rightarrow> ('s, 't) sql_db option \<Rightarrow> string \<Rightarrow> int \<Rightarrow> 's \<Rightarrow> int result \<times> 's" where
  "buildBattleRepo bf db =
     (case db of
        None \<Rightarrow> (\<lambda>p d. on_field bf (inmem_ApplyDamageNaive p d))
      | Some D \<Rightarrow> mysql_ApplyDamageNaive D)"

end
