(* ===== verification/Mysql_Gacha.thy ===== *)
theory Mysql_Gacha
  imports Mysql_Repos
begin

text \<open>
  The repositories on MySQL keep their promises on every database with the documented behaviour (\<open>sql_laws\<close>),
  whatever statements fail. The gacha repository is shown to be a \<open>gacha_store\<close>: its transaction is all or
  nothing, so that what is proved of the service in that locale holds on MySQL.
\<close>

section \<open>The rows of the tables\<close>

lemma row_ok_pity:
  "row_ok ''gacha_pity'' r \<longleftrightarrow> (\<exists>p q n t. in_int32 n \<and>
     r = [(''player_id'', SqlString p), (''pool_id'', SqlString q), (''counter'', SqlInt n), (''updated_at'', SqlTime t)])"
  by (auto simp: row_ok_def table_simps list_all2_Cons1 fits_cases)

lemma row_ok_rolls:
  "row_ok ''gacha_rolls'' r \<Longrightarrow> \<exists>i p q c y b t.
     r = [(''id'', SqlString i), (''player_id'', SqlString p), (''pool_id'', SqlString q), (''card_id'', SqlString c),
       (''rarity'', SqlString y), (''is_pity'', SqlInt b), (''pulled_at'', SqlTime t)]"
  by (auto simp: row_ok_def table_simps list_all2_Cons1 fits_cases)

section \<open>Stored rolls and counters\<close>

definition roll_of_row :: "sql_row \<Rightarrow> Roll" where
  "roll_of_row r =
     \<lparr>ro_ID = str_of (column ''id'' r), ro_PlayerID = str_of (column ''player_id'' r), ro_PoolID = str_of (column ''pool_id'' r),
      ro_CardID = str_of (column ''card_id'' r), ro_Rarity = str_of (column ''rarity'' r),
      ro_IsPity = (int_of (column ''is_pity'' r) = 1), ro_PulledAt = int_of (column ''pulled_at'' r)\<rparr>"

definition sql_rolls :: "tables \<Rightarrow> Roll list" where
  "sql_rolls T = map roll_of_row (T ''gacha_rolls'')"

text \<open>The key of a counter is compared under the collation; a missing row counts as 0.\<close>

definition pity_key :: "(string \<Rightarrow> string) \<Rightarrow> sql_row \<Rightarrow> string \<times> string" where
  "pity_key coll r = (coll (str_of (column ''player_id'' r)), coll (str_of (column ''pool_id'' r)))"

definition pity_map :: "(string \<Rightarrow> string) \<Rightarrow> tables \<Rightarrow> string \<times> string \<Rightarrow> int option" where
  "pity_map coll T = by_key (pity_key coll) (\<lambda>r. int_of (column ''counter'' r)) (T ''gacha_pity'')"

definition sql_pity :: "(string \<Rightarrow> string) \<Rightarrow> tables \<Rightarrow> string \<Rightarrow> string \<Rightarrow> int" where
  "sql_pity coll T p q = (case pity_map coll T (coll p, coll q) of None \<Rightarrow> 0 | Some n \<Rightarrow> n)"

text \<open>What the table keeps of a roll: \<open>CHAR\<close> drops trailing blanks, \<open>TIMESTAMP\<close> cuts the time.\<close>

definition kept_roll :: "(int \<Rightarrow> int) \<Rightarrow> Roll \<Rightarrow> Roll" where
  "kept_roll ts r = r\<lparr>ro_ID := rev (dropWhile (\<lambda>c. c = CHR '' '') (rev (ro_ID r))), ro_PulledAt := ts (ro_PulledAt r)\<rparr>"

section \<open>Statements\<close>

lemma pity_rows:
  assumes "tables_ok coll T" "r \<in> set (T ''gacha_pity'')"
  shows "\<exists>p q n t. in_int32 n \<and>
     r = [(''player_id'', SqlString p), (''pool_id'', SqlString q), (''counter'', SqlInt n), (''updated_at'', SqlTime t)]"
  using tables_okD(2) [OF assms(1) _ assms(2)] by (simp add: row_ok_pity schema_def)

lemma insertRoll_effect:
  assumes "sql_effect coll ts now insertRoll [SqlString i, SqlString p, SqlString q, SqlString c, SqlString y, SqlBool b, SqlTime t] T = Done T'"
  shows "sql_rolls T' = sql_rolls T @ [kept_roll ts \<lparr>ro_ID = i, ro_PlayerID = p, ro_PoolID = q, ro_CardID = c,
      ro_Rarity = y, ro_IsPity = b, ro_PulledAt = t\<rparr>]" "pity_map coll T' = pity_map coll T"
proof -
  have "T' = T(''gacha_rolls'' := T ''gacha_rolls'' @ [new_row ts now ''gacha_rolls''
      [''id'', ''player_id'', ''pool_id'', ''card_id'', ''rarity'', ''is_pity'', ''pulled_at'']
      [SqlString i, SqlString p, SqlString q, SqlString c, SqlString y, SqlBool b, SqlTime t]])"
    using assms by (auto simp: insertRoll_def Let_def replaced_Done split: if_splits)
  then show "sql_rolls T' = sql_rolls T @ [kept_roll ts \<lparr>ro_ID = i, ro_PlayerID = p, ro_PoolID = q, ro_CardID = c,
      ro_Rarity = y, ro_IsPity = b, ro_PulledAt = t\<rparr>]" "pity_map coll T' = pity_map coll T"
    by (simp_all add: sql_rolls_def pity_map_def new_row_def table_simps roll_of_row_def column_def kept_roll_def)
qed

lemma upsertPity_effect:
  assumes eff: "sql_effect coll ts now upsertPity [SqlString p, SqlString q, SqlInt n] T = Done T'" and ok: "tables_ok coll T"
  shows "pity_map coll T' = (pity_map coll T)((coll p, coll q) \<mapsto> n)" "sql_rolls T' = sql_rolls T"
proof -
  let ?cols = "[''player_id'', ''pool_id'', ''counter'']"
  let ?r = "new_row ts now ''gacha_pity'' ?cols [SqlString p, SqlString q, SqlInt n]"
  have r: "?r = [(''player_id'', SqlString p), (''pool_id'', SqlString q), (''counter'', SqlInt n), (''updated_at'', SqlTime (ts now))]"
    by (simp add: new_row_def table_simps)
  have key: "pity_key coll ?r = (coll p, coll q)" by (simp add: r pity_key_def column_def)
  note up = upsert_effect [OF eff [unfolded upsertPity_def] refl, of "pity_key coll" "\<lambda>r. int_of (column ''counter'' r)" "\<lambda>_. n"]
  have "by_key (pity_key coll) (\<lambda>r. int_of (column ''counter'' r)) (T' ''gacha_pity'') =
      (by_key (pity_key coll) (\<lambda>r. int_of (column ''counter'' r)) (T ''gacha_pity''))((coll p, coll q) \<mapsto> n)"
  proof (subst up(1))
    fix x assume "x \<in> set (T ''gacha_pity'')"
    from pity_rows [OF ok this] show "same_key coll ''gacha_pity'' ?r x \<longleftrightarrow> pity_key coll x = pity_key coll ?r"
      by (auto simp: r pity_key_def same_key_def table_simps column_def)
  next
    fix x assume "x \<in> set (T ''gacha_pity'')" "pity_key coll x = pity_key coll ?r"
    with pity_rows [OF ok this(1)]
    show "pity_key coll (set_column ts now ''gacha_pity'' ''counter'' (assigned AssignValues (column ''counter'' x) (column ''counter'' ?r)) x) =
          pity_key coll ?r \<and>
        int_of (column ''counter'' (set_column ts now ''gacha_pity'' ''counter'' (assigned AssignValues (column ''counter'' x) (column ''counter'' ?r)) x)) = n"
      by (auto simp: r pity_key_def column_def set_column_def table_simps Let_def)
  qed (simp add: key, simp add: r column_def split: option.splits)
  then show "pity_map coll T' = (pity_map coll T)((coll p, coll q) \<mapsto> n)" by (simp add: pity_map_def)
  show "sql_rolls T' = sql_rolls T"
    using eff by (auto simp: upsertPity_def sql_rolls_def Let_def replaced_Done split: if_splits)
qed

lemma getPity_answer:
  assumes "sql_answers coll getPity [SqlString p, SqlString q] T out" and ok: "tables_ok coll T"
  shows "out = (case pity_map coll T (coll p, coll q) of None \<Rightarrow> [] | Some n \<Rightarrow> [[SqlInt n]])"
    and "pity_map coll T (coll p, coll q) = Some n \<Longrightarrow> in_int32 n"
proof -
  let ?tab = "''gacha_pity''" let ?k = "(coll p, coll q)"
  have out: "out = (case by_key (pity_key coll) (\<lambda>x. x) (T ?tab) ?k of None \<Rightarrow> [] | Some x \<Rightarrow> [map (\<lambda>c. column c x) [''counter'']])"
  proof (rule select_by_key [OF assms(1) [unfolded getPity_def]])
    show "table_ok coll T ?tab" using tables_okD(1) [OF ok] by (simp add: schema_def)
    fix x assume x: "x \<in> set (T ?tab)"
    from pity_rows [OF ok x]
    show "satisfies coll [(''player_id'', CmpEq), (''pool_id'', CmpEq)] [SqlString p, SqlString q] x \<longleftrightarrow> pity_key coll x = ?k"
      by (auto simp: satisfies_def pity_key_def column_def)
    fix y assume y: "y \<in> set (T ?tab)"
    from pity_rows [OF ok x] pity_rows [OF ok y] show "pity_key coll x = pity_key coll y \<Longrightarrow> same_key coll ?tab x y"
      by (auto simp: same_key_def pity_key_def table_simps column_def)
  qed
  have m: "pity_map coll T ?k = map_option (\<lambda>r. int_of (column ''counter'' r)) (by_key (pity_key coll) (\<lambda>x. x) (T ?tab) ?k)"
    unfolding pity_map_def by (rule by_key_map)
  show "out = (case pity_map coll T ?k of None \<Rightarrow> [] | Some n \<Rightarrow> [[SqlInt n]])"
  proof (cases "by_key (pity_key coll) (\<lambda>x. x) (T ?tab) ?k")
    case None
    then show ?thesis by (simp add: out m)
  next
    case (Some x)
    with pity_rows [OF ok, of x] by_key_Some [OF Some] show ?thesis by (auto simp: out m column_def)
  qed
  show "pity_map coll T ?k = Some n \<Longrightarrow> in_int32 n"
    using pity_rows [OF ok] by_key_Some by (fastforce simp: m column_def)
qed

section \<open>The gacha repository keeps the promise\<close>

lemma scan_counter_safe: "scans_safely scan_counter"
  unfolding scans_safely_def
proof (intro allI impI)
  fix vs err assume "scan_counter vs = Inl err"
  then show "\<not> errors_Is err SqlErrNoRows"
    by (cases vs rule: scan_counter.cases) (auto simp: scan_error_safe scan_error_def)
qed

lemma mysql_GetPity_cases:
  assumes laws: "sql_laws coll ts D view pend" and get: "mysql_GetPity D p q s = (r, s')"
  shows "view s' = view s" "r = Inr n \<Longrightarrow> n = sql_pity coll (view s) p q"
proof -
  obtain rows s1 where q: "dt_Query (db_conn D) getPity [SqlString p, SqlString q] s = (rows, s1)" by (rule prod.exhaust)
  note ql = sql_lawsD(4) [OF laws q]
  note ok = sql_lawsD(1) [OF laws, of s]
  have st: "s' = s1" using get q by (auto simp: mysql_GetPity_def gen_GetPity_def split: sum.splits if_splits)
  then show "view s' = view s" using ql by simp
  assume r: "r = Inr n"
  show "n = sql_pity coll (view s) p q"
  proof (cases "row_Scan scan_counter rows")
    case (Inl err)
    with get q r have e: "errors_Is err SqlErrNoRows" "n = 0"
      by (auto simp: mysql_GetPity_def gen_GetPity_def split: if_splits)
    have "sql_answers coll getPity [SqlString p, SqlString q] (view s) []"
      by (rule row_Scan_none [OF conjunct1 [OF ql] Inl e(1) scan_counter_safe])
    from getPity_answer(1) [OF this ok] e show ?thesis by (simp add: sql_pity_def split: option.splits)
  next
    case (Inr c)
    with get q r have "c = n" by (auto simp: mysql_GetPity_def gen_GetPity_def)
    from row_Scan_law [OF conjunct1 [OF ql] Inr] obtain vs rest
      where a: "sql_answers coll getPity [SqlString p, SqlString q] (view s) (vs # rest)" "scan_counter vs = Inr c" by auto
    from getPity_answer [OF a(1) ok] a(2) \<open>c = n\<close> show ?thesis
      by (auto simp: sql_pity_def split: option.splits if_splits)
  qed
qed

lemma insert_rolls_effect:
  assumes laws: "sql_laws coll ts D view pend" and run: "insert_rolls (db_tx D t) rs s = (r, s')"
  shows "view s' = view s"
    "r = Inr u \<Longrightarrow> sql_rolls (pend s' t) = sql_rolls (pend s t) @ map (kept_roll ts) rs \<and>
       pity_map coll (pend s' t) = pity_map coll (pend s t)"
proof -
  have "view s' = view s \<and> (r = Inr u \<longrightarrow> sql_rolls (pend s' t) = sql_rolls (pend s t) @ map (kept_roll ts) rs \<and>
       pity_map coll (pend s' t) = pity_map coll (pend s t))"
    using run
  proof (induction rs arbitrary: s)
    case Nil
    then show ?case by simp
  next
    case (Cons x rs)
    let ?args = "[SqlString (ro_ID x), SqlString (ro_PlayerID x), SqlString (ro_PoolID x), SqlString (ro_CardID x),
        SqlString (ro_Rarity x), SqlBool (ro_IsPity x), SqlTime (ro_PulledAt x)]"
    obtain r1 s1 where e: "dt_Exec (db_tx D t) insertRoll ?args s = (r1, s1)" by (rule prod.exhaust)
    note l = sql_lawsD(7) [OF laws e]
    show ?case
    proof (cases r1)
      case (Inl err)
      with Cons.prems e l show ?thesis by (auto simp: gen_InsertRoll_def)
    next
      case (Inr u1)
      with Cons.prems e have rest: "insert_rolls (db_tx D t) rs s1 = (r, s')" by (simp add: gen_InsertRoll_def)
      from l Inr obtain now where "sql_effect coll ts now insertRoll ?args (pend s t) = Done (pend s1 t)"
        by (auto simp: exec_law_def)
      moreover have "\<lparr>ro_ID = ro_ID x, ro_PlayerID = ro_PlayerID x, ro_PoolID = ro_PoolID x, ro_CardID = ro_CardID x,
          ro_Rarity = ro_Rarity x, ro_IsPity = ro_IsPity x, ro_PulledAt = ro_PulledAt x\<rparr> = x" by simp
      ultimately have "sql_rolls (pend s1 t) = sql_rolls (pend s t) @ [kept_roll ts x]"
          "pity_map coll (pend s1 t) = pity_map coll (pend s t)"
        using insertRoll_effect by metis+
      with Cons.IH [OF rest] l show ?thesis by auto
    qed
  qed
  then show "view s' = view s" "r = Inr u \<Longrightarrow> sql_rolls (pend s' t) = sql_rolls (pend s t) @ map (kept_roll ts) rs \<and>
       pity_map coll (pend s' t) = pity_map coll (pend s t)" by auto
qed

text \<open>The transaction: all the rolls and the counter, or nothing.\<close>

lemma mysql_Insert_cases:
  assumes laws: "sql_laws coll ts D view pend" and ins: "mysql_InsertRollsAndUpdatePity D rs p q n s = (r, s')"
  shows "case r of
      Inl err \<Rightarrow> view s' = view s
    | Inr u \<Rightarrow> sql_rolls (view s') = sql_rolls (view s) @ map (kept_roll ts) rs \<and>
        pity_map coll (view s') = (pity_map coll (view s))((coll p, coll q) \<mapsto> int32 n)"
proof (rule in_tx_atomic [OF laws ins [unfolded mysql_InsertRollsAndUpdatePity_def]])
  fix t s1 err s2
  assume "insert_rolls_body D rs p q n t s1 = (Inl err, s2)"
  then show "view s2 = view s1"
    by (auto simp: insert_rolls_body_def gen_UpsertPity_def split: prod.splits sum.splits
        dest!: insert_rolls_effect(1) [OF laws] sql_lawsD(7) [OF laws] sql_lawsD(10) [OF laws])
next
  fix t s1 u s2
  assume pend: "pend s1 t = view s1" and body: "insert_rolls_body D rs p q n t s1 = (Inr u, s2)"
  then obtain a s3 b s4 c where st: "insert_rolls (db_tx D t) rs s1 = (Inr a, s3)"
      "dt_Exec (db_tx D t) upsertPity [SqlString p, SqlString q, SqlInt (int32 n)] s3 = (Inr b, s4)"
      "db_Commit D t s4 = (Inr c, s2)"
    by (auto simp: insert_rolls_body_def gen_UpsertPity_def split: prod.splits sum.splits)
  from sql_lawsD(7) [OF laws st(2)] obtain now where
    "sql_effect coll ts now upsertPity [SqlString p, SqlString q, SqlInt (int32 n)] (pend s3 t) = Done (pend s4 t)"
    by (auto simp: exec_law_def)
  from upsertPity_effect [OF this sql_lawsD(2) [OF laws]] insert_rolls_effect(2) [OF laws st(1) refl]
    sql_lawsD(9) [OF laws st(3)] pend
  show "sql_rolls (view s2) = sql_rolls (view s1) @ map (kept_roll ts) rs \<and>
      pity_map coll (view s2) = (pity_map coll (view s1))((coll p, coll q) \<mapsto> int32 n)"
    by simp
qed

text \<open>
  The service over such a database: the environment is kept apart from the tables, and the identifiers \<open>ids\<close> that
  players and pools use differ under the collation.
\<close>

definition apart :: "('s, env) field \<Rightarrow> ('s \<Rightarrow> tables) \<Rightarrow> bool" where
  "apart e view \<longleftrightarrow> (\<forall>s x. view (fput e x s) = view s)"

lemma mysql_gacha_client:
  assumes laws: "sql_laws coll ts D view pend" and e: "apart e view" and ids: "inj_on coll ids"
  shows "gacha_client (mysql_gacha_repository D) (\<lambda>s. sql_rolls (view s)) (\<lambda>s. sql_pity coll (view s))
    (\<lambda>p q. p \<in> ids \<and> q \<in> ids) in_int32 (kept_roll ts) (NewGachaService (mysql_gacha_repository D) pools e)"
proof
  fix p q s r s'
  assume "gr_GetPity (mysql_gacha_repository D) p q s = (r, s')"
  then have "mysql_GetPity D p q s = (r, s')" by (simp add: mysql_gacha_repository_def)
  from mysql_GetPity_cases(1) [OF laws this]
  show "sql_rolls (view s') = sql_rolls (view s) \<and> sql_pity coll (view s') = sql_pity coll (view s)" by simp
next
  fix p q s n s'
  assume "gr_GetPity (mysql_gacha_repository D) p q s = (Inr n, s')"
  then have "mysql_GetPity D p q s = (Inr n, s')" by (simp add: mysql_gacha_repository_def)
  from mysql_GetPity_cases(2) [OF laws this refl] show "n = sql_pity coll (view s) p q" .
next
  fix rs p q n s err s'
  assume "gr_InsertRollsAndUpdatePity (mysql_gacha_repository D) rs p q n s = (Inl err, s')"
  then have "mysql_InsertRollsAndUpdatePity D rs p q n s = (Inl err, s')" by (simp add: mysql_gacha_repository_def)
  from mysql_Insert_cases [OF laws this]
  show "sql_rolls (view s') = sql_rolls (view s) \<and> sql_pity coll (view s') = sql_pity coll (view s)" by simp
next
  fix rs p q n s u s'
  assume "gr_InsertRollsAndUpdatePity (mysql_gacha_repository D) rs p q n s = (Inr u, s')"
  then have "mysql_InsertRollsAndUpdatePity D rs p q n s = (Inr u, s')" by (simp add: mysql_gacha_repository_def)
  note ins = mysql_Insert_cases [OF laws this, simplified]
  show "sql_rolls (view s') = sql_rolls (view s) @ map (kept_roll ts) rs" using ins by simp
  show "in_int32 n \<Longrightarrow> sql_pity coll (view s') p q = n" using ins by (simp add: sql_pity_def int32_id)
  fix p' q'
  assume "p \<in> ids \<and> q \<in> ids" "p' \<in> ids \<and> q' \<in> ids" "(p', q') \<noteq> (p, q)"
  then have "(coll p', coll q') \<noteq> (coll p, coll q)" using ids by (auto dest: inj_onD)
  then show "sql_pity coll (view s') p' q' = sql_pity coll (view s) p' q'" using ins by (auto simp: sql_pity_def)
qed (use e in \<open>auto simp: apart_def kept_roll_def NewGachaService_def on_field_def rand_IntN_def uuid_NewV7_def
    time_Now_def split: prod.splits\<close>)

section \<open>Properties\<close>

text \<open>
  C11: rolls and counter are written together or not at all. On every database with the documented behaviour, and
  whatever statement of the transaction fails, a call of \<open>InsertRollsAndUpdatePity\<close> that returns an error leaves
  every committed table as it was; one that returns none has appended exactly the rolls (as the columns keep them)
  and set exactly the counter of the player and pool.
\<close>

theorem mysql_rolls_atomic:
  assumes "sql_laws coll ts D view pend" "mysql_InsertRollsAndUpdatePity D rs p q n s = (r, s')"
  shows "(\<exists>err. r = Inl err \<and> view s' = view s) \<or>
    (r = Inr () \<and> sql_rolls (view s') = sql_rolls (view s) @ map (kept_roll ts) rs \<and>
      pity_map coll (view s') = (pity_map coll (view s))((coll p, coll q) \<mapsto> int32 n))"
  using mysql_Insert_cases [OF assms] by (cases r) auto

definition whole_seconds :: "int \<Rightarrow> int" where
  "whole_seconds t = t - t mod 1000000000"

definition ref_roll :: Roll where
  "ref_roll = \<lparr>ro_ID = ''r1'', ro_PlayerID = ''alice'', ro_PoolID = ''demo'', ro_CardID = ''c1'', ro_Rarity = ''R'',
     ro_IsPity = False, ro_PulledAt = 1500000000\<rparr>"

theorem mysql_rolls_atomic_witness:
  "let (r, s') = mysql_InsertRollsAndUpdatePity (ref_db id whole_seconds) [ref_roll] ''alice'' ''demo'' 7 (\<lambda>_. [], \<lambda>_. [], ())
   in r = Inr () \<and> sql_rolls (ref_view id s') = [kept_roll whole_seconds ref_roll] \<and>
      pity_map id (ref_view id s') = [(''alice'', ''demo'') \<mapsto> 7]"
proof -
  let ?s = "(\<lambda>_. [], \<lambda>_. [], ()) :: tables \<times> tables \<times> unit"
  obtain r s' where call: "mysql_InsertRollsAndUpdatePity (ref_db id whole_seconds) [ref_roll] ''alice'' ''demo'' 7 ?s = (r, s')"
    by (rule prod.exhaust)
  have "fst (mysql_InsertRollsAndUpdatePity (ref_db id whole_seconds) [ref_roll] ''alice'' ''demo'' 7 ?s) = Inr ()"
    by code_simp
  then have "r = Inr ()" by (simp add: call)
  moreover have "ref_view id ?s = (\<lambda>_. [])" by (simp add: ref_view_def clean_def)
  ultimately show ?thesis
    using mysql_rolls_atomic [OF ref_db_laws call] by (simp add: call sql_rolls_def pity_map_def fun_eq_iff int32_def)
qed

definition mysql_gacha_service :: "('s, 't) sql_db \<Rightarrow> ('s, env) field \<Rightarrow> 's gacha_service" where
  "mysql_gacha_service D e =
     NewGachaService (mysql_gacha_repository D) (StaticPoolRegistry_GetPool NewStaticPoolRegistry) e"

text \<open>
  C10: the pity guarantee on MySQL. On every database with the documented behaviour that starts empty, let players
  whose identifiers the collation tells apart send any sequence of roll requests, with any random source, UUID
  source and clock, while any statement, transaction or commit may fail. Then for each of them the stored counter is
  the number of stored rolls on the demo pool since the last SSR, and never have there been 80 in a row without one.
\<close>

theorem mysql_pity_guarantee:
  assumes "sql_laws coll ts D view pend" "apart e view" "inj_on coll ids" "view s0 = (\<lambda>_. [])"
    and "DemoPoolID \<in> ids" "\<forall>(p, q, n)\<in>set reqs. p \<in> ids" "p \<in> ids"
  shows "let T = view (gacha_run (mysql_gacha_service D e) reqs s0); h = history (sql_rolls T) p DemoPoolID
    in sql_pity coll T p DemoPoolID = int (since_ssr h) \<and> never_dry 80 h"
proof -
  let ?svc = "mysql_gacha_service D e" and ?id = "\<lambda>p q. p \<in> ids \<and> q \<in> ids"
  note client = mysql_gacha_client [OF assms(1-3), of "StaticPoolRegistry_GetPool NewStaticPoolRegistry", folded mysql_gacha_service_def]
  have pools: "gs_pools ?svc q = Inr pool \<longleftrightarrow> q = DemoPoolID \<and> pool = demo_pool" for q pool
    by (simp add: mysql_gacha_service_def registry_pools)
  have small: "0 \<le> k \<Longrightarrow> k < po_PityThreshold demo_pool \<Longrightarrow> in_int32 k" for k
    by (simp add: demo_pool_def in_int32_def)
  have ok: "pool_ok pool \<and> (0 \<le> k \<longrightarrow> k < po_PityThreshold pool \<longrightarrow> in_int32 k)" if "gs_pools ?svc q = Inr pool" for q pool k
    using that small demo_pool_ok by (simp add: pools)
  have start: "counters_ok ?id (gs_pools ?svc) (sql_rolls (view s0)) (sql_pity coll (view s0))"
    by (simp add: counters_ok_def pools history_def sql_rolls_def sql_pity_def pity_map_def assms(4) pity_inv_def demo_pool_def)
  have req: "\<forall>(p, q, n)\<in>set reqs. \<forall>pool. gs_pools ?svc q = Inr pool \<longrightarrow> p \<in> ids \<and> q \<in> ids"
    using assms(5,6) by (auto simp: pools)
  have "counters_ok ?id (gs_pools ?svc) (sql_rolls (view (gacha_run ?svc reqs s0))) (sql_pity coll (view (gacha_run ?svc reqs s0)))"
    by (rule gacha_client.run_counters_ok [OF client ok req start])
  then have "pity_inv (po_PityThreshold demo_pool) (history (sql_rolls (view (gacha_run ?svc reqs s0))) p DemoPoolID)
      (sql_pity coll (view (gacha_run ?svc reqs s0)) p DemoPoolID)"
    using assms(5,7) by (simp add: counters_ok_def pools)
  then show ?thesis by (simp add: pity_inv_def demo_pool_def Let_def)
qed

definition ref_env_field :: "(tables \<times> tables \<times> env, env) field" where
  "ref_env_field = \<lparr>fget = (\<lambda>(c, p, e). e), fput = (\<lambda>x (c, p, e). (c, p, x))\<rparr>"

definition ref_env :: env where
  "ref_env = \<lparr>env_rng = (\<lambda>_. 999), env_uuid = (\<lambda>n. Inr (replicate n (CHR ''x''))), env_clock = (\<lambda>_. 0), env_pos = 0\<rparr>"

theorem mysql_pity_guarantee_witness:
  "let T = ref_view id (gacha_run (mysql_gacha_service (ref_db id whole_seconds) ref_env_field)
       [(''alice'', DemoPoolID, 2)] (\<lambda>_. [], \<lambda>_. [], ref_env))
   in length (sql_rolls T) = 2 \<and> sql_pity id T ''alice'' DemoPoolID = int (since_ssr (history (sql_rolls T) ''alice'' DemoPoolID))
      \<and> sql_pity id T ''alice'' DemoPoolID = 2"
proof -
  let ?run = "gacha_run (mysql_gacha_service (ref_db id whole_seconds) ref_env_field)
       [(''alice'', DemoPoolID, 2)] (\<lambda>_. [], \<lambda>_. [], ref_env)"
  have "apart ref_env_field (ref_view id)" by (auto simp: apart_def ref_env_field_def ref_view_def)
  moreover have "ref_view id (\<lambda>_. [], \<lambda>_. [], ref_env) = (\<lambda>_. [])" by (simp add: ref_view_def clean_def)
  moreover have "length (sql_rolls (ref_view id ?run)) = 2" "sql_pity id (ref_view id ?run) ''alice'' DemoPoolID = 2"
    by code_simp+
  ultimately show ?thesis
    using mysql_pity_guarantee [OF ref_db_laws, of ref_env_field id UNIV "(\<lambda>_. [], \<lambda>_. [], ref_env)"
        "[(''alice'', DemoPoolID, 2)]" "''alice''" whole_seconds] by (simp add: Let_def)
qed

end
