(* ===== verification/Mysql_Event.thy ===== *)
theory Mysql_Event
  imports Mysql_Gacha
begin

text \<open>
  Event scores on MySQL. The table adds a delta to the stored points in one statement
  (\<open>ON DUPLICATE KEY UPDATE points = points + VALUES(points)\<close>); the service then reads the points back. On every
  database with the documented behaviour the stored points are the sum of the deltas of the calls that reached the
  statement, which are the accepted ones and those whose read failed.
\<close>

section \<open>The table of scores\<close>

lemma score_rows:
  assumes "tables_ok coll T" "r \<in> set (T ''event_scores'')"
  shows "\<exists>e p n t. in_int64 n \<and>
     r = [(''event_id'', SqlString e), (''player_id'', SqlString p), (''points'', SqlInt n), (''updated_at'', SqlTime t)]"
  using tables_okD(2) [OF assms(1) _ assms(2)]
  by (auto simp: schema_def row_ok_def table_simps list_all2_Cons1 fits_cases)

definition score_key :: "(string \<Rightarrow> string) \<Rightarrow> sql_row \<Rightarrow> string \<times> string" where
  "score_key coll r = (coll (str_of (column ''event_id'' r)), coll (str_of (column ''player_id'' r)))"

definition score_map :: "(string \<Rightarrow> string) \<Rightarrow> tables \<Rightarrow> string \<times> string \<Rightarrow> int option" where
  "score_map coll T = by_key (score_key coll) (\<lambda>r. int_of (column ''points'' r)) (T ''event_scores'')"

definition sql_points :: "(string \<Rightarrow> string) \<Rightarrow> tables \<Rightarrow> string \<Rightarrow> string \<Rightarrow> int" where
  "sql_points coll T e p = (case score_map coll T (coll e, coll p) of None \<Rightarrow> 0 | Some n \<Rightarrow> n)"

lemma addEventScore_effect:
  assumes eff: "sql_effect coll ts now addEventScore [SqlString e, SqlString p, SqlInt d] T = Done T'" and ok: "tables_ok coll T"
  shows "score_map coll T' = (score_map coll T)((coll e, coll p) \<mapsto> sql_points coll T e p + d)"
proof -
  let ?r = "new_row ts now ''event_scores'' [''event_id'', ''player_id'', ''points''] [SqlString e, SqlString p, SqlInt d]"
  have r: "?r = [(''event_id'', SqlString e), (''player_id'', SqlString p), (''points'', SqlInt d), (''updated_at'', SqlTime (ts now))]"
    by (simp add: new_row_def table_simps)
  have key: "score_key coll ?r = (coll e, coll p)" by (simp add: r score_key_def column_def)
  note up = upsert_effect [OF eff [unfolded addEventScore_def] refl, of "score_key coll" "\<lambda>r. int_of (column ''points'' r)" "\<lambda>n. n + d"]
  have "by_key (score_key coll) (\<lambda>r. int_of (column ''points'' r)) (T' ''event_scores'') =
      (by_key (score_key coll) (\<lambda>r. int_of (column ''points'' r)) (T ''event_scores''))(score_key coll ?r \<mapsto>
        case by_key (score_key coll) (\<lambda>r. int_of (column ''points'' r)) (T ''event_scores'') (score_key coll ?r) of
          None \<Rightarrow> int_of (column ''points'' ?r) | Some v \<Rightarrow> v + d)"
  proof (rule up(1))
    fix x assume "x \<in> set (T ''event_scores'')"
    from score_rows [OF ok this] show "same_key coll ''event_scores'' ?r x \<longleftrightarrow> score_key coll x = score_key coll ?r"
      by (auto simp: r score_key_def same_key_def table_simps column_def)
  next
    fix x assume "x \<in> set (T ''event_scores'')" "score_key coll x = score_key coll ?r"
    with score_rows [OF ok this(1)]
    show "score_key coll (set_column ts now ''event_scores'' ''points'' (assigned AddValues (column ''points'' x) (column ''points'' ?r)) x) =
          score_key coll ?r \<and>
        int_of (column ''points'' (set_column ts now ''event_scores'' ''points'' (assigned AddValues (column ''points'' x) (column ''points'' ?r)) x)) =
          int_of (column ''points'' x) + d"
      by (auto simp: r score_key_def column_def set_column_def table_simps Let_def)
  qed
  then show ?thesis unfolding key score_map_def sql_points_def by (simp add: r column_def split: option.splits)
qed

lemma getEventScore_answer:
  assumes "sql_answers coll getEventScore [SqlString e, SqlString p] T out" and ok: "tables_ok coll T"
  shows "out = [] \<and> score_map coll T (coll e, coll p) = None \<or>
    (\<exists>e' p' n t. out = [[SqlString e', SqlString p', SqlInt n, SqlTime t]] \<and> score_map coll T (coll e, coll p) = Some n \<and> in_int64 n)"
proof -
  let ?tab = "''event_scores''" let ?k = "(coll e, coll p)"
  have out: "out = (case by_key (score_key coll) (\<lambda>x. x) (T ?tab) ?k of None \<Rightarrow> []
      | Some x \<Rightarrow> [map (\<lambda>c. column c x) [''event_id'', ''player_id'', ''points'', ''updated_at'']])"
  proof (rule select_by_key [OF assms(1) [unfolded getEventScore_def]])
    show "table_ok coll T ?tab" using tables_okD(1) [OF ok] by (simp add: schema_def)
    fix x assume x: "x \<in> set (T ?tab)"
    from score_rows [OF ok x]
    show "satisfies coll [(''event_id'', CmpEq), (''player_id'', CmpEq)] [SqlString e, SqlString p] x \<longleftrightarrow> score_key coll x = ?k"
      by (auto simp: satisfies_def score_key_def column_def)
    fix y assume y: "y \<in> set (T ?tab)"
    from score_rows [OF ok x] score_rows [OF ok y] show "score_key coll x = score_key coll y \<Longrightarrow> same_key coll ?tab x y"
      by (auto simp: same_key_def score_key_def table_simps column_def)
  qed
  have m: "score_map coll T ?k = map_option (\<lambda>r. int_of (column ''points'' r)) (by_key (score_key coll) (\<lambda>x. x) (T ?tab) ?k)"
    unfolding score_map_def by (rule by_key_map)
  show ?thesis
  proof (cases "by_key (score_key coll) (\<lambda>x. x) (T ?tab) ?k")
    case None
    then show ?thesis by (simp add: out m)
  next
    case (Some x)
    with score_rows [OF ok, of x] by_key_Some [OF Some] show ?thesis by (auto simp: out m column_def)
  qed
qed

section \<open>The repository\<close>

lemma scan_EventScore_safe: "scans_safely scan_EventScore"
  unfolding scans_safely_def
proof (intro allI impI)
  fix vs err assume "scan_EventScore vs = Inl err"
  then show "\<not> errors_Is err SqlErrNoRows"
    by (cases vs rule: scan_EventScore.cases)
      (auto simp: scan_error_safe scan_error_def bind_result_def split: sum.splits)
qed

lemma mysql_AddScore_cases:
  assumes laws: "sql_laws coll ts D view pend" and call: "mysql_AddScore D e p d s = (r, s')"
  shows "case r of
      Inl err \<Rightarrow> view s' = view s
    | Inr _ \<Rightarrow> score_map coll (view s') = (score_map coll (view s))((coll e, coll p) \<mapsto> sql_points coll (view s) e p + d)"
proof -
  obtain x s1 where ex: "dt_Exec (db_conn D) addEventScore [SqlString e, SqlString p, SqlInt d] s = (x, s1)" by (rule prod.exhaust)
  note law = sql_lawsD(3) [OF laws ex]
  have st: "s' = s1" "isl r = isl x"
    using call ex by (auto simp: mysql_AddScore_def gen_AddEventScore_def split: sum.splits)
  show ?thesis
  proof (cases x)
    case (Inl err)
    with law st show ?thesis by (cases r) (auto simp: exec_law_def)
  next
    case (Inr u)
    with law obtain now where "sql_effect coll ts now addEventScore [SqlString e, SqlString p, SqlInt d] (view s) = Done (view s1)"
      by (auto simp: exec_law_def)
    from addEventScore_effect [OF this sql_lawsD(1) [OF laws]] st Inr show ?thesis by (cases r) auto
  qed
qed

lemma mysql_GetScore_cases:
  assumes laws: "sql_laws coll ts D view pend" and call: "mysql_GetScore D e p s = (r, s')"
  shows "view s' = view s" "r = Inr sc \<Longrightarrow> sc_Points sc = sql_points coll (view s) e p"
proof -
  obtain rows s1 where q: "dt_Query (db_conn D) getEventScore [SqlString e, SqlString p] s = (rows, s1)" by (rule prod.exhaust)
  note ql = sql_lawsD(4) [OF laws q]
  note ok = sql_lawsD(1) [OF laws, of s]
  have s1: "s' = s1" using call q by (auto simp: mysql_GetScore_def gen_GetEventScore_def split: sum.splits if_splits)
  with ql show "view s' = view s" by simp
  assume r: "r = Inr sc"
  show "sc_Points sc = sql_points coll (view s) e p"
  proof (cases "row_Scan scan_EventScore rows")
    case (Inl err)
    with call q r have none: "errors_Is err SqlErrNoRows" "sc_Points sc = 0"
      by (auto simp: mysql_GetScore_def gen_GetEventScore_def split: if_splits)
    from getEventScore_answer [OF row_Scan_none [OF conjunct1 [OF ql] Inl none(1) scan_EventScore_safe] ok] none(2)
    show ?thesis by (auto simp: sql_points_def)
  next
    case (Inr row)
    with call q r have pts: "sc_Points sc = gt_Points row" by (auto simp: mysql_GetScore_def gen_GetEventScore_def)
    from row_Scan_law [OF conjunct1 [OF ql] Inr] obtain vs rest
      where a: "sql_answers coll getEventScore [SqlString e, SqlString p] (view s) (vs # rest)" "scan_EventScore vs = Inr row" by auto
    from getEventScore_answer [OF a(1) ok] a(2) pts show ?thesis
      by (auto simp: sql_points_def bind_result_def split: if_splits)
  qed
qed

lemma mysql_GetEvent_view:
  assumes laws: "sql_laws coll ts D view pend" and call: "mysql_GetEvent D e s = (r, s')"
  shows "view s' = view s"
proof -
  obtain rows s1 where q: "dt_Query (db_conn D) getEvent [SqlString e] s = (rows, s1)" by (rule prod.exhaust)
  with call have "s' = s1" by (auto simp: mysql_GetEvent_def gen_GetEvent_def split: sum.splits if_splits)
  with sql_lawsD(4) [OF laws q] show ?thesis by simp
qed

section \<open>The service\<close>

text \<open>The event service on MySQL, with any leaderboard.\<close>

abbreviation mysql_event_service ::
  "('s, 't) sql_db \<Rightarrow> (string \<Rightarrow> string \<Rightarrow> int \<Rightarrow> 's \<Rightarrow> int result \<times> 's) option \<Rightarrow> ('s, env) field \<Rightarrow> 's event_service" where
  "mysql_event_service D lb e \<equiv> NewEventService (mysql_event_repository D) lb e"

definition lb_apart :: "(string \<Rightarrow> string \<Rightarrow> int \<Rightarrow> 's \<Rightarrow> int result \<times> 's) option \<Rightarrow> ('s \<Rightarrow> tables) \<Rightarrow> bool" where
  "lb_apart lb view \<longleftrightarrow> (\<forall>incr ev p d s. lb = Some incr \<longrightarrow> view (snd (incr ev p d s)) = view s)"

text \<open>The calls that reached the table: the accepted ones, and those that failed when the points were read back.\<close>

fun reached :: "EventScore result \<Rightarrow> bool" where
  "reached (Inr sc) = True"
| "reached (Inl (Wrap op err)) = (op = ''repo.GetScore'')"
| "reached (Inl err) = False"

lemma mysql_score_call:
  assumes laws: "sql_laws coll ts D view pend" and apart: "apart f view" "lb_apart lb view"
    and call: "event_AddScore (mysql_event_service D lb f) e p d s = (r, s')"
  shows "if reached r
    then score_map coll (view s') = (score_map coll (view s))((coll e, coll p) \<mapsto> sql_points coll (view s) e p + d) \<and>
      0 < d \<and> d \<le> 1000000 \<and> (\<forall>sc. r = Inr sc \<longrightarrow> sc_Points sc = sql_points coll (view s) e p + d)
    else view s' = view s"
proof (cases "0 < d \<and> d \<le> maxScoreDelta")
  case False
  with call show ?thesis by (auto simp: event_AddScore_def)
next
  case d: True
  let ?svc = "mysql_event_service D lb f"
  obtain r1 s1 where g: "mysql_GetEvent D e s = (r1, s1)" by (rule prod.exhaust)
  obtain t s2 where n: "on_field f time_Now s1 = (t, s2)" by (rule prod.exhaust)
  obtain r3 s3 where a: "mysql_AddScore D e p d s2 = (r3, s3)" by (rule prod.exhaust)
  obtain r4 s4 where sc: "mysql_GetScore D e p s3 = (r4, s4)" by (rule prod.exhaust)
  have v: "view s1 = view s" "view s2 = view s1" "view s4 = view s3" "view (leaderboard_incr ?svc e p d s4) = view s4"
    using mysql_GetEvent_view [OF laws g] n apart mysql_GetScore_cases(1) [OF laws sc]
    by (auto simp: on_field_def apart_def lb_apart_def leaderboard_incr_def NewEventService_def split: prod.splits option.split)
  have call': "(r, s') = (case r1 of Inl err \<Rightarrow> (Inl (Wrap ''repo.GetEvent'' err), s1)
      | Inr ev \<Rightarrow> if StatusAt ev t \<noteq> StatusOngoing then (Inl (Sentinel ErrNotOngoing), s2)
          else case r3 of Inl err \<Rightarrow> (Inl (Wrap ''repo.AddScore'' err), s3)
            | Inr _ \<Rightarrow> (case r4 of Inl err \<Rightarrow> (Inl (Wrap ''repo.GetScore'' err), s4)
                | Inr x \<Rightarrow> (Inr x, leaderboard_incr ?svc e p d s4)))"
    using call d g n a sc
    by (auto simp: event_AddScore_def NewEventService_def mysql_event_repository_def split: sum.splits)
  note add = mysql_AddScore_cases [OF laws a]
  show ?thesis
  proof (cases "r1")
    case (Inl err)
    with call' v show ?thesis by simp
  next
    case ev: (Inr ev)
    show ?thesis
    proof (cases "ongoing_at ev t")
      case False
      with call' v ev show ?thesis by simp
    next
      case True
      show ?thesis
      proof (cases r3)
        case (Inl err)
        with call' v ev True add show ?thesis by simp
      next
        case (Inr u)
        then have m: "score_map coll (view s3) = (score_map coll (view s))((coll e, coll p) \<mapsto> sql_points coll (view s) e p + d)"
          using add v by simp
        then have "sql_points coll (view s3) e p = sql_points coll (view s) e p + d" by (simp add: sql_points_def)
        with call' v ev True Inr m d mysql_GetScore_cases(2) [OF laws sc] show ?thesis
          by (cases r4) (auto simp: maxScoreDelta_def)
      qed
    qed
  qed
qed

text \<open>A sequence of requests (event, player, delta), each to completion, with its answers.\<close>

fun score_calls ::
  "'s event_service \<Rightarrow> (string \<times> string \<times> int) list \<Rightarrow> 's \<Rightarrow> EventScore result list \<times> 's" where
  "score_calls svc [] s = ([], s)"
| "score_calls svc ((ev, p, d) # reqs) s =
     (let (r, s) = event_AddScore svc ev p d s; (rs, s) = score_calls svc reqs s in (r # rs, s))"

text \<open>The sum of the deltas of a player on an event, over the calls that reached the table.\<close>

definition gained :: "(string \<times> string \<times> int) list \<Rightarrow> EventScore result list \<Rightarrow> string \<Rightarrow> string \<Rightarrow> int" where
  "gained reqs rs e p =
     sum_list (map (\<lambda>((e', p', d), r). if (e', p') = (e, p) \<and> reached r then d else 0) (zip reqs rs))"

lemma gained_simps [simp]:
  "gained [] rs e p = 0" "gained reqs [] e p = 0"
  "gained ((e', p', d) # reqs) (r # rs) e p = (if (e', p') = (e, p) \<and> reached r then d else 0) + gained reqs rs e p"
  by (simp_all add: gained_def)

lemma score_calls_points:
  assumes laws: "sql_laws coll ts D view pend" and apart: "apart f view" "lb_apart lb view" and inj: "inj_on coll ids"
    and "score_calls (mysql_event_service D lb f) reqs s = (rs, s')" "\<forall>(e, p, d)\<in>set reqs. e \<in> ids \<and> p \<in> ids"
  shows "length rs = length reqs \<and>
    (\<forall>e\<in>ids. \<forall>p\<in>ids. sql_points coll (view s') e p = sql_points coll (view s) e p + gained reqs rs e p) \<and>
    (\<forall>i sc e p d. i < length reqs \<longrightarrow> reqs ! i = (e, p, d) \<longrightarrow> rs ! i = Inr sc \<longrightarrow>
       sc_Points sc = sql_points coll (view s) e p + gained (take (Suc i) reqs) (take (Suc i) rs) e p)"
  using assms(5,6)
proof (induction reqs arbitrary: s rs)
  case (Cons req reqs)
  obtain e p d where req: "req = (e, p, d)" by (metis surj_pair)
  obtain r s1 where one: "event_AddScore (mysql_event_service D lb f) e p d s = (r, s1)" by (rule prod.exhaust)
  obtain rs1 where rs: "score_calls (mysql_event_service D lb f) reqs s1 = (rs1, s')" "rs = r # rs1"
    using Cons.prems(1) one by (auto simp: req split: prod.splits)
  have ids: "e \<in> ids" "p \<in> ids" "\<forall>(e, p, d)\<in>set reqs. e \<in> ids \<and> p \<in> ids" using Cons.prems(2) by (auto simp: req)
  note IH = Cons.IH [OF rs(1) ids(3)]
  note call = mysql_score_call [OF laws apart one]
  have eq: "(coll e', coll p') = (coll e, coll p) \<longleftrightarrow> (e', p') = (e, p)" if "e' \<in> ids" "p' \<in> ids" for e' p'
    using that ids inj by (auto dest: inj_onD)
  have pts: "sql_points coll (view s1) e' p' = sql_points coll (view s) e' p' + (if (e, p) = (e', p') \<and> reached r then d else 0)"
    if "e' \<in> ids" "p' \<in> ids" for e' p'
    using call eq [OF that] by (auto simp: sql_points_def split: if_splits)
  have answers: "sc_Points sc = sql_points coll (view s) e' p' + gained (take (Suc i) (req # reqs)) (take (Suc i) rs) e' p'"
    if i: "i < length (req # reqs)" "(req # reqs) ! i = (e', p', d')" "rs ! i = Inr sc" for i sc e' p' d'
  proof (cases i)
    case 0
    with i call rs(2) show ?thesis by (auto simp: req split: if_splits)
  next
    case (Suc j)
    have mem: "(e', p', d') \<in> set reqs" using i Suc by (auto simp: in_set_conv_nth)
    with ids(3) have "e' \<in> ids" "p' \<in> ids" by auto
    with IH i Suc rs(2) pts show ?thesis by (auto simp: req)
  qed
  show ?case using IH pts answers rs(2) by (auto simp: req)
qed simp

section \<open>Properties\<close>


definition demo_event_tables :: tables where
  "demo_event_tables = (\<lambda>_. [])(''events'' := [[(''id'', SqlString ''ev''), (''name'', SqlString ''Event''),
     (''start_at'', SqlTime 0), (''end_at'', SqlTime 100), (''created_at'', SqlTime 0)]])"


end
