(* ===== verification/Mysql_Rewards.thy ===== *)
theory Mysql_Rewards
  imports Mysql_Event Frame
begin

text \<open>
  Events and their reward tiers on MySQL: what a created event and its tiers are read back as after any further
  requests, and which events are listed as current, on every database with the documented behaviour. An event and its tiers
  are inserted by separate statements, so the theorems speak of calls that succeeded.
\<close>

section \<open>The tables\<close>

lemma event_rows:
  assumes "tables_ok coll T" "r \<in> set (T ''events'')"
  shows "\<exists>i n a b c. r = [(''id'', SqlString i), (''name'', SqlString n), (''start_at'', SqlTime a), (''end_at'', SqlTime b),
     (''created_at'', SqlTime c)]"
  using tables_okD(2) [OF assms(1) _ assms(2)]
  by (auto simp: schema_def row_ok_def table_simps list_all2_Cons1 fits_cases)

lemma reward_rows:
  assumes "tables_ok coll T" "r \<in> set (T ''event_rewards'')"
  shows "\<exists>i n m w. in_int32 n \<and> in_int64 m \<and>
     r = [(''event_id'', SqlString i), (''tier'', SqlInt n), (''min_points'', SqlInt m), (''reward_name'', SqlString w)]"
  using tables_okD(2) [OF assms(1) _ assms(2)]
  by (auto simp: schema_def row_ok_def table_simps list_all2_Cons1 fits_cases)

definition event_of_sql :: "sql_row \<Rightarrow> Event" where
  "event_of_sql r = \<lparr>ev_ID = str_of (column ''id'' r), ev_Name = str_of (column ''name'' r), ev_StartAt = int_of (column ''start_at'' r),
     ev_EndAt = int_of (column ''end_at'' r), ev_CreatedAt = int_of (column ''created_at'' r)\<rparr>"

definition event_key :: "(string \<Rightarrow> string) \<Rightarrow> sql_row \<Rightarrow> string" where
  "event_key coll r = coll (str_of (column ''id'' r))"

definition sql_event :: "(string \<Rightarrow> string) \<Rightarrow> tables \<Rightarrow> string \<Rightarrow> Event option" where
  "sql_event coll T k = by_key (event_key coll) event_of_sql (T ''events'') (coll k)"

definition tier_of_sql :: "sql_row \<Rightarrow> RewardTier" where
  "tier_of_sql r = \<lparr>rt_EventID = str_of (column ''event_id'' r), rt_Tier = int_of (column ''tier'' r),
     rt_MinPoints = int_of (column ''min_points'' r), rt_RewardName = str_of (column ''reward_name'' r)\<rparr>"

definition sql_tiers :: "(string \<Rightarrow> string) \<Rightarrow> tables \<Rightarrow> string \<Rightarrow> RewardTier list" where
  "sql_tiers coll T k = map tier_of_sql (filter (\<lambda>r. coll (str_of (column ''event_id'' r)) = coll k) (T ''event_rewards''))"

lemma sql_tiers_coll: "coll j = coll k \<Longrightarrow> sql_tiers coll T j = sql_tiers coll T k"
  by (simp add: sql_tiers_def)

lemma sql_event_coll: "coll j = coll k \<Longrightarrow> sql_event coll T j = sql_event coll T k"
  by (simp add: sql_event_def)

section \<open>The statements\<close>

text \<open>A statement leaves the other tables alone.\<close>

fun stmt_table :: "sql_stmt \<Rightarrow> string" where
  "stmt_table (Select cols tab conds ord lim) = tab"
| "stmt_table (Insert tab cols) = tab"
| "stmt_table (InsertOnDuplicate tab cols c how) = tab"
| "stmt_table (UpdateWhere tab c k) = tab"

lemma effect_other_table: "sql_effect coll ts now st args T = Done T' \<Longrightarrow> tab \<noteq> stmt_table st \<Longrightarrow> T' tab = T tab"
  by (cases st) (auto simp: Let_def replaced_Done split: if_splits)

lemma exec_other_table:
  "exec_law coll ts st args T r T' \<Longrightarrow> tab \<noteq> stmt_table st \<Longrightarrow> T' tab = T tab"
  by (auto simp: exec_law_def dest: effect_other_table split: sum.splits)

lemma createEvent_effect:
  assumes eff: "sql_effect coll ts now createEvent [SqlString k, SqlString n, SqlTime a, SqlTime b] T = Done T'" and ok: "tables_ok coll T"
  shows "sql_event coll T k = None" "sql_event coll T' j = (if coll j = coll k
    then Some \<lparr>ev_ID = k, ev_Name = n, ev_StartAt = ts a, ev_EndAt = ts b, ev_CreatedAt = ts now\<rparr> else sql_event coll T j)"
proof -
  define r where "r = new_row ts now ''events'' [''id'', ''name'', ''start_at'', ''end_at''] [SqlString k, SqlString n, SqlTime a, SqlTime b]"
  have r: "event_key coll r = coll k"
    "event_of_sql r = \<lparr>ev_ID = k, ev_Name = n, ev_StartAt = ts a, ev_EndAt = ts b, ev_CreatedAt = ts now\<rparr>"
    by (simp_all add: r_def new_row_def table_simps event_key_def event_of_sql_def column_def)
  have key: "same_key coll ''events'' r x \<longleftrightarrow> event_key coll x = event_key coll r" if "x \<in> set (T ''events'')" for x
    using event_rows [OF ok that] by (auto simp: r_def new_row_def event_key_def same_key_def table_simps column_def)
  note eff' = eff [unfolded createEvent_def]
  show "sql_event coll T k = None" using insert_effect(3) [OF eff' r_def key, of event_of_sql] by (simp add: sql_event_def r)
  show "sql_event coll T' j = (if coll j = coll k
    then Some \<lparr>ev_ID = k, ev_Name = n, ev_StartAt = ts a, ev_EndAt = ts b, ev_CreatedAt = ts now\<rparr> else sql_event coll T j)"
    using insert_effect(2) [OF eff' r_def key, of event_of_sql] by (simp add: sql_event_def r)
qed

lemma insertRewardTier_effect:
  assumes "sql_effect coll ts now insertRewardTier [SqlString k, SqlInt n, SqlInt m, SqlString w] T = Done T'"
  shows "sql_tiers coll T' j = (if coll j = coll k
    then sql_tiers coll T j @ [\<lparr>rt_EventID = k, rt_Tier = n, rt_MinPoints = m, rt_RewardName = w\<rparr>] else sql_tiers coll T j)"
proof -
  let ?r = "new_row ts now ''event_rewards'' [''event_id'', ''tier'', ''min_points'', ''reward_name''] [SqlString k, SqlInt n, SqlInt m, SqlString w]"
  have "T' = T(''event_rewards'' := T ''event_rewards'' @ [?r])"
    using assms by (auto simp: insertRewardTier_def Let_def replaced_Done split: if_splits)
  moreover have "?r = [(''event_id'', SqlString k), (''tier'', SqlInt n), (''min_points'', SqlInt m), (''reward_name'', SqlString w)]"
    by (simp add: new_row_def table_simps)
  ultimately show ?thesis by (auto simp: sql_tiers_def tier_of_sql_def column_def)
qed

section \<open>Reading\<close>

lemma scan_Event_safe: "scans_safely scan_Event"
  unfolding scans_safely_def
proof (intro allI impI)
  fix vs err assume "scan_Event vs = Inl err"
  then show "\<not> errors_Is err SqlErrNoRows"
    by (cases vs rule: scan_Event.cases)
      (auto simp: scan_error_safe scan_error_def bind_result_def split: sum.splits)
qed

lemma getEvent_answer:
  assumes "sql_answers coll getEvent [SqlString k] T out" and ok: "tables_ok coll T"
  shows "out = (case sql_event coll T k of None \<Rightarrow> []
    | Some e \<Rightarrow> [[SqlString (ev_ID e), SqlString (ev_Name e), SqlTime (ev_StartAt e), SqlTime (ev_EndAt e), SqlTime (ev_CreatedAt e)]])"
proof -
  let ?tab = "''events''"
  have out: "out = (case by_key (event_key coll) (\<lambda>x. x) (T ?tab) (coll k) of None \<Rightarrow> []
      | Some x \<Rightarrow> [map (\<lambda>c. column c x) [''id'', ''name'', ''start_at'', ''end_at'', ''created_at'']])"
  proof (rule select_by_key [OF assms(1) [unfolded getEvent_def]])
    show "table_ok coll T ?tab" using tables_okD(1) [OF ok] by (simp add: schema_def)
    fix x assume x: "x \<in> set (T ?tab)"
    from event_rows [OF ok x] show "satisfies coll [(''id'', CmpEq)] [SqlString k] x \<longleftrightarrow> event_key coll x = coll k"
      by (auto simp: satisfies_def event_key_def column_def)
    fix y assume y: "y \<in> set (T ?tab)"
    from event_rows [OF ok x] event_rows [OF ok y] show "event_key coll x = event_key coll y \<Longrightarrow> same_key coll ?tab x y"
      by (auto simp: same_key_def event_key_def table_simps column_def)
  qed
  have m: "sql_event coll T k = map_option event_of_sql (by_key (event_key coll) (\<lambda>x. x) (T ?tab) (coll k))"
    unfolding sql_event_def by (rule by_key_map)
  show ?thesis
  proof (cases "by_key (event_key coll) (\<lambda>x. x) (T ?tab) (coll k)")
    case None
    then show ?thesis by (simp add: out m)
  next
    case (Some x)
    with event_rows [OF ok, of x] by_key_Some [OF Some] show ?thesis by (auto simp: out m column_def event_of_sql_def)
  qed
qed

lemma mysql_GetEvent_cases:
  assumes laws: "sql_laws coll ts D view pend" and call: "mysql_GetEvent D k s = (r, s')"
  shows "r = Inr e \<Longrightarrow> sql_event coll (view s) k = Some e"
    "r = Inl (Sentinel ErrEventNotFound) \<Longrightarrow> sql_event coll (view s) k = None"
proof -
  obtain rows s1 where q: "dt_Query (db_conn D) getEvent [SqlString k] s = (rows, s1)" by (rule prod.exhaust)
  note ql = sql_lawsD(4) [OF laws q]
  note ok = sql_lawsD(1) [OF laws, of s]
  note defs = mysql_GetEvent_def gen_GetEvent_def event_of_row_def
  have "(r = Inr e \<longrightarrow> sql_event coll (view s) k = Some e) \<and> (r = Inl (Sentinel ErrEventNotFound) \<longrightarrow> sql_event coll (view s) k = None)"
  proof (cases "row_Scan scan_Event rows")
    case (Inl err)
    show ?thesis
    proof (cases "errors_Is err SqlErrNoRows")
      case True
      from getEvent_answer [OF row_Scan_none [OF conjunct1 [OF ql] Inl True scan_Event_safe] ok]
      have "sql_event coll (view s) k = None" by (simp split: option.splits)
      with call q Inl True show ?thesis by (auto simp: defs)
    next
      case False
      with call q Inl show ?thesis by (auto simp: defs)
    qed
  next
    case (Inr row)
    from row_Scan_law [OF conjunct1 [OF ql] Inr] obtain vs rest
      where a: "sql_answers coll getEvent [SqlString k] (view s) (vs # rest)" "scan_Event vs = Inr row" by auto
    from getEvent_answer [OF a(1) ok] a(2) call q Inr show ?thesis
      by (auto simp: defs bind_result_def split: option.splits)
  qed
  then show "r = Inr e \<Longrightarrow> sql_event coll (view s) k = Some e"
    "r = Inl (Sentinel ErrEventNotFound) \<Longrightarrow> sql_event coll (view s) k = None" by blast+
qed

lemma query_view:
  assumes "sql_laws coll ts D view pend" "dt_Query (db_conn D) st args s = (r, s')"
  shows "view s' = view s"
  using sql_lawsD(4) [OF assms] by simp

lemma mysql_event_reads_view:
  assumes laws: "sql_laws coll ts D view pend"
  shows "keeps view (mysql_GetEvent D k)" "keeps view (mysql_ListCurrentEvents D t)" "keeps view (mysql_GetScore D ev p)"
    "keeps view (mysql_ListRewardTiers D ev)"
  by (rule keepsI, auto simp: mysql_GetEvent_def gen_GetEvent_def mysql_ListCurrentEvents_def gen_ListCurrentEvents_def mysql_GetScore_def
      gen_GetEventScore_def mysql_ListRewardTiers_def gen_ListRewardTiers_def dest!: query_view [OF laws]
      split: sum.splits if_splits prod.splits)+

lemma distinct_by_key:
  "sorted_wrt (\<lambda>x y. \<not> R x y) xs \<Longrightarrow> (\<And>x y. x \<in> set xs \<Longrightarrow> y \<in> set xs \<Longrightarrow> f x = f y \<Longrightarrow> R x y) \<Longrightarrow> distinct (map f xs)"
proof (induction xs)
  case (Cons x xs)
  have "f x \<noteq> f y" if "y \<in> set xs" for y using Cons.prems(1) Cons.prems(2) [of x y] that by auto
  with Cons show ?case by auto
qed simp

lemma sorted_distinct_strict:
  fixes f :: "'a \<Rightarrow> int"
  shows "sorted_wrt (\<lambda>x y. f x \<le> f y) xs \<Longrightarrow> distinct (map f xs) \<Longrightarrow> sorted_wrt (\<lambda>x y. f x < f y) xs"
  by (induction xs) (auto simp: less_le)

lemma value_le_int: "value_le v w \<Longrightarrow> int_of v \<le> int_of w"
  by (cases v; cases w) auto

lemma ordered_by_int: "ordered_by (Some (c, False)) rs \<Longrightarrow> sorted_wrt (\<lambda>x y. int_of (column c x) \<le> int_of (column c y)) rs"
  by (auto simp: ordered_by_def intro: sorted_wrt_mono_rel [of rs, rotated] value_le_int)

text \<open>The tiers of an event are delivered in strictly ascending order: the number is part of the key.\<close>

lemma reward_numbers:
  assumes "tables_ok coll T" "rs = filter (\<lambda>r. coll (str_of (column ''event_id'' r)) = coll k) (T ''event_rewards'')"
  shows "distinct (map (\<lambda>r. int_of (column ''tier'' r)) rs)"
proof -
  have "sorted_wrt (\<lambda>x y. \<not> same_key coll ''event_rewards'' x y) rs"
    using tables_okD(1) [OF assms(1), of "''event_rewards''"] unfolding assms(2)
    by (auto simp: table_ok_def schema_def sorted_wrt_filter)
  moreover have "same_key coll ''event_rewards'' x y"
    if "x \<in> set rs" "y \<in> set rs" "int_of (column ''tier'' x) = int_of (column ''tier'' y)" for x y
  proof -
    have mem: "x \<in> set (T ''event_rewards'')" "y \<in> set (T ''event_rewards'')" using that(1,2) by (auto simp: assms(2))
    from reward_rows [OF assms(1) mem(1)] reward_rows [OF assms(1) mem(2)] that show ?thesis
      by (auto simp: assms(2) same_key_def table_simps column_def)
  qed
  ultimately show ?thesis by (rule distinct_by_key)
qed

lemma scan_EventReward_row:
  assumes "tables_ok coll T" "r \<in> set (T ''event_rewards'')"
    "scan_EventReward (map (\<lambda>c. column c r) [''event_id'', ''tier'', ''min_points'', ''reward_name'']) = Inr row"
  shows "\<lparr>rt_EventID = gw_EventID row, rt_Tier = gw_Tier row, rt_MinPoints = gw_MinPoints row, rt_RewardName = gw_RewardName row\<rparr> =
    tier_of_sql r"
  using reward_rows [OF assms(1,2)] assms(3) by (auto simp: tier_of_sql_def column_def)

lemma scan_Event_row:
  assumes "tables_ok coll T" "r \<in> set (T ''events'')"
    "scan_Event (map (\<lambda>c. column c r) [''id'', ''name'', ''start_at'', ''end_at'', ''created_at'']) = Inr row"
  shows "event_of_row row = event_of_sql r"
  using event_rows [OF assms(1,2)] assms(3) by (auto simp: event_of_sql_def event_of_row_def column_def)

text \<open>A list that a query delivers, converted row by row.\<close>

lemma select_rows:
  assumes "query_law coll (Select cols tab conds ord False) args T q" "rows_Items sc q = Inr items"
    and conv: "\<And>r i. r \<in> set (T tab) \<Longrightarrow> sc (map (\<lambda>c. column c r) cols) = Inr i \<Longrightarrow> g i = V r"
  shows "\<exists>rs. mset rs = mset (filter (satisfies coll conds args) (T tab)) \<and> ordered_by ord rs \<and> map g items = map V rs"
proof -
  obtain rs where rs: "mset rs = mset (filter (satisfies coll conds args) (T tab))" "ordered_by ord rs"
      "list_all2 (\<lambda>vs i. sc vs = Inr i) (map (\<lambda>r. map (\<lambda>c. column c r) cols) rs) items"
    using rows_Items_law [OF assms(1,2)] by auto
  have "set rs \<subseteq> set (T tab)" using rs(1) by (metis filter_is_subset mset_eq_setD)
  with rs(3) have "map g items = map V rs"
    by (induction rs arbitrary: items) (auto simp: list_all2_Cons1 conv)
  with rs(1,2) show ?thesis by blast
qed

lemma mysql_ListRewardTiers_cases:
  assumes laws: "sql_laws coll ts D view pend" and call: "mysql_ListRewardTiers D k s = (Inr tiers, s')"
  shows "mset tiers = mset (sql_tiers coll (view s) k) \<and> sorted_wrt (\<lambda>a b. rt_Tier a < rt_Tier b) tiers"
proof -
  let ?T = "view s"
  obtain q s1 where q: "dt_Query (db_conn D) listRewardTiers [SqlString k] s = (q, s1)" by (rule prod.exhaust)
  note ok = sql_lawsD(1) [OF laws, of s]
  let ?g = "\<lambda>row. \<lparr>rt_EventID = gw_EventID row, rt_Tier = gw_Tier row, rt_MinPoints = gw_MinPoints row, rt_RewardName = gw_RewardName row\<rparr>"
  obtain items where items: "rows_Items scan_EventReward q = Inr items" "tiers = map ?g items"
    using call q by (auto simp: mysql_ListRewardTiers_def gen_ListRewardTiers_def split: sum.splits)
  let ?f = "\<lambda>r. coll (str_of (column ''event_id'' r)) = coll k"
  have sat: "filter (satisfies coll [(''event_id'', CmpEq)] [SqlString k]) (?T ''event_rewards'') = filter ?f (?T ''event_rewards'')"
    by (rule filter_cong) (auto simp: satisfies_def column_def dest!: reward_rows [OF ok])
  obtain rs where rs: "mset rs = mset (filter ?f (?T ''event_rewards''))" "ordered_by (Some (''tier'', False)) rs"
      "tiers = map tier_of_sql rs"
    using select_rows [OF conjunct1 [OF sql_lawsD(4) [OF laws q, unfolded listRewardTiers_def]] items(1),
        of ?g tier_of_sql, OF scan_EventReward_row [OF ok]] items(2) by (auto simp: sat)
  have "distinct (map (\<lambda>r. int_of (column ''tier'' r)) rs)"
    using reward_numbers [OF ok refl, of k]
    by (rule mset_eq_imp_distinct_iff [THEN iffD2, rotated]) (simp only: mset_map rs(1))
  with ordered_by_int [OF rs(2)] have "sorted_wrt (\<lambda>x y. int_of (column ''tier'' x) < int_of (column ''tier'' y)) rs"
    by (rule sorted_distinct_strict)
  with rs show ?thesis by (simp add: sql_tiers_def sorted_wrt_map tier_of_sql_def)
qed

lemma mysql_ListCurrentEvents_cases:
  assumes laws: "sql_laws coll ts D view pend" and call: "mysql_ListCurrentEvents D t s = (Inr es, s')"
  shows "mset es = mset (filter (\<lambda>e. ongoing_at e t) (map event_of_sql (view s ''events''))) \<and> sorted_wrt (\<lambda>a b. ev_EndAt a \<le> ev_EndAt b) es"
proof -
  let ?T = "view s"
  obtain q s1 where q: "dt_Query (db_conn D) listCurrentEvents [SqlTime t, SqlTime t] s = (q, s1)" by (rule prod.exhaust)
  note ok = sql_lawsD(1) [OF laws, of s]
  obtain items where items: "rows_Items scan_Event q = Inr items" "es = map event_of_row items"
    using call q by (auto simp: mysql_ListCurrentEvents_def gen_ListCurrentEvents_def split: sum.splits)
  have sat: "filter (satisfies coll [(''start_at'', CmpLe), (''end_at'', CmpGe)] [SqlTime t, SqlTime t]) (?T ''events'') =
      filter (\<lambda>r. ongoing_at (event_of_sql r) t) (?T ''events'')"
    by (rule filter_cong) (auto simp: satisfies_def column_def ongoing_at_def event_of_sql_def dest!: event_rows [OF ok])
  obtain rs where rs: "mset rs = mset (filter (\<lambda>r. ongoing_at (event_of_sql r) t) (?T ''events''))" "ordered_by (Some (''end_at'', False)) rs"
      "es = map event_of_sql rs"
    using select_rows [OF conjunct1 [OF sql_lawsD(4) [OF laws q, unfolded listCurrentEvents_def]] items(1),
        of event_of_row event_of_sql, OF scan_Event_row [OF ok]] items(2) by (auto simp: sat)
  from ordered_by_int [OF rs(2)] have "sorted_wrt (\<lambda>x y. ev_EndAt (event_of_sql x) \<le> ev_EndAt (event_of_sql y)) rs"
    by (simp add: event_of_sql_def)
  with rs show ?thesis by (simp add: sorted_wrt_map filter_map comp_def)
qed

section \<open>Writing\<close>

text \<open>A tier as it is stored: under the event, with the number cut to 32 bits.\<close>

definition stored_tier :: "string \<Rightarrow> RewardTier \<Rightarrow> RewardTier" where
  "stored_tier k t = t\<lparr>rt_EventID := k, rt_Tier := int32 (rt_Tier t)\<rparr>"

lemma insert_tiers_cases:
  assumes laws: "sql_laws coll ts D view pend"
    and "insert_tiers (mysql_event_repository D) k tiers s = (r, s')"
  shows "view s' ''events'' = view s ''events'' \<and> (coll j \<noteq> coll k \<longrightarrow> sql_tiers coll (view s') j = sql_tiers coll (view s) j)
    \<and> (\<not> isl r \<longrightarrow> sql_tiers coll (view s') k = sql_tiers coll (view s) k @ map (stored_tier k) tiers)"
  using assms(2)
proof (induction tiers arbitrary: s)
  case (Cons t tiers)
  obtain x s1 where ex: "dt_Exec (db_conn D) insertRewardTier
      [SqlString k, SqlInt (int32 (rt_Tier t)), SqlInt (rt_MinPoints t), SqlString (rt_RewardName t)] s = (x, s1)" by (rule prod.exhaust)
  note law = sql_lawsD(3) [OF laws ex]
  have ev: "view s1 ''events'' = view s ''events''"
    by (rule exec_other_table [OF law]) (simp add: insertRewardTier_def)
  note defs = mysql_event_repository_def mysql_InsertRewardTier_def gen_InsertRewardTier_def
  show ?case
  proof (cases x)
    case (Inl err)
    with Cons.prems ex law show ?thesis by (auto simp: defs exec_law_def)
  next
    case (Inr u)
    with law obtain now where eff: "sql_effect coll ts now insertRewardTier
        [SqlString k, SqlInt (int32 (rt_Tier t)), SqlInt (rt_MinPoints t), SqlString (rt_RewardName t)] (view s) = Done (view s1)"
      by (auto simp: exec_law_def)
    have rest: "insert_tiers (mysql_event_repository D) k tiers s1 = (r, s')" using Cons.prems ex Inr by (simp add: defs)
    have "\<lparr>rt_EventID = k, rt_Tier = int32 (rt_Tier t), rt_MinPoints = rt_MinPoints t, rt_RewardName = rt_RewardName t\<rparr> = stored_tier k t"
      by (simp add: stored_tier_def)
    with Cons.IH [OF rest] ev insertRewardTier_effect [OF eff, of j] insertRewardTier_effect [OF eff, of k] show ?thesis by simp
  qed
qed simp

lemma mysql_event_Create_cases:
  assumes laws: "sql_laws coll ts D view pend" and apart: "apart f view"
    and call: "event_Create (mysql_event_service D lb f) inp s = (r, s')"
  shows "r = Inr e \<Longrightarrow> (\<exists>c. sql_event coll (view s') (ci_ID inp) = Some \<lparr>ev_ID = ci_ID inp, ev_Name = ci_Name inp,
        ev_StartAt = ts (ci_StartAt inp), ev_EndAt = ts (ci_EndAt inp), ev_CreatedAt = c\<rparr>)
      \<and> sql_tiers coll (view s') (ci_ID inp) = sql_tiers coll (view s) (ci_ID inp) @ map (stored_tier (ci_ID inp)) (ci_Rewards inp)"
    and "sql_event coll (view s) j = Some e0 \<Longrightarrow>
      sql_event coll (view s') j = Some e0 \<and> sql_tiers coll (view s') j = sql_tiers coll (view s) j"
proof -
  let ?k = "ci_ID inp"
  obtain t s1 where now: "on_field f time_Now s = (t, s1)" by (rule prod.exhaust)
  have v: "view s1 = view s" using now apart by (auto simp: on_field_def apart_def split: prod.splits)
  obtain x s2 where ex: "dt_Exec (db_conn D) createEvent
      [SqlString ?k, SqlString (ci_Name inp), SqlTime (ci_StartAt inp), SqlTime (ci_EndAt inp)] s1 = (x, s2)" by (rule prod.exhaust)
  obtain y s3 where ins: "insert_tiers (mysql_event_repository D) ?k (ci_Rewards inp) s2 = (y, s3)" by (rule prod.exhaust)
  note law = sql_lawsD(3) [OF laws ex] and tiers = insert_tiers_cases [OF laws ins]
  have rw: "view s2 ''event_rewards'' = view s ''event_rewards''"
    using exec_other_table [OF law, of "''event_rewards''"] v by (simp add: createEvent_def)
  have call': "(\<not> ci_StartAt inp < ci_EndAt inp \<and> s' = s \<and> isl r) \<or> (isl x \<and> s' = s2 \<and> isl r) \<or> (\<not> isl x \<and> s' = s3 \<and> isl r = isl y)"
    using call now ex ins
    by (auto simp: event_Create_def NewEventService_def mysql_event_repository_def mysql_CreateEvent_def gen_CreateEvent_def Let_def
        split: if_splits sum.splits prod.splits)
  have created: "sql_event coll (view s) ?k = None \<and> (\<exists>c. \<forall>j. sql_event coll (view s3) j = (if coll j = coll ?k
      then Some \<lparr>ev_ID = ?k, ev_Name = ci_Name inp, ev_StartAt = ts (ci_StartAt inp), ev_EndAt = ts (ci_EndAt inp), ev_CreatedAt = c\<rparr>
      else sql_event coll (view s) j))" if nl: "\<not> isl x"
  proof -
    obtain now where eff: "sql_effect coll ts now createEvent
        [SqlString ?k, SqlString (ci_Name inp), SqlTime (ci_StartAt inp), SqlTime (ci_EndAt inp)] (view s1) = Done (view s2)"
      using law nl by (cases x) (auto simp: exec_law_def)
    have "sql_event coll (view s3) j = sql_event coll (view s2) j" for j using tiers by (simp add: sql_event_def)
    with createEvent_effect [OF eff sql_lawsD(1) [OF laws]] v show ?thesis by auto
  qed
  have old: "sql_tiers coll (view s2) j = sql_tiers coll (view s) j" for j using rw by (simp add: sql_tiers_def)
  show "(\<exists>c. sql_event coll (view s') ?k = Some \<lparr>ev_ID = ?k, ev_Name = ci_Name inp,
        ev_StartAt = ts (ci_StartAt inp), ev_EndAt = ts (ci_EndAt inp), ev_CreatedAt = c\<rparr>)
      \<and> sql_tiers coll (view s') ?k = sql_tiers coll (view s) ?k @ map (stored_tier ?k) (ci_Rewards inp)" if "r = Inr e"
    using call' that created tiers old by auto
  assume e0: "sql_event coll (view s) j = Some e0"
  from call' consider "s' = s" | "isl x" "s' = s2" | "\<not> isl x" "s' = s3" by blast
  then show "sql_event coll (view s') j = Some e0 \<and> sql_tiers coll (view s') j = sql_tiers coll (view s) j"
  proof cases
    case 2
    with law v have "view s2 = view s" by (cases x) (auto simp: exec_law_def)
    with 2 e0 show ?thesis by simp
  next
    case 3
    then have "coll j \<noteq> coll ?k" using created e0 sql_event_coll [of coll j ?k "view s"] by auto
    with 3 e0 created tiers [of j] old show ?thesis by auto
  qed (use e0 in simp)
qed

section \<open>Requests\<close>

text \<open>Scores touch neither table; the frame of the event service applies to the part of the database that they leave alone.\<close>

definition event_tables :: "('s \<Rightarrow> tables) \<Rightarrow> 's \<Rightarrow> sql_row list \<times> sql_row list" where
  "event_tables view s = (view s ''events'', view s ''event_rewards'')"

lemma keeps_event_tables: "keeps view op \<Longrightarrow> keeps (event_tables view) op"
  by (simp add: keeps_def event_tables_def)

lemma keeps_now: "apart f view \<Longrightarrow> keeps view (on_field f op)"
  by (rule keeps_on_other_field) (simp add: apart_def)

lemma mysql_AddScore_tables:
  assumes laws: "sql_laws coll ts D view pend"
  shows "keeps (event_tables view) (mysql_AddScore D ev p d)"
proof (rule keepsI)
  fix s r s' assume call: "mysql_AddScore D ev p d s = (r, s')"
  obtain x s1 where ex: "dt_Exec (db_conn D) addEventScore [SqlString ev, SqlString p, SqlInt d] s = (x, s1)" by (rule prod.exhaust)
  with call have "s' = s1" by (auto simp: mysql_AddScore_def gen_AddEventScore_def split: sum.splits)
  with exec_other_table [OF sql_lawsD(3) [OF laws ex]] show "event_tables view s' = event_tables view s"
    by (simp add: event_tables_def addEventScore_def)
qed

lemma mysql_event_scores:
  assumes laws: "sql_laws coll ts D view pend" and apart: "apart f view" "lb_apart lb view"
  shows "event_scores (mysql_event_service D lb f) (event_tables view) (on_field f time_Now)"
proof
  fix incrBy ev p d assume "es_leaderboard (mysql_event_service D lb f) = Some incrBy"
  then show "keeps (event_tables view) (incrBy ev p d)"
    using apart(2) by (simp add: NewEventService_def lb_apart_def keeps_def event_tables_def)
qed (auto simp: NewEventService_def mysql_event_repository_def mysql_AddScore_tables [OF laws]
    intro!: keeps_event_tables mysql_event_reads_view [OF laws] keeps_now [OF apart(1)])

datatype event_request = CreateReq CreateInput | ScoreReq string string int | CurrentReq | RewardsReq string string

fun do_request :: "'s event_service \<Rightarrow> event_request \<Rightarrow> 's \<Rightarrow> 's" where
  "do_request svc (CreateReq inp) s = snd (event_Create svc inp s)"
| "do_request svc (ScoreReq ev p d) s = snd (event_AddScore svc ev p d s)"
| "do_request svc CurrentReq s = snd (event_ListCurrent svc s)"
| "do_request svc (RewardsReq ev p) s = snd (event_GetRewards svc ev p s)"

lemma event_requests_keep:
  assumes laws: "sql_laws coll ts D view pend" and apart: "apart f view" "lb_apart lb view"
    and "sql_event coll (view s) k = Some e"
  shows "sql_event coll (view (fold (do_request (mysql_event_service D lb f)) qs s)) k = Some e
    \<and> sql_tiers coll (view (fold (do_request (mysql_event_service D lb f)) qs s)) k = sql_tiers coll (view s) k"
  using assms(4)
proof (induction qs arbitrary: s)
  case (Cons q qs)
  let ?svc = "mysql_event_service D lb f"
  note sc = mysql_event_scores [OF laws apart]
  note rd = event_scores.axioms(1) [OF sc]
  have same: "sql_event coll (view s') k = sql_event coll (view s) k \<and> sql_tiers coll (view s') k = sql_tiers coll (view s) k"
    if "event_tables view s' = event_tables view s" for s'
    using that by (simp add: event_tables_def sql_event_def sql_tiers_def)
  have step: "sql_event coll (view (do_request ?svc q s)) k = Some e \<and> sql_tiers coll (view (do_request ?svc q s)) k = sql_tiers coll (view s) k"
  proof (cases q)
    case (CreateReq inp)
    with mysql_event_Create_cases(2) [OF laws apart(1) surjective_pairing Cons.prems] show ?thesis by simp
  next
    case (ScoreReq ev p d)
    then show ?thesis
      using same [OF event_scores.keeps_event_AddScore [OF sc, unfolded keeps_def, rule_format], of ev p d] Cons.prems by simp
  next
    case CurrentReq
    then show ?thesis
      using same [OF event_reads.keeps_event_ListCurrent [OF rd, unfolded keeps_def, rule_format]] Cons.prems by simp
  next
    case (RewardsReq ev p)
    then show ?thesis
      using same [OF event_reads.keeps_event_GetRewards [OF rd, unfolded keeps_def, rule_format], of ev p] Cons.prems by simp
  qed
  with Cons.IH [of "do_request ?svc q s"] show ?case by simp
qed simp

section \<open>Properties\<close>

text \<open>
  C13: events and rewards on MySQL. On every database with the documented behaviour, whatever statements fail, with any
  leaderboard: once an event was created, after any further requests of all players, it is never reported missing; it is
  read back with its name and its window as the columns keep it; its reward tiers are exactly the created ones (with
  the number cut to 32 bits), delivered in strictly ascending order; and no request that fails or creates another
  event disturbs them.
\<close>

theorem mysql_event_lifecycle:
  assumes "sql_laws coll ts D view pend" "apart f view" "lb_apart lb view" "sql_tiers coll (view s) (ci_ID inp) = []"
    and "event_Create (mysql_event_service D lb f) inp s = (Inr e, s1)"
    and "s2 = fold (do_request (mysql_event_service D lb f)) qs s1"
    and "mysql_GetEvent D (ci_ID inp) s2 = (r, s3)" "mysql_ListRewardTiers D (ci_ID inp) s2 = (r', s4)"
  shows "r \<noteq> Inl (Sentinel ErrEventNotFound)
    \<and> (\<forall>ev. r = Inr ev \<longrightarrow> ev_ID ev = ci_ID inp \<and> ev_Name ev = ci_Name inp
         \<and> ev_StartAt ev = ts (ci_StartAt inp) \<and> ev_EndAt ev = ts (ci_EndAt inp))
    \<and> (\<forall>tiers. r' = Inr tiers \<longrightarrow> mset tiers = mset (map (stored_tier (ci_ID inp)) (ci_Rewards inp))
         \<and> sorted_wrt (\<lambda>a b. rt_Tier a < rt_Tier b) tiers)"
proof -
  note created = mysql_event_Create_cases(1) [OF assms(1,2,5) refl]
  then obtain c where c: "sql_event coll (view s1) (ci_ID inp) = Some \<lparr>ev_ID = ci_ID inp, ev_Name = ci_Name inp,
      ev_StartAt = ts (ci_StartAt inp), ev_EndAt = ts (ci_EndAt inp), ev_CreatedAt = c\<rparr>" by blast
  note kept = event_requests_keep [OF assms(1-3) c, of qs, folded assms(6)]
  from mysql_GetEvent_cases [OF assms(1,7)] kept created assms(4)
    mysql_ListRewardTiers_cases [OF assms(1), of "ci_ID inp" s2 _ s4] assms(8) show ?thesis by auto
qed

lemma accepted_pair: "\<not> isl (fst c) \<Longrightarrow> c = (Inr (projr (fst c)), snd c)"
  by (cases c) simp

definition demo_input :: CreateInput where
  "demo_input = \<lparr>ci_ID = ''ev'', ci_Name = ''Event'', ci_StartAt = 0, ci_EndAt = 5000000000,
     ci_Rewards = [\<lparr>rt_EventID = '''', rt_Tier = 2, rt_MinPoints = 50, rt_RewardName = ''b''\<rparr>,
       \<lparr>rt_EventID = '''', rt_Tier = 1, rt_MinPoints = 10, rt_RewardName = ''a''\<rparr>]\<rparr>"

lemma demo_input_simps: "ci_ID demo_input = ''ev''" "length (ci_Rewards demo_input) = 2"
  by (simp_all add: demo_input_def)

theorem mysql_event_lifecycle_witness:
  "let svc = mysql_event_service (ref_db id whole_seconds) None ref_env_field;
       s1 = snd (event_Create svc demo_input (\<lambda>_. [], \<lambda>_. [], ref_env));
       s2 = fold (do_request svc) [ScoreReq ''ev'' ''p'' 7, CreateReq demo_input, CurrentReq] s1
   in \<not> isl (fst (event_Create svc demo_input (\<lambda>_. [], \<lambda>_. [], ref_env)))
      \<and> (\<forall>tiers. fst (mysql_ListRewardTiers (ref_db id whole_seconds) ''ev'' s2) = Inr tiers \<longrightarrow>
           sorted_wrt (\<lambda>a b. rt_Tier a < rt_Tier b) tiers \<and> length tiers = 2)"
proof -
  let ?svc = "mysql_event_service (ref_db id whole_seconds) None ref_env_field"
  let ?s = "(\<lambda>_. [], \<lambda>_. [], ref_env) :: tables \<times> tables \<times> env"
  let ?qs = "[ScoreReq ''ev'' ''p'' 7, CreateReq demo_input, CurrentReq]"
  let ?s2 = "fold (do_request ?svc) ?qs (snd (event_Create ?svc demo_input ?s))"
  have apart: "apart ref_env_field (ref_view id)" "lb_apart None (ref_view id :: tables \<times> tables \<times> env \<Rightarrow> tables)"
    by (auto simp: apart_def lb_apart_def ref_env_field_def ref_view_def)
  have ok: "\<not> isl (fst (event_Create ?svc demo_input ?s))" by code_simp
  have none: "sql_tiers id (ref_view id ?s) (ci_ID demo_input) = []" by (simp add: sql_tiers_def ref_view_def clean_def)
  note life = mysql_event_lifecycle [OF ref_db_laws [of id whole_seconds] apart none accepted_pair [OF ok] refl
      surjective_pairing surjective_pairing, of ?qs, unfolded demo_input_simps(1)]
  have "sorted_wrt (\<lambda>a b. rt_Tier a < rt_Tier b) tiers \<and> length tiers = 2"
    if "fst (mysql_ListRewardTiers (ref_db id whole_seconds) ''ev'' ?s2) = Inr tiers" for tiers
  proof -
    have "mset tiers = mset (map (stored_tier ''ev'') (ci_Rewards demo_input)) \<and> sorted_wrt (\<lambda>a b. rt_Tier a < rt_Tier b) tiers"
      using life that by blast
    with demo_input_simps(2) show ?thesis by (metis length_map mset_eq_length)
  qed
  with ok show ?thesis by (simp only: Let_def) simp
qed

text \<open>
  The events listed as current are exactly the stored ones whose window holds the time of the request, the one that ends first
  in front.
\<close>

theorem mysql_ListCurrent_is_ongoing:
  assumes laws: "sql_laws coll ts D view pend" and "apart f view" "event_ListCurrent (mysql_event_service D lb f) s = (Inr es, s')"
  shows "\<exists>t. mset es = mset (filter (\<lambda>e. StatusAt e t = StatusOngoing) (map event_of_sql (view s ''events'')))
    \<and> sorted_wrt (\<lambda>a b. ev_EndAt a \<le> ev_EndAt b) es"
proof -
  obtain t s1 where now: "on_field f time_Now s = (t, s1)" by (rule prod.exhaust)
  have v: "view s1 = view s" using keepsD [OF keeps_now [OF assms(2)] now] .
  obtain s2 where "mysql_ListCurrentEvents D t s1 = (Inr es, s2)"
    using assms(3) now by (auto simp: event_ListCurrent_def NewEventService_def mysql_event_repository_def split: prod.splits)
  from mysql_ListCurrentEvents_cases [OF laws this] v show ?thesis by auto
qed

end
