(* ===== verification/Mysql_Profile.thy ===== *)
theory Mysql_Profile
  imports Mysql_Gacha
begin

text \<open>
  Profiles on MySQL: what a created profile is read back as, and that the primary key keeps it the only one, on every
  database with the documented behaviour.
\<close>

section \<open>The table of profiles\<close>

lemma profile_rows:
  assumes "tables_ok coll T" "r \<in> set (T ''profiles'')"
  shows "\<exists>i n t. r = [(''id'', SqlString i), (''name'', SqlString n), (''created_at'', SqlTime t)]"
  using tables_okD(2) [OF assms(1) _ assms(2)]
  by (auto simp: schema_def row_ok_def table_simps list_all2_Cons1 fits_cases)

definition profile_of_row :: "sql_row \<Rightarrow> Profile" where
  "profile_of_row r = \<lparr>pf_ID = str_of (column ''id'' r), pf_Name = str_of (column ''name'' r), pf_CreatedAt = int_of (column ''created_at'' r)\<rparr>"

definition profile_key :: "(string \<Rightarrow> string) \<Rightarrow> sql_row \<Rightarrow> string" where
  "profile_key coll r = coll (str_of (column ''id'' r))"

definition sql_profile :: "(string \<Rightarrow> string) \<Rightarrow> tables \<Rightarrow> string \<Rightarrow> Profile option" where
  "sql_profile coll T k = by_key (profile_key coll) profile_of_row (T ''profiles'') (coll k)"

lemma createProfile_same_key:
  assumes "tables_ok coll T" "x \<in> set (T ''profiles'')"
    and "r = new_row ts now ''profiles'' [''id'', ''name'', ''created_at''] [SqlString k, SqlString n, SqlTime t]"
  shows "same_key coll ''profiles'' r x \<longleftrightarrow> profile_key coll x = profile_key coll r"
  using profile_rows [OF assms(1,2)] by (auto simp: assms(3) new_row_def profile_key_def same_key_def table_simps column_def)

lemma createProfile_effect:
  assumes eff: "sql_effect coll ts now createProfile [SqlString k, SqlString n, SqlTime t] T = Done T'" and ok: "tables_ok coll T"
  shows "sql_profile coll T k = None"
    "sql_profile coll T' j = (if coll j = coll k then Some \<lparr>pf_ID = k, pf_Name = n, pf_CreatedAt = ts t\<rparr> else sql_profile coll T j)"
proof -
  define r where "r = new_row ts now ''profiles'' [''id'', ''name'', ''created_at''] [SqlString k, SqlString n, SqlTime t]"
  have r: "profile_key coll r = coll k" "profile_of_row r = \<lparr>pf_ID = k, pf_Name = n, pf_CreatedAt = ts t\<rparr>"
    by (simp_all add: r_def new_row_def table_simps profile_key_def profile_of_row_def column_def)
  note eff' = eff [unfolded createProfile_def] and key = createProfile_same_key [OF ok _ r_def]
  show "sql_profile coll T k = None"
    using insert_effect(3) [OF eff' r_def key, of profile_of_row] by (simp add: sql_profile_def r)
  show "sql_profile coll T' j = (if coll j = coll k then Some \<lparr>pf_ID = k, pf_Name = n, pf_CreatedAt = ts t\<rparr> else sql_profile coll T j)"
    using insert_effect(2) [OF eff' r_def key, of profile_of_row] by (simp add: sql_profile_def r)
qed

lemma createProfile_refused:
  assumes eff: "sql_effect coll ts now createProfile [SqlString k, SqlString n, SqlTime t] T = Refused 1062" and ok: "tables_ok coll T"
  shows "sql_profile coll T k \<noteq> None"
proof -
  define r where "r = new_row ts now ''profiles'' [''id'', ''name'', ''created_at''] [SqlString k, SqlString n, SqlTime t]"
  have "profile_key coll r = coll k" by (simp add: r_def new_row_def table_simps profile_key_def column_def)
  with insert_refused [OF eff [unfolded createProfile_def] r_def, of "profile_key coll" profile_of_row,
      OF createProfile_same_key [OF ok _ r_def]]
  show ?thesis by (simp add: sql_profile_def)
qed

lemma getProfile_answer:
  assumes "sql_answers coll getProfile [SqlString k] T out" and ok: "tables_ok coll T"
  shows "out = (case sql_profile coll T k of None \<Rightarrow> []
    | Some p \<Rightarrow> [[SqlString (pf_ID p), SqlString (pf_Name p), SqlTime (pf_CreatedAt p)]])"
proof -
  let ?tab = "''profiles''"
  have out: "out = (case by_key (profile_key coll) (\<lambda>x. x) (T ?tab) (coll k) of None \<Rightarrow> []
      | Some x \<Rightarrow> [map (\<lambda>c. column c x) [''id'', ''name'', ''created_at'']])"
  proof (rule select_by_key [OF assms(1) [unfolded getProfile_def]])
    show "table_ok coll T ?tab" using tables_okD(1) [OF ok] by (simp add: schema_def)
    fix x assume x: "x \<in> set (T ?tab)"
    from profile_rows [OF ok x] show "satisfies coll [(''id'', CmpEq)] [SqlString k] x \<longleftrightarrow> profile_key coll x = coll k"
      by (auto simp: satisfies_def profile_key_def column_def)
    fix y assume y: "y \<in> set (T ?tab)"
    from profile_rows [OF ok x] profile_rows [OF ok y] show "profile_key coll x = profile_key coll y \<Longrightarrow> same_key coll ?tab x y"
      by (auto simp: same_key_def profile_key_def table_simps column_def)
  qed
  have m: "sql_profile coll T k = map_option profile_of_row (by_key (profile_key coll) (\<lambda>x. x) (T ?tab) (coll k))"
    unfolding sql_profile_def by (rule by_key_map)
  show ?thesis
  proof (cases "by_key (profile_key coll) (\<lambda>x. x) (T ?tab) (coll k)")
    case None
    then show ?thesis by (simp add: out m)
  next
    case (Some x)
    with profile_rows [OF ok, of x] by_key_Some [OF Some] show ?thesis by (auto simp: out m column_def profile_of_row_def)
  qed
qed

section \<open>The repository and the service\<close>

lemma scan_Profile_safe: "scans_safely scan_Profile"
  unfolding scans_safely_def
proof (intro allI impI)
  fix vs err assume "scan_Profile vs = Inl err"
  then show "\<not> errors_Is err SqlErrNoRows"
    by (cases vs rule: scan_Profile.cases)
      (auto simp: scan_error_safe scan_error_def bind_result_def split: sum.splits)
qed

abbreviation mysql_profile_service :: "('s, 't) sql_db \<Rightarrow> ('s, env) field \<Rightarrow> 's profile_service" where
  "mysql_profile_service D e \<equiv> NewProfileService (mysql_profile_repository D) e"

lemma mysql_GetProfile_cases:
  assumes laws: "sql_laws coll ts D view pend" and call: "GetProfile (mysql_profile_service D f) k s = (r, s')"
  shows "view s' = view s" "r = Inr p \<Longrightarrow> sql_profile coll (view s) k = Some p"
    "r = Inl (Wrap ''repo get'' (Sentinel ErrProfileNotFound)) \<Longrightarrow> sql_profile coll (view s) k = None"
proof -
  obtain rows s1 where q: "dt_Query (db_conn D) getProfile [SqlString k] s = (rows, s1)" by (rule prod.exhaust)
  note ql = sql_lawsD(4) [OF laws q]
  note ok = sql_lawsD(1) [OF laws, of s]
  note defs = GetProfile_def NewProfileService_def mysql_profile_repository_def mysql_profile_Get_def gen_GetProfile_def
  have "s' = s1" using call q by (auto simp: defs split: sum.splits if_splits)
  with ql show "view s' = view s" by simp
  have "(r = Inr p \<longrightarrow> sql_profile coll (view s) k = Some p) \<and>
      (r = Inl (Wrap ''repo get'' (Sentinel ErrProfileNotFound)) \<longrightarrow> sql_profile coll (view s) k = None)"
  proof (cases "row_Scan scan_Profile rows")
    case (Inl e)
    show ?thesis
    proof (cases "errors_Is e SqlErrNoRows")
      case True
      from getProfile_answer [OF row_Scan_none [OF conjunct1 [OF ql] Inl True scan_Profile_safe] ok]
      have "sql_profile coll (view s) k = None" by (simp split: option.splits)
      with call q Inl True show ?thesis by (auto simp: defs)
    next
      case False
      with call q Inl show ?thesis by (auto simp: defs)
    qed
  next
    case (Inr row)
    from row_Scan_law [OF conjunct1 [OF ql] Inr] obtain vs rest
      where a: "sql_answers coll getProfile [SqlString k] (view s) (vs # rest)" "scan_Profile vs = Inr row" by auto
    from getProfile_answer [OF a(1) ok] a(2) call q Inr show ?thesis
      by (auto simp: defs bind_result_def split: option.splits)
  qed
  then show "r = Inr p \<Longrightarrow> sql_profile coll (view s) k = Some p"
    "r = Inl (Wrap ''repo get'' (Sentinel ErrProfileNotFound)) \<Longrightarrow> sql_profile coll (view s) k = None" by blast+
qed

lemma mysql_CreateProfile_cases:
  assumes laws: "sql_laws coll ts D view pend" and apart: "apart f view"
    and call: "CreateProfile (mysql_profile_service D f) k n s = (r, s')"
  shows "r = Inr p \<Longrightarrow> sql_profile coll (view s) k = None \<and> pf_ID p = k \<and> pf_Name p = n \<and>
      (\<forall>j. sql_profile coll (view s') j =
        (if coll j = coll k then Some (p\<lparr>pf_CreatedAt := ts (pf_CreatedAt p)\<rparr>) else sql_profile coll (view s) j))"
    and "r = Inl err \<Longrightarrow> view s' = view s"
    and "r = Inl (Wrap ''repo create'' (Sentinel ErrProfileAlreadyExists)) \<Longrightarrow> sql_profile coll (view s) k \<noteq> None"
proof -
  obtain t s1 where now: "on_field f time_Now s = (t, s1)" by (rule prod.exhaust)
  have v: "view s1 = view s" using now apart by (auto simp: on_field_def apart_def split: prod.splits)
  obtain x s2 where ex: "dt_Exec (db_conn D) createProfile [SqlString k, SqlString n, SqlTime t] s1 = (x, s2)" by (rule prod.exhaust)
  note law = sql_lawsD(3) [OF laws ex]
  note ok = sql_lawsD(1) [OF laws, of s1]
  have res: "s' = s2" "r = (case x of Inr _ \<Rightarrow> Inr \<lparr>pf_ID = k, pf_Name = n, pf_CreatedAt = t\<rparr>
      | Inl err \<Rightarrow> Inl (Wrap ''repo create'' (if errors_As_MySQL err = Some 1062 then Sentinel ErrProfileAlreadyExists
          else Wrap ''queries.CreateProfile'' err)))"
    using call now ex
    by (auto simp: CreateProfile_def NewProfileService_def mysql_profile_repository_def mysql_profile_Create_def
        gen_CreateProfile_def mysqlErrDuplicateEntry_def split: sum.splits if_splits)
  show "r = Inl err \<Longrightarrow> view s' = view s" using law res v by (auto simp: exec_law_def split: sum.splits)
  show "r = Inl (Wrap ''repo create'' (Sentinel ErrProfileAlreadyExists)) \<Longrightarrow> sql_profile coll (view s) k \<noteq> None"
    using law res createProfile_refused [OF _ ok, of ts _ k n t] v
    by (auto simp: exec_law_def split: sum.splits if_splits)
  assume p: "r = Inr p"
  then obtain now' where eff: "sql_effect coll ts now' createProfile [SqlString k, SqlString n, SqlTime t] (view s1) = Done (view s2)"
      and p': "p = \<lparr>pf_ID = k, pf_Name = n, pf_CreatedAt = t\<rparr>"
    using law res by (auto simp: exec_law_def split: sum.splits)
  from createProfile_effect [OF eff ok] p' res(1) v
  show "sql_profile coll (view s) k = None \<and> pf_ID p = k \<and> pf_Name p = n \<and>
      (\<forall>j. sql_profile coll (view s') j =
        (if coll j = coll k then Some (p\<lparr>pf_CreatedAt := ts (pf_CreatedAt p)\<rparr>) else sql_profile coll (view s) j))" by simp
qed

text \<open>Requests to the service, in any order.\<close>

datatype profile_call = GetCall string | CreateCall string string

fun profile_calls :: "'s profile_service \<Rightarrow> profile_call list \<Rightarrow> 's \<Rightarrow> 's" where
  "profile_calls svc [] s = s"
| "profile_calls svc (GetCall k # cs) s = profile_calls svc cs (snd (GetProfile svc k s))"
| "profile_calls svc (CreateCall k n # cs) s = profile_calls svc cs (snd (CreateProfile svc k n s))"

lemma profile_calls_keep:
  assumes laws: "sql_laws coll ts D view pend" and apart: "apart f view" and "sql_profile coll (view s) k = Some p"
  shows "sql_profile coll (view (profile_calls (mysql_profile_service D f) cs s)) k = Some p"
  using assms(3)
proof (induction "mysql_profile_service D f" cs s rule: profile_calls.induct)
  case (2 j cs s)
  then show ?case using mysql_GetProfile_cases(1) [OF laws surjective_pairing] by simp
next
  case (3 j n cs s)
  obtain r s1 where c: "CreateProfile (mysql_profile_service D f) j n s = (r, s1)" by (rule prod.exhaust)
  note cs = mysql_CreateProfile_cases [OF laws apart c]
  have "sql_profile coll (view s1) k = Some p"
  proof (cases r)
    case (Inl err)
    with cs(2) 3 show ?thesis by simp
  next
    case (Inr q)
    from cs(1) [OF Inr] 3 have "coll k \<noteq> coll j" by (auto simp: sql_profile_def)
    with cs(1) [OF Inr] 3 show ?thesis by simp
  qed
  with 3 c show ?case by simp
qed simp

section \<open>Properties\<close>

text \<open>
  C14: profiles on MySQL. On every database with the documented behaviour, whatever statements fail: once a profile
  was created, after any further requests, it is never reported missing; what is read under its identifier is the
  created profile, with the time that the column keeps; and no other profile can be created under an identifier that
  the collation takes for the same.
\<close>

theorem mysql_profile_lifecycle:
  assumes "sql_laws coll ts D view pend" "apart f view" "coll j = coll k"
    and "CreateProfile (mysql_profile_service D f) k n s = (Inr p, s1)"
    and "s2 = profile_calls (mysql_profile_service D f) cs s1"
    and "GetProfile (mysql_profile_service D f) j s2 = (r, s3)" "CreateProfile (mysql_profile_service D f) j m s2 = (r', s4)"
  shows "pf_ID p = k \<and> pf_Name p = n
    \<and> r \<noteq> Inl (Wrap ''repo get'' (Sentinel ErrProfileNotFound))
    \<and> (\<forall>q. r = Inr q \<longrightarrow> q = p\<lparr>pf_CreatedAt := ts (pf_CreatedAt p)\<rparr>)
    \<and> isl r' \<and> sql_profile coll (view s4) k = Some (p\<lparr>pf_CreatedAt := ts (pf_CreatedAt p)\<rparr>)"
proof -
  note created = mysql_CreateProfile_cases(1) [OF assms(1,2,4) refl]
  have kept: "sql_profile coll (view s2) k = Some (p\<lparr>pf_CreatedAt := ts (pf_CreatedAt p)\<rparr>)"
    unfolding assms(5) by (rule profile_calls_keep [OF assms(1,2)]) (simp add: created)
  then have kept': "sql_profile coll (view s2) j = Some (p\<lparr>pf_CreatedAt := ts (pf_CreatedAt p)\<rparr>)"
    by (simp add: sql_profile_def assms(3))
  note get = mysql_GetProfile_cases [OF assms(1,6)] and create = mysql_CreateProfile_cases [OF assms(1,2,7)]
  obtain err where "r' = Inl err" using create(1) kept' by (cases r') auto
  with create(2) kept kept' get(2,3) created show ?thesis by auto
qed

theorem mysql_profile_lifecycle_witness:
  "let svc = mysql_profile_service (ref_db id whole_seconds) ref_env_field;
       (r1, s1) = CreateProfile svc ''k'' ''Kim'' (\<lambda>_. [], \<lambda>_. [], ref_env);
       s2 = profile_calls svc [CreateCall ''j'' ''Jo'', CreateCall ''k'' ''Eve''] s1
   in r1 = Inr \<lparr>pf_ID = ''k'', pf_Name = ''Kim'', pf_CreatedAt = 0\<rparr> \<and> isl (fst (CreateProfile svc ''k'' ''Max'' s2))
      \<and> (\<forall>q. fst (GetProfile svc ''k'' s2) = Inr q \<longrightarrow> pf_Name q = ''Kim'')"
proof -
  let ?svc = "mysql_profile_service (ref_db id whole_seconds) ref_env_field"
  let ?c1 = "CreateProfile ?svc ''k'' ''Kim'' (\<lambda>_. [], \<lambda>_. [], ref_env)"
  let ?s2 = "profile_calls ?svc [CreateCall ''j'' ''Jo'', CreateCall ''k'' ''Eve''] (snd ?c1)"
  have r1: "fst ?c1 = Inr \<lparr>pf_ID = ''k'', pf_Name = ''Kim'', pf_CreatedAt = 0\<rparr>" by code_simp
  then have c1: "?c1 = (Inr \<lparr>pf_ID = ''k'', pf_Name = ''Kim'', pf_CreatedAt = 0\<rparr>, snd ?c1)" by (metis prod.collapse)
  have apart: "apart ref_env_field (ref_view id)" by (auto simp: apart_def ref_env_field_def ref_view_def)
  from mysql_profile_lifecycle [OF ref_db_laws [of id whole_seconds] apart refl c1 refl surjective_pairing surjective_pairing,
      of "[CreateCall ''j'' ''Jo'', CreateCall ''k'' ''Eve'']" "''Max''"] c1 r1
  show ?thesis by (auto simp: Let_def case_prod_unfold)
qed

end
