(* ===== verification/Mysql_Battle.thy ===== *)
theory Mysql_Battle
  imports Mysql_Repos Battle_Queue
begin

text \<open>
  Damage on MySQL: the transaction of \<open>battle_repo.go\<close> computes what the in-memory repository computes, on every
  database with the documented behaviour.
\<close>

lemma row_ok_hp:
  "row_ok ''player_hp'' r \<longleftrightarrow> (\<exists>p n t. in_int32 n \<and>
     r = [(''player_id'', SqlString p), (''hp'', SqlInt n), (''updated_at'', SqlTime t)])"
  by (auto simp: row_ok_def table_simps list_all2_Cons1 fits_cases)

lemma hp_rows:
  assumes "tables_ok coll T" "r \<in> set (T ''player_hp'')"
  shows "\<exists>p n t. in_int32 n \<and> r = [(''player_id'', SqlString p), (''hp'', SqlInt n), (''updated_at'', SqlTime t)]"
  using tables_okD(2) [OF assms(1) _ assms(2)] by (simp add: row_ok_hp schema_def)

definition hp_key :: "(string \<Rightarrow> string) \<Rightarrow> sql_row \<Rightarrow> string" where
  "hp_key coll r = coll (str_of (column ''player_id'' r))"

definition hp_map :: "(string \<Rightarrow> string) \<Rightarrow> tables \<Rightarrow> string \<Rightarrow> int option" where
  "hp_map coll T = by_key (hp_key coll) (\<lambda>r. int_of (column ''hp'' r)) (T ''player_hp'')"

definition sql_hp :: "(string \<Rightarrow> string) \<Rightarrow> tables \<Rightarrow> string \<Rightarrow> int" where
  "sql_hp coll T p = (case hp_map coll T (coll p) of None \<Rightarrow> DefaultInitialHP | Some n \<Rightarrow> n)"

section \<open>Statements\<close>

lemma hp_select:
  assumes ans: "sql_answers coll (Select cols ''player_hp'' [(''player_id'', CmpEq)] None False) [SqlString p] T out"
    and ok: "tables_ok coll T"
  shows "out = (case by_key (hp_key coll) (\<lambda>x. x) (T ''player_hp'') (coll p) of None \<Rightarrow> [] | Some x \<Rightarrow> [map (\<lambda>c. column c x) cols])"
proof (rule select_by_key [OF ans])
  let ?tab = "''player_hp''"
  show "table_ok coll T ?tab" using tables_okD(1) [OF ok] by (simp add: schema_def)
  fix x assume x: "x \<in> set (T ?tab)"
  from hp_rows [OF ok x] show "satisfies coll [(''player_id'', CmpEq)] [SqlString p] x \<longleftrightarrow> hp_key coll x = coll p"
    by (auto simp: satisfies_def hp_key_def column_def)
  fix y assume y: "y \<in> set (T ?tab)"
  from hp_rows [OF ok x] hp_rows [OF ok y] show "hp_key coll x = hp_key coll y \<Longrightarrow> same_key coll ?tab x y"
    by (auto simp: same_key_def hp_key_def table_simps column_def)
qed

lemma selectHP_answer:
  assumes "sql_answers coll selectHP [SqlString p] T out" and ok: "tables_ok coll T"
  shows "out = (case hp_map coll T (coll p) of None \<Rightarrow> [] | Some n \<Rightarrow> [[SqlInt n]])"
    and "hp_map coll T (coll p) = Some n \<Longrightarrow> in_int32 n"
proof -
  let ?tab = "''player_hp''"
  have out: "out = (case by_key (hp_key coll) (\<lambda>x. x) (T ?tab) (coll p) of None \<Rightarrow> [] | Some x \<Rightarrow> [map (\<lambda>c. column c x) [''hp'']])"
    by (rule hp_select [OF assms(1) [unfolded selectHP_def] ok])
  have m: "hp_map coll T (coll p) = map_option (\<lambda>r. int_of (column ''hp'' r)) (by_key (hp_key coll) (\<lambda>x. x) (T ?tab) (coll p))"
    unfolding hp_map_def by (rule by_key_map)
  show "out = (case hp_map coll T (coll p) of None \<Rightarrow> [] | Some n \<Rightarrow> [[SqlInt n]])"
  proof (cases "by_key (hp_key coll) (\<lambda>x. x) (T ?tab) (coll p)")
    case None
    then show ?thesis by (simp add: out m)
  next
    case (Some x)
    with hp_rows [OF ok, of x] by_key_Some [OF Some] show ?thesis by (auto simp: out m column_def)
  qed
  show "hp_map coll T (coll p) = Some n \<Longrightarrow> in_int32 n"
    using hp_rows [OF ok] by_key_Some by (fastforce simp: m column_def)
qed

lemma insertHP_effect:
  assumes eff: "sql_effect coll ts now insertHP [SqlString p, SqlInt n] T = Done T'" and ok: "tables_ok coll T"
  shows "hp_map coll T' = (hp_map coll T)(coll p \<mapsto> n)"
proof -
  let ?r = "new_row ts now ''player_hp'' [''player_id'', ''hp''] [SqlString p, SqlInt n]"
  have r: "?r = [(''player_id'', SqlString p), (''hp'', SqlInt n), (''updated_at'', SqlTime (ts now))]"
    by (simp add: new_row_def table_simps)
  have "by_key (hp_key coll) V (T' ''player_hp'') = (by_key (hp_key coll) V (T ''player_hp''))(hp_key coll ?r \<mapsto> V ?r)" for V :: "sql_row \<Rightarrow> int"
  proof (rule insert_effect(2) [OF eff [unfolded insertHP_def] refl])
    fix x assume "x \<in> set (T ''player_hp'')"
    from hp_rows [OF ok this] show "same_key coll ''player_hp'' ?r x \<longleftrightarrow> hp_key coll x = hp_key coll ?r"
      by (auto simp: r hp_key_def same_key_def table_simps column_def)
  qed
  then show ?thesis by (simp add: hp_map_def) (simp add: r hp_key_def column_def)
qed

lemma updateHP_effect:
  assumes eff: "sql_effect coll ts now updateHP [SqlInt n, SqlString p] T = Done T'" and ok: "tables_ok coll T"
    and row: "hp_map coll T (coll p) \<noteq> None"
  shows "hp_map coll T' = (hp_map coll T)(coll p \<mapsto> n)"
proof -
  note up = update_effect [OF eff [unfolded updateHP_def], of "hp_key coll" "coll p" "\<lambda>r. int_of (column ''hp'' r)" "\<lambda>_. n"]
  have "by_key (hp_key coll) (\<lambda>r. int_of (column ''hp'' r)) (T' ''player_hp'') k =
      (if k = coll p then map_option (\<lambda>_. n) (by_key (hp_key coll) (\<lambda>r. int_of (column ''hp'' r)) (T ''player_hp'') (coll p))
       else by_key (hp_key coll) (\<lambda>r. int_of (column ''hp'' r)) (T ''player_hp'') k)" for k
  proof (rule up(1))
    fix x assume "x \<in> set (T ''player_hp'')"
    from hp_rows [OF ok this] show "value_eq coll (column ''player_id'' x) (SqlString p) \<longleftrightarrow> hp_key coll x = coll p"
      by (auto simp: hp_key_def column_def)
  next
    fix x assume "x \<in> set (T ''player_hp'')" "hp_key coll x = coll p"
    with hp_rows [OF ok this(1)]
    show "hp_key coll (set_column ts now ''player_hp'' ''hp'' (SqlInt n) x) = coll p \<and>
        int_of (column ''hp'' (set_column ts now ''player_hp'' ''hp'' (SqlInt n) x)) = n"
      by (auto simp: hp_key_def column_def set_column_def table_simps Let_def)
  qed
  then show ?thesis using row by (auto simp: hp_map_def fun_eq_iff)
qed

lemma resetHP_effect:
  assumes eff: "sql_effect coll ts now resetHP [SqlString p, SqlInt n] T = Done T'" and ok: "tables_ok coll T"
  shows "hp_map coll T' = (hp_map coll T)(coll p \<mapsto> n)"
proof -
  let ?r = "new_row ts now ''player_hp'' [''player_id'', ''hp''] [SqlString p, SqlInt n]"
  have r: "?r = [(''player_id'', SqlString p), (''hp'', SqlInt n), (''updated_at'', SqlTime (ts now))]"
    by (simp add: new_row_def table_simps)
  have key: "hp_key coll ?r = coll p" by (simp add: r hp_key_def column_def)
  note up = upsert_effect [OF eff [unfolded resetHP_def] refl, of "hp_key coll" "\<lambda>r. int_of (column ''hp'' r)" "\<lambda>_. n"]
  show ?thesis unfolding hp_map_def
  proof (subst up(1))
    fix x assume "x \<in> set (T ''player_hp'')"
    from hp_rows [OF ok this] show "same_key coll ''player_hp'' ?r x \<longleftrightarrow> hp_key coll x = hp_key coll ?r"
      by (auto simp: r hp_key_def same_key_def table_simps column_def)
  next
    fix x assume "x \<in> set (T ''player_hp'')" "hp_key coll x = hp_key coll ?r"
    with hp_rows [OF ok this(1)]
    show "hp_key coll (set_column ts now ''player_hp'' ''hp'' (assigned AssignValues (column ''hp'' x) (column ''hp'' ?r)) x) = hp_key coll ?r \<and>
        int_of (column ''hp'' (set_column ts now ''player_hp'' ''hp'' (assigned AssignValues (column ''hp'' x) (column ''hp'' ?r)) x)) = n"
      by (auto simp: r hp_key_def column_def set_column_def table_simps Let_def)
  qed (simp add: key, simp add: r column_def split: option.splits)
qed

text \<open>The row of a player, as \<open>Get\<close> reads it.\<close>

lemma selectPlayerHP_answer:
  assumes "sql_answers coll selectPlayerHP [SqlString p] T (vs # rest)" and ok: "tables_ok coll T"
  shows "\<exists>q n t. vs = [SqlString q, SqlInt n, SqlTime t] \<and> sql_hp coll T p = n \<and> in_int32 n"
proof -
  let ?tab = "''player_hp''" and ?cols = "[''player_id'', ''hp'', ''updated_at'']"
  have "vs # rest = (case by_key (hp_key coll) (\<lambda>x. x) (T ?tab) (coll p) of None \<Rightarrow> [] | Some x \<Rightarrow> [map (\<lambda>c. column c x) ?cols])"
    by (rule hp_select [OF assms(1) [unfolded selectPlayerHP_def] ok])
  then obtain x where x: "by_key (hp_key coll) (\<lambda>x. x) (T ?tab) (coll p) = Some x" "vs = map (\<lambda>c. column c x) ?cols"
    by (auto split: option.splits)
  have "hp_map coll T (coll p) = Some (int_of (column ''hp'' x))"
    unfolding hp_map_def by (subst by_key_map) (simp add: x(1))
  with hp_rows [OF ok, of x] by_key_Some [OF x(1)] x(2) show ?thesis by (auto simp: sql_hp_def column_def)
qed

lemma mysql_hp_Reset_ok:
  assumes laws: "sql_laws coll ts D view pend" and call: "mysql_hp_Reset D p n s = (Inr u, s')"
  shows "sql_hp coll (view s') p = n" "in_int32 n"
proof -
  have "dt_Exec (db_conn D) resetHP [SqlString p, SqlInt n] s = (Inr (), s')"
    using call by (auto simp: mysql_hp_Reset_def split: prod.splits sum.splits)
  from sql_lawsD(3) [OF laws this] obtain now where
    "sql_effect coll ts now resetHP [SqlString p, SqlInt n] (view s) = Done (view s')" by (auto simp: exec_law_def)
  from resetHP_effect [OF this sql_lawsD(1) [OF laws]]
  have m: "hp_map coll (view s') (coll p) = Some n" by simp
  then show "sql_hp coll (view s') p = n" by (simp add: sql_hp_def)
  obtain x where "by_key (hp_key coll) (\<lambda>x. x) (view s' ''player_hp'') (coll p) = Some x" "int_of (column ''hp'' x) = n"
    using m unfolding hp_map_def by (subst (asm) by_key_map) auto
  with hp_rows [OF sql_lawsD(1) [OF laws], of x] by_key_Some show "in_int32 n" by (fastforce simp: column_def)
qed

lemma mysql_hp_Get_ok:
  assumes laws: "sql_laws coll ts D view pend" and call: "mysql_hp_Get D p s = (Inr h, s')"
  shows "ph_HP h = sql_hp coll (view s) p" "in_int32 (ph_HP h)"
proof -
  obtain rows s1 where q: "dt_Query (db_conn D) selectPlayerHP [SqlString p] s = (rows, s1)" by (rule prod.exhaust)
  with call have scan: "row_Scan scan_PlayerHP rows = Inr h"
    by (auto simp: mysql_hp_Get_def split: sum.splits if_splits)
  from row_Scan_law [OF conjunct1 [OF sql_lawsD(4) [OF laws q]] scan] obtain vs rest
    where a: "sql_answers coll selectPlayerHP [SqlString p] (view s) (vs # rest)" "scan_PlayerHP vs = Inr h" by auto
  from selectPlayerHP_answer [OF a(1) sql_lawsD(1) [OF laws]] a(2)
  show "ph_HP h = sql_hp coll (view s) p" "in_int32 (ph_HP h)"
    by (auto simp: bind_result_def split: if_splits)
qed

section \<open>The transaction\<close>

lemma scan_hp_safe: "scans_safely scan_hp"
  unfolding scans_safely_def
proof (intro allI impI)
  fix vs err assume "scan_hp vs = Inl err"
  then show "\<not> errors_Is err SqlErrNoRows"
    by (cases vs rule: scan_hp.cases) (auto simp: scan_error_safe scan_error_def)
qed

lemma hp_for_update_effect:
  assumes laws: "sql_laws coll ts D view pend" and run: "hp_for_update (db_tx D t) p s = (r, s')"
  shows "view s' = view s"
    "r = Inr hp \<Longrightarrow> hp = sql_hp coll (pend s t) p \<and> in_int32 hp \<and> hp_map coll (pend s' t) = (hp_map coll (pend s t))(coll p \<mapsto> hp)"
proof -
  obtain rows s1 where q: "dt_Query (db_tx D t) selectHP [SqlString p] s = (rows, s1)" by (rule prod.exhaust)
  note ql = sql_lawsD(8) [OF laws q]
  note ok = sql_lawsD(2) [OF laws]
  have no: "row_Scan scan_hp rows = Inl err \<Longrightarrow> errors_Is err SqlErrNoRows \<Longrightarrow> hp_map coll (pend s t) (coll p) = None" for err
  proof -
    assume e: "row_Scan scan_hp rows = Inl err" "errors_Is err SqlErrNoRows"
    have "sql_answers coll selectHP [SqlString p] (pend s t) []"
      by (rule row_Scan_none [OF conjunct2 [OF conjunct2 [OF ql]] e scan_hp_safe])
    from selectHP_answer(1) [OF this ok] show ?thesis by (simp split: option.splits)
  qed
  have yes: "row_Scan scan_hp rows = Inr h \<Longrightarrow> hp_map coll (pend s t) (coll p) = Some h \<and> in_int32 h" for h
  proof -
    assume e: "row_Scan scan_hp rows = Inr h"
    from row_Scan_law [OF conjunct2 [OF conjunct2 [OF ql]] e] obtain vs rest
      where a: "sql_answers coll selectHP [SqlString p] (pend s t) (vs # rest)" "scan_hp vs = Inr h" by auto
    from selectHP_answer [OF a(1) ok] a(2) show ?thesis by (auto split: option.splits if_splits)
  qed
  have "view s' = view s \<and> (r = Inr hp \<longrightarrow>
    hp = sql_hp coll (pend s t) p \<and> in_int32 hp \<and> hp_map coll (pend s' t) = (hp_map coll (pend s t))(coll p \<mapsto> hp))"
  proof (cases "row_Scan scan_hp rows")
    case (Inr h)
    with run q yes [OF Inr] ql show ?thesis by (auto simp: hp_for_update_def sql_hp_def)
  next
    case (Inl err)
    show ?thesis
    proof (cases "errors_Is err SqlErrNoRows")
      case False
      with run q Inl ql show ?thesis by (auto simp: hp_for_update_def)
    next
      case True
      obtain x s2 where i: "dt_Exec (db_tx D t) insertHP [SqlString p, SqlInt DefaultInitialHP] s1 = (x, s2)" by (rule prod.exhaust)
      note l = sql_lawsD(7) [OF laws i]
      show ?thesis
      proof (cases x)
        case (Inl err')
        with run q True i l ql \<open>row_Scan scan_hp rows = Inl err\<close> show ?thesis by (auto simp: hp_for_update_def)
      next
        case (Inr u)
        with l obtain now where
          "sql_effect coll ts now insertHP [SqlString p, SqlInt DefaultInitialHP] (pend s1 t) = Done (pend s2 t)"
          by (auto simp: exec_law_def)
        from insertHP_effect [OF this ok] no [OF Inl True] run q True i l ql Inl Inr
        show ?thesis by (auto simp: hp_for_update_def sql_hp_def battle_consts in_int32_def)
      qed
    qed
  qed
  then show "view s' = view s"
    "r = Inr hp \<Longrightarrow> hp = sql_hp coll (pend s t) p \<and> in_int32 hp \<and> hp_map coll (pend s' t) = (hp_map coll (pend s t))(coll p \<mapsto> hp)"
    by auto
qed

lemma mysql_damage_cases:
  assumes laws: "sql_laws coll ts D view pend" and d: "damage_ok d" and call: "mysql_ApplyDamageNaive D p d s = (r, s')"
  shows "case r of
      Inl err \<Rightarrow> view s' = view s
    | Inr hp \<Rightarrow> hp = max 0 (sql_hp coll (view s) p - d) \<and> hp_map coll (view s') = (hp_map coll (view s))(coll p \<mapsto> hp)"
proof (rule in_tx_atomic [OF laws call [unfolded mysql_ApplyDamageNaive_def]])
  fix t s1 err s2
  assume "apply_damage_body D p d t s1 = (Inl err, s2)"
  then show "view s2 = view s1"
    by (auto simp: apply_damage_body_def Let_def split: prod.splits sum.splits
        dest!: hp_for_update_effect(1) [OF laws] sql_lawsD(7) [OF laws] sql_lawsD(10) [OF laws])
next
  fix t s1 hp s2
  assume pend: "pend s1 t = view s1" and body: "apply_damage_body D p d t s1 = (Inr hp, s2)"
  then obtain h s3 b s4 c where st: "hp_for_update (db_tx D t) p s1 = (Inr h, s3)"
      "hp = (if int64 (h - d) < 0 then 0 else int64 (h - d))"
      "dt_Exec (db_tx D t) updateHP [SqlInt hp, SqlString p] s3 = (Inr b, s4)" "db_Commit D t s4 = (Inr c, s2)"
    by (auto simp: apply_damage_body_def Let_def split: prod.splits sum.splits)
  note h = hp_for_update_effect(2) [OF laws st(1) refl]
  have "int64 (h - d) = h - d"
    using h d by (intro int64_small) (auto simp: in_int32_def damage_ok_def battle_consts)
  then have hp: "hp = max 0 (h - d)" using st(2) by auto
  from sql_lawsD(7) [OF laws st(3)] obtain now where
    "sql_effect coll ts now updateHP [SqlInt hp, SqlString p] (pend s3 t) = Done (pend s4 t)"
    by (auto simp: exec_law_def)
  from updateHP_effect [OF this sql_lawsD(2) [OF laws]] h sql_lawsD(9) [OF laws st(4)] pend hp
  show "hp = max 0 (sql_hp coll (view s1) p - d) \<and> hp_map coll (view s2) = (hp_map coll (view s1))(coll p \<mapsto> hp)"
    by simp
qed

section \<open>Refinement of the in-memory repository\<close>

text \<open>A sequence of damage requests (player, damage), each to completion, with its answers.\<close>

fun damage_run :: "(string \<Rightarrow> int \<Rightarrow> 's \<Rightarrow> int result \<times> 's) \<Rightarrow> (string \<times> int) list \<Rightarrow> 's \<Rightarrow> int result list \<times> 's" where
  "damage_run app [] s = ([], s)"
| "damage_run app ((p, d) # reqs) s =
     (let (r, s) = app p d s; (rs, s) = damage_run app reqs s in (r # rs, s))"

text \<open>The requests that were not refused, with their answers.\<close>

definition answered :: "(string \<times> int) list \<Rightarrow> int result list \<Rightarrow> (string \<times> int) list" where
  "answered reqs rs = map fst (filter (\<lambda>(_, r). \<not> isl r) (zip reqs rs))"

lemma mysql_naive_cases:
  assumes laws: "sql_laws coll ts D view pend" and inj: "inj_on coll ids" "p \<in> ids"
    and call: "V1Naive_Apply (mysql_ApplyDamageNaive D) p d s = (r, s')"
    and rel: "hp_ok m" "\<forall>q\<in>ids. sql_hp coll (view s) q = hp_of m q"
  shows "case r of
      Inl err \<Rightarrow> view s' = view s
    | Inr hp \<Rightarrow> \<exists>m'. V1Naive_Apply inmem_ApplyDamageNaive p d m = (Inr hp, m') \<and> hp_ok m' \<and>
        (\<forall>q\<in>ids. sql_hp coll (view s') q = hp_of m' q)"
proof (cases "damage_ok d")
  case False
  with call show ?thesis by (auto simp: V1Naive_Apply_def damage_ok_def split: if_splits)
next
  case True
  obtain x s1 where c: "mysql_ApplyDamageNaive D p d s = (x, s1)" by (rule prod.exhaust)
  with call True have r: "r = wrap_result ''apply damage naive'' x" "s' = s1"
    by (auto simp: V1Naive_Apply_def damage_ok_def)
  note cs = mysql_damage_cases [OF laws True c]
  show ?thesis
  proof (cases x)
    case (Inl err)
    with cs r show ?thesis by (simp add: wrap_result_def)
  next
    case (Inr hp)
    obtain y m' where m: "inmem_ApplyDamageNaive p d m = (y, m')" by (rule prod.exhaust)
    note im = inmem_ApplyDamageNaive_hp [OF rel(1) True m]
    have hp: "hp = max 0 (hp_of m p - d)" and map: "hp_map coll (view s') = (hp_map coll (view s))(coll p \<mapsto> hp)"
      using cs Inr rel(2) inj(2) r by auto
    have "sql_hp coll (view s') q = hp_of m' q" if "q \<in> ids" for q
    proof (cases "q = p")
      case True
      then show ?thesis using map im(2) hp by (simp add: sql_hp_def)
    next
      case False
      with that inj have "coll q \<noteq> coll p" by (auto dest: inj_onD)
      with map False rel(2) that im(2) show ?thesis by (auto simp: sql_hp_def)
    qed
    with im m hp True Inr r show ?thesis
      by (auto simp: V1Naive_Apply_def damage_ok_def wrap_result_def)
  qed
qed

lemma damage_run_refines:
  assumes laws: "sql_laws coll ts D view pend" and inj: "inj_on coll ids" and "\<forall>(p, d)\<in>set reqs. p \<in> ids"
    and "damage_run (V1Naive_Apply (mysql_ApplyDamageNaive D)) reqs s = (rs, s')"
    and "hp_ok m" "\<forall>q\<in>ids. sql_hp coll (view s) q = hp_of m q"
  shows "\<exists>m'. damage_run (V1Naive_Apply inmem_ApplyDamageNaive) (answered reqs rs) m = (filter (\<lambda>r. \<not> isl r) rs, m') \<and>
    hp_ok m' \<and> (\<forall>q\<in>ids. sql_hp coll (view s') q = hp_of m' q)"
  using assms(3-6)
proof (induction reqs arbitrary: s rs m)
  case Nil
  then show ?case by (simp add: answered_def)
next
  case (Cons req reqs)
  obtain p d where req: "req = (p, d)" by (rule prod.exhaust)
  obtain r s1 where a: "V1Naive_Apply (mysql_ApplyDamageNaive D) p d s = (r, s1)" by (rule prod.exhaust)
  obtain rs1 where b: "damage_run (V1Naive_Apply (mysql_ApplyDamageNaive D)) reqs s1 = (rs1, s')" "rs = r # rs1"
    using Cons.prems(2) a by (auto simp: req split: prod.splits)
  have p: "p \<in> ids" using Cons.prems(1) by (simp add: req)
  note cs = mysql_naive_cases [OF laws inj p a Cons.prems(3,4)]
  show ?case
  proof (cases r)
    case (Inl err)
    with cs Cons.IH [OF _ b(1), of m] Cons.prems b(2) show ?thesis by (auto simp: answered_def)
  next
    case (Inr hp)
    with cs obtain m1 where m1: "V1Naive_Apply inmem_ApplyDamageNaive p d m = (Inr hp, m1)" "hp_ok m1"
        "\<forall>q\<in>ids. sql_hp coll (view s1) q = hp_of m1 q" by auto
    with Cons.IH [OF _ b(1) m1(2,3)] Cons.prems(1) b(2) Inr show ?thesis by (auto simp: answered_def req)
  qed
qed

section \<open>Properties\<close>

text \<open>
  C16: damage on MySQL refines the in-memory repository. On every database with the documented behaviour whose
  table is empty, whatever statements, transactions or commits fail, a sequence of damage requests for players that
  the collation tells apart is answered exactly like the same sequence without the failed requests is answered by
  the in-memory repository, and leaves every player with the same hit points: a failed request has no effect, and
  no hit is lost or counted twice.
\<close>

theorem mysql_damage_refines_inmem:
  assumes "sql_laws coll ts D view pend" "inj_on coll ids" "\<forall>(p, d)\<in>set reqs. p \<in> ids" "view s = (\<lambda>_. [])"
    and "damage_run (V1Naive_Apply (mysql_ApplyDamageNaive D)) reqs s = (rs, s')"
  shows "\<exists>m. damage_run (V1Naive_Apply inmem_ApplyDamageNaive) (answered reqs rs) NewBattleRepo = (filter (\<lambda>r. \<not> isl r) rs, m) \<and>
    (\<forall>p\<in>ids. sql_hp coll (view s') p = hp_of m p)"
  using damage_run_refines [OF assms(1,2,3,5), of NewBattleRepo] assms(4)
  by (auto simp: sql_hp_def hp_map_def battle_consts)

theorem mysql_damage_refines_inmem_witness:
  "let run = damage_run (V1Naive_Apply (mysql_ApplyDamageNaive (ref_db id id))) [(''a'', 4000), (''a'', 0), (''a'', 7000)] (\<lambda>_. [], \<lambda>_. [], ())
   in map isl (fst run) = [False, True, False] \<and> sql_hp id (ref_view id (snd run)) ''a'' = 0 \<and>
      (\<exists>m. damage_run (V1Naive_Apply inmem_ApplyDamageNaive) [(''a'', 4000), (''a'', 7000)] NewBattleRepo =
         ([Inr 6000, Inr 0], m) \<and> hp_of m ''a'' = 0)"
proof -
  let ?reqs = "[(''a'', 4000), (''a'', 0), (''a'', 7000)] :: (string \<times> int) list"
  let ?s = "(\<lambda>_. [], \<lambda>_. [], ()) :: tables \<times> tables \<times> unit"
  let ?run = "damage_run (V1Naive_Apply (mysql_ApplyDamageNaive (ref_db id id))) ?reqs ?s"
  have rs: "fst ?run = [Inr 6000, Inl (Sentinel ErrInvalidDamage), Inr 0]" by code_simp
  have "sql_hp id (ref_view id (snd ?run)) ''a'' = 0" by code_simp
  moreover have "ref_view id ?s = (\<lambda>_. [])" by (simp add: ref_view_def clean_def)
  moreover have "?run = (fst ?run, snd ?run)" by simp
  ultimately show ?thesis
    using mysql_damage_refines_inmem [OF ref_db_laws, of id UNIV ?reqs ?s id "fst ?run" "snd ?run"] rs
    by (auto simp: Let_def answered_def simp del: damage_run.simps)
qed

section \<open>The queue on MySQL\<close>

definition sql_hp_ok :: "(string \<Rightarrow> string) \<Rightarrow> string set \<Rightarrow> tables \<Rightarrow> bool" where
  "sql_hp_ok coll ids T \<longleftrightarrow> (\<forall>p\<in>ids. 0 \<le> sql_hp coll T p)"

lemma mysql_hit:
  assumes laws: "sql_laws coll ts D view pend" and inj: "inj_on coll ids" "p \<in> ids" "q \<in> ids"
    and d: "damage_ok d" and call: "mysql_ApplyDamageNaive D p d s = (r, s')"
  shows "sql_hp coll (view s') q = (if q = p \<and> \<not> isl r then max 0 (sql_hp coll (view s) p - d) else sql_hp coll (view s) q)"
    and "r = Inr h \<Longrightarrow> h = max 0 (sql_hp coll (view s) p - d)"
proof -
  note cs = mysql_damage_cases [OF laws d call]
  show "r = Inr h \<Longrightarrow> h = max 0 (sql_hp coll (view s) p - d)" using cs by simp
  show "sql_hp coll (view s') q = (if q = p \<and> \<not> isl r then max 0 (sql_hp coll (view s) p - d) else sql_hp coll (view s) q)"
  proof (cases r)
    case (Inl err)
    with cs show ?thesis by simp
  next
    case (Inr h)
    moreover have "coll q = coll p \<longleftrightarrow> q = p" using inj by (auto dest: inj_onD)
    ultimately show ?thesis using cs by (auto simp: sql_hp_def)
  qed
qed

text \<open>MySQL keeps the contract of a repository of hit points, so what was shown of the queue holds on it.\<close>

lemma mysql_damage_store:
  assumes laws: "sql_laws coll ts D view pend" and inj: "inj_on coll ids"
  shows "damage_store (mysql_ApplyDamageNaive D) (\<lambda>s. sql_hp coll (view s)) (\<lambda>s. sql_hp_ok coll ids (view s)) ids"
proof
  fix s p d r s'
  assume ok: "sql_hp_ok coll ids (view s)" and p: "p \<in> ids" and d: "damage_ok d"
    and call: "mysql_ApplyDamageNaive D p d s = (r, s')"
  note hit = mysql_hit [OF laws inj p _ d call]
  show "sql_hp coll (view s') q = (if q = p \<and> \<not> isl r then max 0 (sql_hp coll (view s) p - d) else sql_hp coll (view s) q)"
    if "q \<in> ids" for q using hit(1) [OF that] .
  show "sql_hp_ok coll ids (view s')" using ok hit(1) by (simp add: sql_hp_ok_def)
next
  fix s p d h s'
  assume p: "p \<in> ids" and d: "damage_ok d" and call: "mysql_ApplyDamageNaive D p d s = (Inr h, s')"
  show "h = max 0 (sql_hp coll (view s) p - d)" by (rule mysql_hit(2) [OF laws inj p p d call refl])
qed (simp add: sql_hp_ok_def)

text \<open>
  C3: the queue on MySQL. On every database with the documented behaviour, whatever statements, transactions or
  commits fail, in every interleaving of callers, workers and expiring contexts, for players that the collation
  tells apart: every request that was sent is applied once and in order, or in the worker's hands, or still queued;
  and the stored hit points are the initial ones minus the damage of exactly the requests the worker answered with a
  number, but not below zero, where the k-th of these was answered with the points left after the first k.
\<close>

theorem mysql_queue_serialises:
  assumes "sql_laws coll ts D view pend" "inj_on coll ids" "sql_hp_ok coll ids (view s0)"
    and "v2_reachable (mysql_ApplyDamageNaive D) (NewV2UserQueue s0) st" "targets ids st" "p \<in> ids"
  shows "v2_sent st p = map fst (v2_applied st p) @ inflight (v2_workers st p) @ v2_queue st p
    \<and> distinct (v2_sent st p) \<and> length (v2_queue st p) \<le> 64
    \<and> sql_hp coll (view (v2_repo st)) p = max 0 (sql_hp coll (view s0) p - sum_list (landed_damages st p))
    \<and> map snd (landed st p) =
        map (\<lambda>k. Inr (max 0 (sql_hp coll (view s0) p - sum_list (take (Suc k) (landed_damages st p)))))
          [0..<length (landed_damages st p)]"
proof -
  note store = mysql_damage_store [OF assms(1,2)]
  have inv: "v2_inv st" by (rule v2_inv_reachable [OF assms(4) v2_inv_New])
  have "hp_follows (sql_hp coll (view s0) p) (sql_hp coll (view (v2_repo st)) p) (map snd (landed st p)) (landed_damages st p)"
    using damage_store.store_inv_reachable [OF store assms(4,3,5)] assms(6)
    by (simp add: damage_store.store_inv_def [OF store])
  with v2_invD(1,2,3) [OF inv, of p] show ?thesis
    unfolding fifo_def sent_ok_def worker_ok_def hp_follows_def QueueCapacity_def by blast
qed

theorem mysql_queue_serialises_witness:
  "\<exists>st. v2_run (mysql_ApplyDamageNaive (ref_db id id))
      [Call 1 ''a'' 4000, Call 2 ''a'' 7000, Send 2, Send 1, Take ''a'', ApplyHit ''a'', AwaitTimeout 2, Reply ''a'',
       Take ''a'', ApplyHit ''a''] (NewV2UserQueue (\<lambda>_. [], \<lambda>_. [], ())) = Some st
    \<and> landed_damages st ''a'' = [7000, 4000] \<and> sql_hp id (ref_view id (v2_repo st)) ''a'' = 0
    \<and> map snd (landed st ''a'') = [Inr 3000, Inr 0]"
proof -
  let ?as = "[Call 1 ''a'' 4000, Call 2 ''a'' 7000, Send 2, Send 1, Take ''a'', ApplyHit ''a'', AwaitTimeout 2,
      Reply ''a'', Take ''a'', ApplyHit ''a'']"
  let ?s = "(\<lambda>_. [], \<lambda>_. [], ()) :: tables \<times> tables \<times> unit"
  let ?run = "v2_run (mysql_ApplyDamageNaive (ref_db id id)) ?as (NewV2UserQueue ?s)"
  have "(case ?run of None \<Rightarrow> False | Some st \<Rightarrow> landed_damages st ''a'' = [7000, 4000])" by code_simp
  then obtain st where st: "?run = Some st" "landed_damages st ''a'' = [7000, 4000]"
    by (auto split: option.splits)
  have tgt: "targets UNIV st" by (simp add: targets_def)
  have hp: "sql_hp id (ref_view id ?s) p = 10000" for p
    by (simp add: sql_hp_def hp_map_def ref_view_def clean_def battle_consts)
  then have ok: "sql_hp_ok id UNIV (ref_view id ?s)" by (simp add: sql_hp_ok_def)
  have inj: "inj_on id (UNIV :: string set)" by simp
  from mysql_queue_serialises [OF ref_db_laws [of id id] inj ok v2_run_reachable [OF st(1)] tgt, of "''a''"] hp [of "''a''"]
  have res: "sql_hp id (ref_view id (v2_repo st)) ''a'' = 0"
    "map snd (landed st ''a'') = [Inr 3000, Inr 0]"
    unfolding st(2) by (simp_all add: upt_rec id_def)
  show ?thesis by (intro exI [of _ st] conjI st res)
qed

end
