(* ===== verification/Battle_Bench.thy ===== *)
theory Battle_Bench
  imports Mysql_Battle Go_Float
begin

text \<open>
  \<open>cmd/battlebench\<close>: a program that resets the hit points of one player, lets \<open>n\<close> goroutines hit that player at
  the same time through an implementation of \<open>Applier\<close>, and reports counts, latencies and the hit points that are
  left. The goroutines and what happens inside of the applier interleave freely; a run is a sequence of their
  steps. A clock reading is part of the step that makes it. The printed lines are modelled by the values they show.
\<close>

section \<open>Appliers as processes\<close>

text \<open>
  The interface \<open>Applier\<close>: goroutine \<open>i\<close> enters \<open>Apply\<close>, the applier makes steps of its own, and at some point
  the call of \<open>i\<close> has an answer.
\<close>

record ('s, 'a) applier =
  ap_Apply :: "nat \<Rightarrow> string \<Rightarrow> int \<Rightarrow> 's \<Rightarrow> 's option"
  ap_step :: "'a \<Rightarrow> 's \<Rightarrow> 's option"
  ap_return :: "nat \<Rightarrow> 's \<Rightarrow> int result option"

text \<open>\<open>V1Naive\<close>: the one step of a call is its repository call.\<close>

datatype v1_call = V1Calling string int | V1Returned "int result"

record 's v1_state =
  v1_repo :: 's
  v1_calls :: "nat \<Rightarrow> v1_call option"

definition NewV1Naive :: "'s \<Rightarrow> 's v1_state" where
  "NewV1Naive repo = \<lparr>v1_repo = repo, v1_calls = (\<lambda>_. None)\<rparr>"

definition v1_enter :: "nat \<Rightarrow> string \<Rightarrow> int \<Rightarrow> 's v1_state \<Rightarrow> 's v1_state option" where
  "v1_enter i playerID damage st =
     (case v1_calls st i of
        None \<Rightarrow> Some (st\<lparr>v1_calls := (v1_calls st)(i \<mapsto> V1Calling playerID damage)\<rparr>)
      | Some _ \<Rightarrow> None)"

definition v1_step ::
  "(string \<Rightarrow> int \<Rightarrow> 's \<Rightarrow> int result \<times> 's) \<Rightarrow> nat \<Rightarrow> 's v1_state \<Rightarrow> 's v1_state option" where
  "v1_step applyDamage i st =
     (case v1_calls st i of
        Some (V1Calling playerID damage) \<Rightarrow>
          (let (r, repo) = V1Naive_Apply applyDamage playerID damage (v1_repo st)
           in Some (st\<lparr>v1_repo := repo, v1_calls := (v1_calls st)(i \<mapsto> V1Returned r)\<rparr>))
      | _ \<Rightarrow> None)"

definition v1_return :: "nat \<Rightarrow> 's v1_state \<Rightarrow> int result option" where
  "v1_return i st = (case v1_calls st i of Some (V1Returned r) \<Rightarrow> Some r | _ \<Rightarrow> None)"

definition v1_applier ::
  "(string \<Rightarrow> int \<Rightarrow> 's \<Rightarrow> int result \<times> 's) \<Rightarrow> ('s v1_state, nat) applier" where
  "v1_applier applyDamage = \<lparr>ap_Apply = v1_enter, ap_step = v1_step applyDamage, ap_return = v1_return\<rparr>"

text \<open>\<open>V2UserQueue\<close>: the steps are those of \<open>Battle_Queue\<close>; only a goroutine enters \<open>Apply\<close>.\<close>

definition v2_inner ::
  "(string \<Rightarrow> int \<Rightarrow> 's \<Rightarrow> int result \<times> 's) \<Rightarrow> action \<Rightarrow> 's v2_state \<Rightarrow> 's v2_state option" where
  "v2_inner applyDamage a st = (case a of Call _ _ _ \<Rightarrow> None | _ \<Rightarrow> v2_step applyDamage a st)"

definition v2_return :: "nat \<Rightarrow> 's v2_state \<Rightarrow> int result option" where
  "v2_return i st =
     (case v2_calls st i of
        Some c \<Rightarrow> (case qr_phase c of Returned r \<Rightarrow> Some r | _ \<Rightarrow> None)
      | None \<Rightarrow> None)"

definition v2_applier ::
  "(string \<Rightarrow> int \<Rightarrow> 's \<Rightarrow> int result \<times> 's) \<Rightarrow> ('s v2_state, action) applier" where
  "v2_applier applyDamage = \<lparr>ap_Apply = v2_call, ap_step = v2_inner applyDamage, ap_return = v2_return\<rparr>"

section \<open>The goroutines\<close>

text \<open>\<open>type result\<close>.\<close>

record bench_result =
  br_dur :: int
  br_err :: "go_error option"

datatype goroutine = NotStarted | Running int | Finished

record 's bench =
  bn_applier :: 's
  bn_go :: "nat \<Rightarrow> goroutine"
  bn_results :: "bench_result list"
  bn_ok :: int
  bn_fail :: int
  bn_wg :: nat

definition new_bench :: "nat \<Rightarrow> 's \<Rightarrow> 's bench" where
  "new_bench n s =
     \<lparr>bn_applier = s, bn_go = (\<lambda>_. NotStarted), bn_results = replicate n \<lparr>br_dur = 0, br_err = None\<rparr>,
      bn_ok = 0, bn_fail = 0, bn_wg = n\<rparr>"

text \<open>\<open>GoStart i t\<close>: goroutine \<open>i\<close> reads the clock and enters \<open>Apply\<close>. \<open>GoFinish i t\<close>: its call has returned.\<close>

datatype 'a bench_action = GoStart nat int | InApplier 'a | GoFinish nat int

definition go_start :: "('s, 'a) applier \<Rightarrow> string \<Rightarrow> int \<Rightarrow> nat \<Rightarrow> int \<Rightarrow> 's bench \<Rightarrow> 's bench option" where
  "go_start A target damage i t0 b =
     (if i < length (bn_results b) \<and> bn_go b i = NotStarted
      then case ap_Apply A i target damage (bn_applier b) of
             None \<Rightarrow> None
           | Some s \<Rightarrow> Some (b\<lparr>bn_applier := s, bn_go := (bn_go b)(i := Running t0)\<rparr>)
      else None)"

definition go_finish :: "('s, 'a) applier \<Rightarrow> nat \<Rightarrow> int \<Rightarrow> 's bench \<Rightarrow> 's bench option" where
  "go_finish A i t1 b =
     (case (bn_go b i, ap_return A i (bn_applier b)) of
        (Running t0, Some r) \<Rightarrow>
          (let err = (case r of Inl err \<Rightarrow> Some err | Inr _ \<Rightarrow> None);
               b = b\<lparr>bn_go := (bn_go b)(i := Finished), bn_wg := bn_wg b - 1,
                     bn_results := (bn_results b)[i := \<lparr>br_dur = int64 (t1 - t0), br_err = err\<rparr>]\<rparr>
           in Some (if err \<noteq> None then b\<lparr>bn_fail := int32 (bn_fail b + 1)\<rparr>
                    else b\<lparr>bn_ok := int32 (bn_ok b + 1)\<rparr>))
      | _ \<Rightarrow> None)"

fun bench_step :: "('s, 'a) applier \<Rightarrow> string \<Rightarrow> int \<Rightarrow> 'a bench_action \<Rightarrow> 's bench \<Rightarrow> 's bench option" where
  "bench_step A target damage (GoStart i t0) b = go_start A target damage i t0 b"
| "bench_step A target damage (InApplier a) b =
     map_option (\<lambda>s. b\<lparr>bn_applier := s\<rparr>) (ap_step A a (bn_applier b))"
| "bench_step A target damage (GoFinish i t1) b = go_finish A i t1 b"

fun bench_run :: "('s, 'a) applier \<Rightarrow> string \<Rightarrow> int \<Rightarrow> 'a bench_action list \<Rightarrow> 's bench \<Rightarrow> 's bench option" where
  "bench_run A target damage [] b = Some b"
| "bench_run A target damage (a # as) b =
     (case bench_step A target damage a b of None \<Rightarrow> None | Some b' \<Rightarrow> bench_run A target damage as b')"

section \<open>The summary\<close>

record summary =
  sm_total :: int
  sm_ok :: int
  sm_fail :: int
  sm_errs :: "(string, int) gomap"
  sm_p50 :: int
  sm_p95 :: int
  sm_p99 :: int
  sm_min :: int
  sm_max :: int
  sm_avg :: int
  sm_throughputRPS :: float64

text \<open>The loop over the results: the error messages are counted, the durations of the others collected.\<close>

fun collect :: "bench_result list \<Rightarrow> (string, int) gomap \<Rightarrow> int list \<Rightarrow> (string, int) gomap \<times> int list" where
  "collect [] errs durs = (errs, durs)"
| "collect (r # rs) errs durs =
     (case br_err r of
        Some err \<Rightarrow>
          (let msg = error_text err; cnt = (case map_of errs msg of None \<Rightarrow> 0 | Some c \<Rightarrow> c)
           in collect rs (AList.update msg (int64 (cnt + 1)) errs) durs)
      | None \<Rightarrow> collect rs errs (durs @ [br_dur r]))"

text \<open>Integer division truncates; an index outside of the slice panics.\<close>

definition go_quot :: "int \<Rightarrow> int \<Rightarrow> int" where
  "go_quot a b = int64 (sgn a * sgn b * (\<bar>a\<bar> div \<bar>b\<bar>))"

definition go_index :: "'a list \<Rightarrow> int \<Rightarrow> 'a option" where
  "go_index xs i = (if 0 \<le> i \<and> i < int (length xs) then Some (xs ! nat i) else None)"

definition percentile :: "int list \<Rightarrow> int \<Rightarrow> int option" where
  "percentile durs k = go_index durs (go_quot (int64 (int (length durs) * k)) 100)"

fun sum_durs :: "int list \<Rightarrow> int \<Rightarrow> int" where
  "sum_durs [] acc = acc"
| "sum_durs (d # ds) acc = sum_durs ds (int64 (acc + d))"

text \<open>\<open>None\<close> is the panic.\<close>

definition add_latencies :: "int list \<Rightarrow> summary \<Rightarrow> summary option" where
  "add_latencies durs s =
     (if durs = [] then Some s
      else let durs = sort_Slice (\<lambda>a b. a < b) durs
           in case (go_index durs 0, go_index durs (int (length durs) - 1),
                    percentile durs 50, percentile durs 95, percentile durs 99) of
                (Some mn, Some mx, Some p50, Some p95, Some p99) \<Rightarrow>
                  Some (s\<lparr>sm_min := mn, sm_max := mx, sm_p50 := p50, sm_p95 := p95, sm_p99 := p99,
                          sm_avg := go_quot (sum_durs durs 0) (int (length durs))\<rparr>)
              | _ \<Rightarrow> None)"

definition duration_Seconds :: "int \<Rightarrow> float64" where
  "duration_Seconds d =
     (let sec = go_quot d 1000000000; nsec = int64 (d - sec * 1000000000)
      in f64_add (f64_of_int sec) (f64_div (f64_of_int nsec) (f64_of_int 1000000000)))"

definition summarise :: "int \<Rightarrow> int \<Rightarrow> 's bench \<Rightarrow> summary option" where
  "summarise n elapsed b =
     (let (errs, durs) = collect (bn_results b) [] [];
          s = \<lparr>sm_total = n, sm_ok = bn_ok b, sm_fail = bn_fail b, sm_errs = errs, sm_p50 = 0, sm_p95 = 0, sm_p99 = 0,
               sm_min = 0, sm_max = 0, sm_avg = 0, sm_throughputRPS = Finite 0 0\<rparr>
      in map_option
           (\<lambda>s. if elapsed > 0
                then s\<lparr>sm_throughputRPS := f64_div (f64_of_int (sm_ok s)) (duration_Seconds elapsed)\<rparr> else s)
           (add_latencies durs s))"

text \<open>
  \<open>runBench\<close>: \<open>make\<close> panics for a negative length; \<open>wg.Wait\<close> returns when all goroutines are done. \<open>start\<close> and
  \<open>stop\<close> are the clock readings around the goroutines.
\<close>

datatype 'r bench_outcome = Panic | Waiting | Return 'r

definition runBench ::
  "('s, 'a) applier \<Rightarrow> string \<Rightarrow> int \<Rightarrow> int \<Rightarrow> int \<Rightarrow> 'a bench_action list \<Rightarrow> int \<Rightarrow> 's \<Rightarrow> (summary \<times> 's) bench_outcome" where
  "runBench A target n damage start as stop s =
     (if n < 0 then Panic
      else case bench_run A target damage as (new_bench (nat n) s) of
             None \<Rightarrow> Waiting
           | Some b \<Rightarrow>
               (if bn_wg b \<noteq> 0 then Waiting
                else case summarise n (int64 (stop - start)) b of
                       None \<Rightarrow> Panic
                     | Some sm \<Rightarrow> Return (sm, bn_applier b)))"

section \<open>The count of the goroutines\<close>

text \<open>The contract of an applier: an answer stays.\<close>

locale stable_applier =
  fixes A :: "('s, 'a) applier"
  assumes return_Apply: "ap_return A i s = Some r \<Longrightarrow> ap_Apply A j p d s = Some s' \<Longrightarrow> ap_return A i s' = Some r"
    and return_step: "ap_return A i s = Some r \<Longrightarrow> ap_step A a s = Some s' \<Longrightarrow> ap_return A i s' = Some r"

interpretation v1: stable_applier "v1_applier f" for f
  by unfold_locales
    (auto simp: v1_applier_def v1_enter_def v1_step_def v1_return_def split: option.splits v1_call.splits prod.splits if_splits)

lemma v2_return_iff: "v2_return i st = Some r \<longleftrightarrow> (\<exists>c. v2_calls st i = Some c \<and> qr_phase c = Returned r)"
  by (auto simp: v2_return_def split: option.splits phase.splits)

lemma v2_step_returned:
  assumes "v2_step f a st = Some st'" "v2_calls st i = Some c" "qr_phase c = Returned r"
  shows "\<exists>c'. v2_calls st' i = Some c' \<and> qr_phase c' = Returned r"
  using assms
  by (cases a) (auto simp: v2_call_def v2_send_def v2_send_timeout_def v2_receive_def v2_await_timeout_def
      worker_take_def worker_apply_def worker_reply_def Let_def
      split: if_splits option.splits worker.splits list.splits prod.splits)

lemma v2_inner_step: "v2_inner f a st = Some st' \<Longrightarrow> v2_step f a st = Some st'"
  by (simp add: v2_inner_def split: action.splits)

lemma v2_return_step: "v2_return i st = Some r \<Longrightarrow> v2_step f a st = Some st' \<Longrightarrow> v2_return i st' = Some r"
  unfolding v2_return_iff using v2_step_returned by metis

lemma v2_return_call: "v2_return i st = Some r \<Longrightarrow> v2_call j p d st = Some st' \<Longrightarrow> v2_return i st' = Some r"
  using v2_return_step [where a = "Call j p d"] by simp

interpretation v2: stable_applier "v2_applier f" for f
  by unfold_locales (auto simp: v2_applier_def intro: v2_return_call v2_return_step dest: v2_inner_step)

definition answer_error :: "int result \<Rightarrow> go_error option" where
  "answer_error r = (case r of Inl err \<Rightarrow> Some err | Inr _ \<Rightarrow> None)"

definition count_upto :: "nat \<Rightarrow> (nat \<Rightarrow> bool) \<Rightarrow> nat" where
  "count_upto n P = card {i. i < n \<and> P i}"

lemma count_upto_set:
  assumes "i < n" "P' i" "\<not> P i" "\<And>j. j \<noteq> i \<Longrightarrow> P' j = P j"
  shows "count_upto n P' = Suc (count_upto n P)"
proof -
  have "{j. j < n \<and> P' j} = insert i {j. j < n \<and> P j}"
    using assms by (auto; metis)
  then show ?thesis using assms(3) by (simp add: count_upto_def)
qed

lemma count_upto_cong: "(\<And>j. j < n \<Longrightarrow> P' j = P j) \<Longrightarrow> count_upto n P' = count_upto n P"
  unfolding count_upto_def by (rule arg_cong [where f = card]) auto

lemma count_upto_none: "count_upto n P = 0 \<longleftrightarrow> (\<forall>i<n. \<not> P i)"
  by (auto simp: count_upto_def)

lemma count_upto_split: "count_upto n P + count_upto n (\<lambda>i. \<not> P i) = n"
proof -
  have "card {i. i < n \<and> P i} + card {i. i < n \<and> \<not> P i} = card ({i. i < n \<and> P i} \<union> {i. i < n \<and> \<not> P i})"
    by (rule card_Un_disjoint [symmetric]) auto
  also have "{i. i < n \<and> P i} \<union> {i. i < n \<and> \<not> P i} = {..<n}" by auto
  finally show ?thesis by (simp add: count_upto_def)
qed

lemma count_upto_le: "count_upto n P \<le> n"
  using count_upto_split [of n P] by linarith

text \<open>What the counters count, after any steps.\<close>

definition finished_with :: "'s bench \<Rightarrow> (go_error option \<Rightarrow> bool) \<Rightarrow> nat \<Rightarrow> bool" where
  "finished_with b P i \<longleftrightarrow> bn_go b i = Finished \<and> P (br_err (bn_results b ! i))"

definition answers_ok :: "('s, 'a) applier \<Rightarrow> nat \<Rightarrow> 's bench \<Rightarrow> bool" where
  "answers_ok A n b \<longleftrightarrow> length (bn_results b) = n \<and> (\<forall>i. bn_go b i \<noteq> NotStarted \<longrightarrow> i < n) \<and>
     (\<forall>i. bn_go b i = Finished \<longrightarrow>
        (\<exists>r. ap_return A i (bn_applier b) = Some r \<and> br_err (bn_results b ! i) = answer_error r))"

definition counters_ok :: "nat \<Rightarrow> 's bench \<Rightarrow> bool" where
  "counters_ok n b \<longleftrightarrow> bn_wg b = count_upto n (\<lambda>i. bn_go b i \<noteq> Finished) \<and>
     bn_ok b = int (count_upto n (finished_with b (\<lambda>e. e = None))) \<and>
     bn_fail b = int (count_upto n (finished_with b (\<lambda>e. e \<noteq> None)))"

lemma bench_ok_New: "answers_ok A n (new_bench n s)" "counters_ok n (new_bench n s)"
proof -
  have "count_upto n (\<lambda>_. True) = n" using count_upto_split [of n "\<lambda>_. True"] by (simp add: count_upto_def)
  then show "counters_ok n (new_bench n s)"
    by (simp add: counters_ok_def new_bench_def finished_with_def count_upto_none [THEN iffD2])
qed (simp add: answers_ok_def new_bench_def)

lemma counters_start:
  assumes "counters_ok n b" "go_start A target damage i t0 b = Some b'"
  shows "counters_ok n b'"
proof -
  obtain s where b': "b' = b\<lparr>bn_applier := s, bn_go := (bn_go b)(i := Running t0)\<rparr>" and i: "bn_go b i = NotStarted"
    using assms(2) by (auto simp: go_start_def split: if_splits option.splits)
  have "finished_with b' P = finished_with b P" for P using i by (auto simp: b' finished_with_def fun_eq_iff)
  moreover have "(\<lambda>j. bn_go b' j \<noteq> Finished) = (\<lambda>j. bn_go b j \<noteq> Finished)" using i by (auto simp: b' fun_eq_iff)
  moreover have "bn_wg b' = bn_wg b" "bn_ok b' = bn_ok b" "bn_fail b' = bn_fail b" by (simp_all add: b')
  ultimately show ?thesis using assms(1) unfolding counters_ok_def by simp
qed

lemma go_finishE:
  assumes "go_finish A i t1 b = Some b'"
  obtains t0 r where "bn_go b i = Running t0" "ap_return A i (bn_applier b) = Some r"
    "bn_applier b' = bn_applier b" "bn_go b' = (bn_go b)(i := Finished)" "bn_wg b' = bn_wg b - 1"
    "bn_results b' = (bn_results b)[i := \<lparr>br_dur = int64 (t1 - t0), br_err = answer_error r\<rparr>]"
    "bn_ok b' = (if answer_error r = None then int32 (bn_ok b + 1) else bn_ok b)"
    "bn_fail b' = (if answer_error r = None then bn_fail b else int32 (bn_fail b + 1))"
proof -
  obtain t0 r where "bn_go b i = Running t0" "ap_return A i (bn_applier b) = Some r"
    using assms by (auto simp: go_finish_def split: goroutine.splits option.splits)
  with assms that [of t0 r] show thesis
    by (auto simp: go_finish_def answer_error_def Let_def split: sum.splits)
qed

lemma counters_finish:
  assumes inv: "counters_ok n b" "answers_ok A n b" "n < 2 ^ 31" and fin: "go_finish A i t1 b = Some b'"
  shows "counters_ok n b'"
  using fin
proof (rule go_finishE)
  fix t0 r
  assume go: "bn_go b i = Running t0" "bn_go b' = (bn_go b)(i := Finished)" "bn_wg b' = bn_wg b - 1"
    and res: "bn_results b' = (bn_results b)[i := \<lparr>br_dur = int64 (t1 - t0), br_err = answer_error r\<rparr>]"
    and cnt: "bn_ok b' = (if answer_error r = None then int32 (bn_ok b + 1) else bn_ok b)"
      "bn_fail b' = (if answer_error r = None then bn_fail b else int32 (bn_fail b + 1))"
  have i: "i < n" "length (bn_results b) = n" using inv(2) go(1) by (auto simp: answers_ok_def)
  have wg: "count_upto n (\<lambda>j. bn_go b j \<noteq> Finished) = Suc (count_upto n (\<lambda>j. bn_go b' j \<noteq> Finished))"
    using go(1) by (intro count_upto_set [OF i(1)]) (auto simp: go(2))
  have fw: "count_upto n (finished_with b' P) =
      (if P (answer_error r) then Suc (count_upto n (finished_with b P)) else count_upto n (finished_with b P))" for P
  proof (cases "P (answer_error r)")
    case True
    then show ?thesis
      using go(1) i by (simp, intro count_upto_set [OF i(1)]) (auto simp: finished_with_def go(2) res)
  next
    case False
    then show ?thesis
      using go(1) i by (simp, intro count_upto_cong) (auto simp: finished_with_def go(2) res nth_list_update)
  qed
  have "int32 (int (count_upto n P) + 1) = int (Suc (count_upto n P))" if "Suc (count_upto n P) \<le> n" for P
    using that inv(3) by (subst int32_id) (auto simp: in_int32_def)
  moreover have "count_upto n (finished_with b' P) \<le> n" for P by (rule count_upto_le)
  ultimately show ?thesis
    using inv(1) wg fw [of "\<lambda>e. e = None"] fw [of "\<lambda>e. e \<noteq> None"] go(3) cnt
    unfolding counters_ok_def by (smt (verit) diff_Suc_1)
qed

context stable_applier
begin

lemma answers_step:
  assumes inv: "answers_ok A n b" and step: "bench_step A target damage a b = Some b'"
  shows "answers_ok A n b'"
proof (cases a)
  case (GoStart i t0)
  with inv step show ?thesis
    by (fastforce simp: answers_ok_def go_start_def split: if_splits option.splits dest: return_Apply)
next
  case (InApplier x)
  with inv step show ?thesis
    by (fastforce simp: answers_ok_def dest: return_step)
next
  case (GoFinish i t1)
  with step have "go_finish A i t1 b = Some b'" by simp
  then show ?thesis
  proof (rule go_finishE)
    fix t0 r
    assume "bn_go b i = Running t0" "ap_return A i (bn_applier b) = Some r"
      "bn_applier b' = bn_applier b" "bn_go b' = (bn_go b)(i := Finished)"
      "bn_results b' = (bn_results b)[i := \<lparr>br_dur = int64 (t1 - t0), br_err = answer_error r\<rparr>]"
    with inv show ?thesis by (auto simp: answers_ok_def nth_list_update)
  qed
qed

lemma counters_step:
  assumes "counters_ok n b" "answers_ok A n b" "n < 2 ^ 31" "bench_step A target damage a b = Some b'"
  shows "counters_ok n b'"
proof (cases a)
  case (GoStart i t0)
  with assms show ?thesis by (auto intro: counters_start)
next
  case (InApplier x)
  with assms show ?thesis by (auto simp: counters_ok_def finished_with_def [abs_def])
next
  case (GoFinish i t1)
  with assms show ?thesis by (auto intro: counters_finish)
qed

lemma bench_run_ok:
  assumes "bench_run A target damage as b = Some b'" "counters_ok n b" "answers_ok A n b" "n < 2 ^ 31"
  shows "counters_ok n b' \<and> answers_ok A n b'"
  using assms
proof (induction as arbitrary: b)
  case (Cons a as)
  then obtain b1 where "bench_step A target damage a b = Some b1" "bench_run A target damage as b1 = Some b'"
    by (auto split: option.splits)
  with Cons answers_step counters_step show ?case by blast
qed simp

text \<open>When all goroutines are done, \<open>ok\<close> counts the calls that were answered with hit points.\<close>

lemma bench_complete:
  assumes "bench_run A target damage as (new_bench n s) = Some b" "bn_wg b = 0" "n < 2 ^ 31"
  shows "bn_ok b = int (count_upto n (\<lambda>i. \<exists>hp. ap_return A i (bn_applier b) = Some (Inr hp)))"
    and "bn_ok b + bn_fail b = int n" "length (bn_results b) = n"
    and "bn_ok b = int (count_upto n (\<lambda>i. br_err (bn_results b ! i) = None))"
    and "\<forall>i<n. ap_return A i (bn_applier b) \<noteq> None"
proof -
  have inv: "counters_ok n b" "answers_ok A n b"
    using bench_run_ok [OF assms(1) bench_ok_New(2,1) assms(3)] by auto
  have fin: "bn_go b i = Finished" if "i < n" for i
    using inv(1) assms(2) that by (auto simp: counters_ok_def count_upto_none)
  have ans: "\<exists>r. ap_return A i (bn_applier b) = Some r \<and> br_err (bn_results b ! i) = answer_error r" if "i < n" for i
    using inv(2) fin [OF that] by (simp add: answers_ok_def)
  then show "\<forall>i<n. ap_return A i (bn_applier b) \<noteq> None" by auto
  show "length (bn_results b) = n" using inv(2) by (simp add: answers_ok_def)
  have ok: "bn_ok b = int (count_upto n (finished_with b (\<lambda>e. e = None)))"
    and fail: "bn_fail b = int (count_upto n (finished_with b (\<lambda>e. e \<noteq> None)))"
    using inv(1) by (simp_all add: counters_ok_def)
  have "count_upto n (finished_with b P) = count_upto n (\<lambda>i. P (br_err (bn_results b ! i)))" for P
    using fin by (intro count_upto_cong) (simp add: finished_with_def)
  note fw = this
  show "bn_ok b = int (count_upto n (\<lambda>i. br_err (bn_results b ! i) = None))" using ok fw by simp
  also have "\<dots> = int (count_upto n (\<lambda>i. \<exists>hp. ap_return A i (bn_applier b) = Some (Inr hp)))"
    using ans by (intro arg_cong [where f = int] count_upto_cong) (fastforce simp: answer_error_def split: sum.splits)
  finally show "bn_ok b = int (count_upto n (\<lambda>i. \<exists>hp. ap_return A i (bn_applier b) = Some (Inr hp)))" .
  show "bn_ok b + bn_fail b = int n"
    using ok fail fw [of "\<lambda>e. e = None"] fw [of "\<lambda>e. e \<noteq> None"]
      count_upto_split [of n "\<lambda>i. br_err (bn_results b ! i) = None"] by simp
qed

end

section \<open>The statistics\<close>

definition measured :: "bench_result list \<Rightarrow> int list" where
  "measured rs = map br_dur (filter (\<lambda>r. br_err r = None) rs)"

lemma collect_durs: "snd (collect rs errs durs) = durs @ measured rs"
  by (induction rs errs durs rule: collect.induct) (auto simp: measured_def Let_def split: option.splits)

lemma sum_update:
  "sum_list (map snd (AList.update k ((case map_of m k of None \<Rightarrow> 0 | Some c \<Rightarrow> c) + 1) m)) = sum_list (map snd m) + (1::int)"
  by (induction m) auto

lemma collect_errs:
  assumes "\<forall>(k, v)\<in>set errs. 0 \<le> v \<and> v + int (length rs) < 2 ^ 63" "length rs < 2 ^ 63"
  shows "sum_list (map snd (fst (collect rs errs durs))) =
    sum_list (map snd errs) + int (length (filter (\<lambda>r. br_err r \<noteq> None) rs))"
  using assms
proof (induction rs errs durs rule: collect.induct)
  case (1 errs durs)
  then show ?case by simp
next
  case (2 r rs errs durs)
  show ?case
  proof (cases "br_err r")
    case None
    have "\<forall>(k, v)\<in>set errs. 0 \<le> v \<and> v + int (length rs) < 2 ^ 63" "length rs < 2 ^ 63"
      using "2.prems" by fastforce+
    with 2(1) [OF None] None show ?thesis by simp
  next
    case (Some err)
    let ?c = "case map_of errs (error_text err) of None \<Rightarrow> 0 | Some c \<Rightarrow> c"
    have c: "0 \<le> ?c" "?c + 1 + int (length rs) < 2 ^ 63"
      using "2.prems" by (auto split: option.splits dest: map_of_SomeD)
    then have i: "int64 (?c + 1) = ?c + 1" by (intro int64_small) auto
    have "\<forall>(k, v)\<in>set (AList.update (error_text err) (?c + 1) errs). 0 \<le> v \<and> v + int (length rs) < 2 ^ 63"
      using "2.prems"(1) c set_update_subset [of "error_text err" "?c + 1" errs] by fastforce
    with 2(2) [OF Some refl refl] "2.prems"(2) i Some sum_update [of "error_text err" errs]
    show ?thesis by (simp add: Let_def)
  qed
qed

lemma sort_Slice_less: "sort_Slice (\<lambda>a b. a < b) xs = sort (xs :: int list)"
proof -
  have "sorted_by (\<lambda>a b. a < b) (sort_Slice (\<lambda>a b. a < b) xs)" using key_less.sorted_by_sort_Slice [of "\<lambda>x. x" xs] .
  then have "sorted (sort_Slice (\<lambda>a b. a < b) xs)" by (simp add: sorted_by_def not_less)
  then show ?thesis by (intro properties_for_sort [symmetric]) simp_all
qed

lemma go_quot_pos: "0 \<le> a \<Longrightarrow> a < 2 ^ 63 \<Longrightarrow> 0 < b \<Longrightarrow> go_quot a b = a div b"
proof -
  assume a: "0 \<le> a" "a < 2 ^ 63" "0 < b"
  then have "0 \<le> a div b" by (simp add: pos_imp_zdiv_nonneg_iff)
  moreover have "a div b \<le> a" using a div_le_dividend [of "nat a" "nat b"] by (simp add: nat_div_distrib [symmetric])
  ultimately show ?thesis using a by (auto simp: go_quot_def sgn_if int64_small)
qed

lemma percentile_index: "k < 100 \<Longrightarrow> 0 < n \<Longrightarrow> n * k div 100 < (n :: nat)"
  by (rule div_less_iff_less_mult [THEN iffD2]) simp_all

lemma percentile_eq:
  assumes "xs \<noteq> []" "length xs < 2 ^ 31" "k < (100 :: nat)"
  shows "percentile xs (int k) = Some (xs ! (length xs * k div 100))"
proof -
  have "length xs * k \<le> length xs * 100" using assms(3) by simp
  also have "\<dots> < 2 ^ 63" using assms(2) by simp
  finally have b: "int (length xs) * int k < 2 ^ 63" "0 \<le> int (length xs) * int k"
    by (simp_all flip: of_nat_mult)
  have "- 9223372036854775808 \<le> int (length xs) * int k" by (rule order_trans [OF _ b(2)]) simp
  with b(1) have "int64 (int (length xs) * int k) = int (length xs) * int k" by (intro int64_small) auto
  then have "go_quot (int64 (int (length xs) * int k)) 100 = int (length xs * k div 100)"
    using b by (simp add: go_quot_pos zdiv_int)
  with percentile_index [OF assms(3), of "length xs"] assms(1) show ?thesis
    by (simp add: percentile_def go_index_def)
qed

lemma sum_durs_eq:
  "0 \<le> acc \<Longrightarrow> \<forall>d\<in>set ds. 0 \<le> d \<Longrightarrow> acc + sum_list ds < 2 ^ 63 \<Longrightarrow> sum_durs ds acc = acc + sum_list ds"
proof (induction ds acc rule: sum_durs.induct)
  case (2 d ds acc)
  have "0 \<le> sum_list ds" using "2.prems"(2) by (intro sum_list_nonneg) simp
  with "2.prems" have "int64 (acc + d) = acc + d" by (intro int64_small) auto
  with 2 show ?case by simp
qed simp

lemma avg_between:
  fixes ds :: "int list"
  assumes "ds \<noteq> []" "sorted ds"
  shows "hd ds \<le> sum_list ds div int (length ds)" "sum_list ds div int (length ds) \<le> last ds"
proof -
  have n: "0 < int (length ds)" using assms(1) by simp
  have "\<forall>d\<in>set ds. hd ds \<le> d" using assms by (cases ds) auto
  then have "hd ds * int (length ds) \<le> sum_list ds"
    using sum_list_mono [of ds "\<lambda>_. hd ds" "\<lambda>d. d"] by (auto simp: sum_list_triv mult.commute)
  with n show "hd ds \<le> sum_list ds div int (length ds)"
    by (metis nonzero_mult_div_cancel_right order_less_irrefl zdiv_mono1)
  have "\<forall>d\<in>set ds. d \<le> last ds"
    using assms by (auto simp: in_set_conv_nth last_conv_nth intro!: sorted_nth_mono)
  then have "sum_list ds \<le> last ds * int (length ds)"
    using sum_list_mono [of ds "\<lambda>d. d" "\<lambda>_. last ds"] by (auto simp: sum_list_triv mult.commute)
  with n show "sum_list ds div int (length ds) \<le> last ds"
    by (metis nonzero_mult_div_cancel_right order_less_irrefl zdiv_mono1)
qed

lemma sorted_ends:
  assumes "sorted xs" "xs \<noteq> []"
  shows "hd xs = Min (set xs)" "last xs = Max (set xs)"
proof -
  show "hd xs = Min (set xs)" using assms by (cases xs) (auto intro!: Min_eqI [symmetric])
  have "d \<le> last xs" if "d \<in> set xs" for d
    using that assms by (auto simp: in_set_conv_nth last_conv_nth intro!: sorted_nth_mono)
  with assms(2) show "last xs = Max (set xs)" by (auto intro!: Max_eqI [symmetric])
qed

lemma add_latencies_eq:
  assumes ne: "ds \<noteq> []" and len: "length ds < 2 ^ 31"
  shows "\<exists>avg. add_latencies ds s = Some (s\<lparr>sm_min := Min (set ds), sm_max := Max (set ds),
      sm_p50 := sort ds ! (length ds * 50 div 100), sm_p95 := sort ds ! (length ds * 95 div 100),
      sm_p99 := sort ds ! (length ds * 99 div 100), sm_avg := avg\<rparr>)
    \<and> ((\<forall>d\<in>set ds. 0 \<le> d) \<and> sum_list ds < 2 ^ 63 \<longrightarrow> Min (set ds) \<le> avg \<and> avg \<le> Max (set ds))"
proof -
  let ?xs = "sort ds"
  have xs: "?xs \<noteq> []" "length ?xs = length ds" "set ?xs = set ds" "sorted ?xs"
    using ne set_empty [of "sort ds"] by (simp_all add: set_empty [symmetric] del: set_empty)
  note mn = sorted_ends(1) [OF xs(4,1), unfolded xs(3)] and mx = sorted_ends(2) [OF xs(4,1), unfolded xs(3)]
  have "nat (int (length ds) - 1) = length ds - 1" by simp
  then have idx: "go_index ?xs 0 = Some (hd ?xs)" "go_index ?xs (int (length ?xs) - 1) = Some (last ?xs)"
    using ne by (auto simp: go_index_def hd_conv_nth last_conv_nth nat_diff_distrib xs(1))
  note p = percentile_eq [of ?xs, unfolded xs(2), OF xs(1) len]
  have pk: "percentile ?xs 50 = Some (?xs ! (length ds * 50 div 100))" "percentile ?xs 95 = Some (?xs ! (length ds * 95 div 100))"
    "percentile ?xs 99 = Some (?xs ! (length ds * 99 div 100))"
    using p [of 50] p [of 95] p [of 99] by simp_all
  have avg: "Min (set ds) \<le> go_quot (sum_durs ?xs 0) (int (length ds)) \<and> go_quot (sum_durs ?xs 0) (int (length ds)) \<le> Max (set ds)"
    if nn: "\<forall>d\<in>set ds. 0 \<le> d" "sum_list ds < 2 ^ 63"
  proof -
    have sum: "sum_list ?xs = sum_list ds" by (metis mset_sort sum_mset_sum_list)
    have "sum_durs ?xs 0 = sum_list ds" using nn sum by (subst sum_durs_eq) auto
    moreover have "0 \<le> sum_list ds" using nn(1) by (intro sum_list_nonneg) simp
    ultimately have "go_quot (sum_durs ?xs 0) (int (length ds)) = sum_list ds div int (length ds)"
      using ne nn(2) by (simp add: go_quot_pos)
    with avg_between [OF xs(1,4)] show ?thesis by (simp add: sum mn mx)
  qed
  show ?thesis
    using avg ne idx pk by (auto simp: add_latencies_def sort_Slice_less mn mx Let_def)
qed

lemma percentiles_sorted:
  fixes ds :: "int list"
  assumes "ds \<noteq> []"
  shows "Min (set ds) \<le> sort ds ! (length ds * 50 div 100)"
    "sort ds ! (length ds * 50 div 100) \<le> sort ds ! (length ds * 95 div 100)"
    "sort ds ! (length ds * 95 div 100) \<le> sort ds ! (length ds * 99 div 100)"
    "sort ds ! (length ds * 99 div 100) \<le> Max (set ds)"
proof -
  have idx: "length ds * k div 100 < length (sort ds)" if "k < 100" for k
    using percentile_index [OF that, of "length ds"] assms by simp
  have mem: "sort ds ! (length ds * k div 100) \<in> set ds" if "k < 100" for k
    using nth_mem [OF idx [OF that]] by simp
  show "Min (set ds) \<le> sort ds ! (length ds * 50 div 100)" using mem [of 50] by simp
  show "sort ds ! (length ds * 99 div 100) \<le> Max (set ds)" using mem [of 99] by simp
  show "sort ds ! (length ds * 50 div 100) \<le> sort ds ! (length ds * 95 div 100)"
    using idx [of 95] by (intro sorted_nth_mono) (auto intro: div_le_mono)
  show "sort ds ! (length ds * 95 div 100) \<le> sort ds ! (length ds * 99 div 100)"
    using idx [of 99] by (intro sorted_nth_mono) (auto intro: div_le_mono)
qed

lemma count_upto_filter: "count_upto (length xs) (\<lambda>i. P (xs ! i)) = length (filter P xs)"
  by (simp add: count_upto_def length_filter_conv_card)

section \<open>The hit points after the run\<close>

text \<open>\<open>run\<close>, with the schedule of the goroutines, of the chosen applier, and of what it still does before \<open>Get\<close>.\<close>

record bench_flags =
  fl_dsn :: string
  fl_impl :: string
  fl_target :: string
  fl_n :: int
  fl_damage :: int
  fl_hp :: int

record 'a schedule =
  sc_start :: int
  sc_steps :: "'a bench_action list"
  sc_stop :: int
  sc_late :: "'a list"

text \<open>What the last line prints: \<open>final_hp\<close>, \<open>expected\<close> and \<open>delta\<close>.\<close>

record hp_line =
  hl_final :: int
  hl_expected :: int
  hl_delta :: int

definition hp_check :: "bench_flags \<Rightarrow> summary \<Rightarrow> int \<Rightarrow> hp_line" where
  "hp_check fl results finalHP =
     (let expected = int64 (fl_hp fl - int64 (fl_damage fl * sm_ok results))
      in \<lparr>hl_final = finalHP, hl_expected = expected, hl_delta = int64 (finalHP - expected)\<rparr>)"

fun run_late :: "('s, 'a) applier \<Rightarrow> 'a list \<Rightarrow> 's \<Rightarrow> 's option" where
  "run_late A [] s = Some s"
| "run_late A (a # as) s = (case ap_step A a s of None \<Rightarrow> None | Some s \<Rightarrow> run_late A as s)"

definition errNoDSN :: go_error where
  "errNoDSN = ErrorString
     (''MYSQL_DSN '' @ map char_of [236, 157, 180 :: nat] @ '' '' @
      map char_of [237, 149, 132, 236, 154, 148, 237, 149, 169, 235, 139, 136, 235, 139, 164 :: nat] @ ''. env '' @
      map char_of [235, 161, 156 :: nat] @ '' '' @
      map char_of [236, 132, 164, 236, 160, 149, 237, 149, 152, 234, 177, 176, 235, 130, 152 :: nat] @ '' -dsn '' @
      map char_of [237, 148, 140, 235, 158, 152, 234, 183, 184 :: nat] @ '' '' @ map char_of [236, 130, 172, 236, 154, 169 :: nat])"

text \<open>From \<open>Build\<close> to the end, for one applier on the database state \<open>s\<close>.\<close>

definition bench_with ::
  "('p, 'a) applier \<Rightarrow> ('s \<Rightarrow> 'p) \<Rightarrow> ('p \<Rightarrow> 's) \<Rightarrow> ('s, 't) sql_db \<Rightarrow> bench_flags \<Rightarrow> 'a schedule \<Rightarrow> 's \<Rightarrow>
     (summary \<times> hp_line option) bench_outcome" where
  "bench_with A new repo D fl sc s =
     (case runBench A (fl_target fl) (fl_n fl) (fl_damage fl) (sc_start sc) (sc_steps sc) (sc_stop sc) (new s) of
        Panic \<Rightarrow> Panic
      | Waiting \<Rightarrow> Waiting
      | Return (results, p) \<Rightarrow>
          (case run_late A (sc_late sc) p of
             None \<Rightarrow> Waiting
           | Some p \<Rightarrow>
               (case mysql_hp_Get D (fl_target fl) (repo p) of
                  (Inl err, _) \<Rightarrow> Return (results, None)
                | (Inr finalHP, _) \<Rightarrow> Return (results, Some (hp_check fl results (ph_HP finalHP))))))"

definition battlebench ::
  "('s, 't) sql_db \<Rightarrow> bench_flags \<Rightarrow> unit result \<Rightarrow> nat schedule \<Rightarrow> action schedule \<Rightarrow> 's \<Rightarrow>
     (summary \<times> hp_line option) result bench_outcome" where
  "battlebench D fl opened sc1 sc2 s =
     (if fl_dsn fl = '''' then Return (Inl errNoDSN)
      else case opened of
             Inl err \<Rightarrow> Return (Inl (Wrap ''mysql open'' err))
           | Inr _ \<Rightarrow>
               (case mysql_hp_Reset D (fl_target fl) (fl_hp fl) s of
                  (Inl err, s) \<Rightarrow> Return (Inl (Wrap ''reset target hp'' err))
                | (Inr _, s) \<Rightarrow>
                    map_bench_outcome Inr
                      (case Build (fl_impl fl) of
                         V1Naive \<Rightarrow> bench_with (v1_applier (mysql_ApplyDamageNaive D)) NewV1Naive v1_repo D fl sc1 s
                       | V2UserQueue \<Rightarrow> bench_with (v2_applier (mysql_ApplyDamageNaive D)) NewV2UserQueue v2_repo D fl sc2 s)))"

subsection \<open>The direct implementation\<close>

definition v1_landed :: "nat \<Rightarrow> 's v1_state \<Rightarrow> nat" where
  "v1_landed n st = count_upto n (\<lambda>i. \<exists>hp. v1_return i st = Some (Inr hp))"

definition v1_calls_ok :: "string \<Rightarrow> int \<Rightarrow> nat \<Rightarrow> 's v1_state \<Rightarrow> bool" where
  "v1_calls_ok target damage n st \<longleftrightarrow>
     (\<forall>i. (v1_calls st i \<noteq> None \<longrightarrow> i < n) \<and> (\<forall>p d. v1_calls st i = Some (V1Calling p d) \<longrightarrow> p = target \<and> d = damage))"

lemma v1_landed_enter:
  assumes "v1_enter i p d st = Some st'"
  shows "v1_landed n st' = v1_landed n st" "v1_repo st' = v1_repo st"
    and "v1_calls_ok p d n st \<Longrightarrow> i < n \<Longrightarrow> v1_calls_ok p d n st'"
proof -
  have st': "st' = st\<lparr>v1_calls := (v1_calls st)(i \<mapsto> V1Calling p d)\<rparr>" "v1_calls st i = None"
    using assms by (auto simp: v1_enter_def split: option.splits)
  then show "v1_landed n st' = v1_landed n st" unfolding v1_landed_def
    by (intro count_upto_cong) (auto simp: v1_return_def)
  show "v1_repo st' = v1_repo st" by (simp add: st'(1))
  show "v1_calls_ok p d n st \<Longrightarrow> i < n \<Longrightarrow> v1_calls_ok p d n st'" by (auto simp: v1_calls_ok_def st'(1))
qed

text \<open>Without a valid damage no call is answered.\<close>

definition v1_refusable :: "string \<Rightarrow> int \<Rightarrow> v1_call option \<Rightarrow> bool" where
  "v1_refusable target damage c \<longleftrightarrow> (\<forall>p d. c = Some (V1Calling p d) \<longrightarrow> p = target \<and> d = damage) \<and>
     (\<forall>hp. c \<noteq> Some (V1Returned (Inr hp)))"

lemma v1_refusable_simps [simp]:
  "v1_refusable target damage None" "v1_refusable target damage (Some (V1Calling target damage))"
  "v1_refusable target damage (Some (V1Returned (Inl err)))"
  by (simp_all add: v1_refusable_def)

lemma v1_refused:
  assumes "bench_run (v1_applier f) target damage as b = Some b'" "\<not> damage_ok damage"
    and "\<forall>i. v1_refusable target damage (v1_calls (bn_applier b) i)"
  shows "v1_return i (bn_applier b') \<noteq> Some (Inr left)"
  using assms
proof (induction as arbitrary: b)
  case Nil
  have "b' = b" using Nil.prems(1) by simp
  with Nil.prems(3) [rule_format, of i] show ?case
    by (auto simp: v1_return_def v1_refusable_def split: option.splits v1_call.splits)
next
  case (Cons a as)
  then obtain b1 where b1: "bench_step (v1_applier f) target damage a b = Some b1"
      "bench_run (v1_applier f) target damage as b1 = Some b'" by (auto split: option.splits)
  have "\<forall>i. v1_refusable target damage (v1_calls (bn_applier b1) i)"
  proof (cases a)
    case (GoStart i t0)
    with b1(1) Cons.prems(3) show ?thesis
      by (auto simp: go_start_def v1_applier_def v1_enter_def split: if_splits option.splits)
  next
    case (InApplier i)
    then obtain st where st: "v1_step f i (bn_applier b) = Some st" "bn_applier b1 = st" using b1(1) by (auto simp: v1_applier_def)
    then have "v1_calls (bn_applier b) i = Some (V1Calling target damage)"
      using Cons.prems(3) [rule_format, of i] by (auto simp: v1_step_def v1_refusable_def split: option.splits v1_call.splits)
    with st(1) Cons.prems(2)
    have "st = (bn_applier b)\<lparr>v1_calls := (v1_calls (bn_applier b))(i \<mapsto> V1Returned (Inl (Sentinel ErrInvalidDamage)))\<rparr>"
      by (auto simp: v1_step_def V1Naive_Apply_def damage_ok_def split: if_splits)
    with st(2) Cons.prems(3) show ?thesis by simp
  next
    case (GoFinish i t1)
    with b1(1) have "go_finish (v1_applier f) i t1 b = Some b1" by simp
    then show ?thesis using Cons.prems(3) by (auto elim: go_finishE)
  qed
  with Cons.IH [OF b1(2) Cons.prems(2)] show ?case by blast
qed

context damage_store
begin

definition v1_inv :: "int \<Rightarrow> string \<Rightarrow> int \<Rightarrow> nat \<Rightarrow> 's v1_state \<Rightarrow> bool" where
  "v1_inv h0 target damage n st \<longleftrightarrow> ok (v1_repo st) \<and> v1_calls_ok target damage n st \<and>
     hp (v1_repo st) target = max 0 (h0 - damage * int (v1_landed n st))"

lemma v1_inv_hit:
  assumes inv: "v1_inv h0 target damage n st" and t: "target \<in> ids" and step: "v1_step hit i st = Some st'"
  shows "v1_inv h0 target damage n st'"
proof -
  obtain p d where c0: "v1_calls st i = Some (V1Calling p d)"
    using step by (auto simp: v1_step_def split: option.splits v1_call.splits)
  then have pd: "p = target" "d = damage" using inv by (auto simp: v1_inv_def v1_calls_ok_def)
  note c = c0 [unfolded pd]
  obtain r repo where hit: "V1Naive_Apply hit target damage (v1_repo st) = (r, repo)" by (rule prod.exhaust)
  then have st': "st' = st\<lparr>v1_repo := repo, v1_calls := (v1_calls st)(i \<mapsto> V1Returned r)\<rparr>"
    using step c by (simp add: v1_step_def)
  have "v1_calls st i \<noteq> None" using c by simp
  then have i: "i < n" and ok: "ok (v1_repo st)" using inv unfolding v1_inv_def v1_calls_ok_def by blast+
  have calls: "v1_calls_ok target damage n st'" using inv i by (auto simp: v1_inv_def v1_calls_ok_def st')
  have ret: "v1_return j st' = (if j = i then Some r else v1_return j st)" for j by (simp add: v1_return_def st')
  have none: "v1_return i st = None" by (simp add: v1_return_def c)
  have h: "hp (v1_repo st) target = max 0 (h0 - damage * int (v1_landed n st))" using inv by (simp add: v1_inv_def)
  show ?thesis
  proof (cases "damage_ok damage")
    case False
    then have r: "r = Inl (Sentinel ErrInvalidDamage)" "repo = v1_repo st"
      using hit by (auto simp: V1Naive_Apply_def damage_ok_def split: if_splits)
    then have "v1_landed n st' = v1_landed n st" unfolding v1_landed_def
      using none by (intro count_upto_cong) (simp add: ret)
    with r h ok calls show ?thesis by (simp add: v1_inv_def) (simp add: st')
  next
    case True
    obtain x where x: "hit target damage (v1_repo st) = (x, repo)" "r = wrap_result ''apply damage naive'' x"
      using hit True by (auto simp: V1Naive_Apply_def damage_ok_def split: prod.splits)
    note law = hit_ok [OF ok t True x(1)] hit_hp [OF ok t True x(1) t]
    have isl: "isl x \<longleftrightarrow> isl r" by (simp add: x(2) wrap_result_def split: sum.splits)
    show ?thesis
    proof (cases r)
      case (Inl err)
      then have "v1_landed n st' = v1_landed n st" unfolding v1_landed_def
        using none by (intro count_upto_cong) (simp add: ret)
      with law isl Inl h calls show ?thesis by (simp add: v1_inv_def) (simp add: st')
    next
      case (Inr left)
      have "v1_landed n st' = Suc (v1_landed n st)" unfolding v1_landed_def
        using none Inr by (intro count_upto_set [OF i]) (auto simp: ret)
      moreover have "0 \<le> damage" using True by (simp add: damage_ok_def)
      ultimately show ?thesis
        using law isl Inr h calls max_0_fold [of damage h0 "damage * int (v1_landed n st)"]
        by (simp add: v1_inv_def algebra_simps) (simp add: st')
    qed
  qed
qed

lemma v1_inv_bench:
  assumes "bench_run (v1_applier hit) target damage as b = Some b'" "target \<in> ids"
    and "v1_inv h0 target damage n (bn_applier b)" "length (bn_results b) = n"
  shows "v1_inv h0 target damage n (bn_applier b') \<and> length (bn_results b') = n"
  using assms
proof (induction as arbitrary: b)
  case (Cons a as)
  then obtain b1 where b1: "bench_step (v1_applier hit) target damage a b = Some b1"
      "bench_run (v1_applier hit) target damage as b1 = Some b'" by (auto split: option.splits)
  have "v1_inv h0 target damage n (bn_applier b1) \<and> length (bn_results b1) = n"
  proof (cases a)
    case (GoStart i t0)
    then obtain st where st: "v1_enter i target damage (bn_applier b) = Some st" "bn_applier b1 = st" "i < n"
        "bn_results b1 = bn_results b"
      using b1(1) Cons.prems(4) by (auto simp: go_start_def v1_applier_def split: if_splits option.splits)
    then show ?thesis
      using Cons.prems(3,4) v1_landed_enter [OF st(1)] by (simp add: v1_inv_def)
  next
    case (InApplier x)
    then show ?thesis using b1(1) Cons.prems v1_inv_hit by (auto simp: v1_applier_def)
  next
    case (GoFinish i t1)
    with b1(1) have "go_finish (v1_applier hit) i t1 b = Some b1" by simp
    then show ?thesis using Cons.prems(3,4) by (auto elim: go_finishE)
  qed
  with Cons.IH [OF b1(2) Cons.prems(2)] show ?case by blast
qed simp

end

text \<open>When every call has returned, nothing is left to do.\<close>

lemma v1_no_late:
  assumes "run_late (v1_applier f) late st = Some st'" "v1_calls_ok target damage n st" "\<forall>i<n. v1_return i st \<noteq> None"
  shows "st' = st"
proof -
  have "v1_step f i st = None" for i
  proof (cases "i < n")
    case True
    then show ?thesis using assms(3) by (auto simp: v1_return_def v1_step_def split: option.splits v1_call.splits)
  next
    case False
    then have "v1_calls st i = None" using assms(2) by (auto simp: v1_calls_ok_def)
    then show ?thesis by (simp add: v1_step_def)
  qed
  with assms(1) show ?thesis by (cases late) (simp_all add: v1_applier_def)
qed

subsection \<open>The queue\<close>

text \<open>The applier of a run has the calls of the goroutines and no others.\<close>

definition v2_calls_ok :: "string \<Rightarrow> int \<Rightarrow> nat \<Rightarrow> 's v2_state \<Rightarrow> bool" where
  "v2_calls_ok target damage n st \<longleftrightarrow>
     (\<forall>i c. v2_calls st i = Some c \<longrightarrow> i < n \<and> qr_player c = target \<and> qr_damage c = damage)"

lemma v2_calls_ok_inner:
  assumes "v2_inner f a st = Some st'" "v2_calls_ok target damage n st"
  shows "v2_calls_ok target damage n st'"
  using assms
  by (cases a) (auto simp: v2_calls_ok_def v2_inner_def v2_send_def v2_send_timeout_def v2_receive_def v2_await_timeout_def
      worker_take_def worker_apply_def worker_reply_def Let_def
      split: if_splits option.splits worker.splits list.splits prod.splits)

lemma v2_calls_ok_call:
  "v2_call i target damage st = Some st' \<Longrightarrow> i < n \<Longrightarrow> v2_calls_ok target damage n st \<Longrightarrow> v2_calls_ok target damage n st'"
  by (auto simp: v2_calls_ok_def v2_call_def Let_def split: if_splits)

lemma v2_bench:
  assumes "bench_run (v2_applier f) target damage as b = Some b'" "length (bn_results b) = n"
    and "v2_reachable f s0 (bn_applier b)" "v2_calls_ok target damage n (bn_applier b)"
  shows "v2_reachable f s0 (bn_applier b') \<and> v2_calls_ok target damage n (bn_applier b')"
  using assms
proof (induction as arbitrary: b)
  case (Cons a as)
  then obtain b1 where b1: "bench_step (v2_applier f) target damage a b = Some b1"
      "bench_run (v2_applier f) target damage as b1 = Some b'" by (auto split: option.splits)
  have "length (bn_results b1) = n \<and> v2_reachable f s0 (bn_applier b1) \<and> v2_calls_ok target damage n (bn_applier b1)"
  proof (cases a)
    case (GoStart i t0)
    then obtain st where st: "v2_call i target damage (bn_applier b) = Some st" "bn_applier b1 = st" "i < n"
        "bn_results b1 = bn_results b"
      using b1(1) Cons.prems(2) by (auto simp: go_start_def v2_applier_def split: if_splits option.splits)
    have "v2_step f (Call i target damage) (bn_applier b) = Some st" using st(1) by simp
    then have "v2_reachable f s0 st" by (rule v2_next [OF Cons.prems(3)])
    with st Cons.prems(2) v2_calls_ok_call [OF st(1,3) Cons.prems(4)] show ?thesis by simp
  next
    case (InApplier x)
    then obtain st where st: "v2_inner f x (bn_applier b) = Some st" "b1 = b\<lparr>bn_applier := st\<rparr>"
      using b1(1) by (auto simp: v2_applier_def)
    with Cons.prems v2_calls_ok_inner [OF st(1)] show ?thesis
      by (auto intro: v2_next v2_inner_step)
  next
    case (GoFinish i t1)
    with b1(1) have "go_finish (v2_applier f) i t1 b = Some b1" by simp
    then show ?thesis using Cons.prems(2-4) by (auto elim: go_finishE)
  qed
  with Cons.IH [OF b1(2)] show ?case by blast
qed simp

lemma v2_late:
  assumes "run_late (v2_applier f) late st = Some st'" "v2_reachable f s0 st" "v2_calls_ok target damage n st"
  shows "v2_reachable f s0 st' \<and> v2_calls_ok target damage n st' \<and> (\<forall>i r. v2_return i st = Some r \<longrightarrow> v2_return i st' = Some r)"
  using assms
proof (induction late arbitrary: st)
  case (Cons a late)
  then obtain st1 where st1: "v2_inner f a st = Some st1" "run_late (v2_applier f) late st1 = Some st'"
    by (auto simp: v2_applier_def split: option.splits)
  have "v2_reachable f s0 st1" using Cons.prems(2) v2_inner_step [OF st1(1)] by (rule v2_next)
  with Cons.IH [OF st1(2)] v2_calls_ok_inner [OF st1(1) Cons.prems(3)] v2_return_step [OF _ v2_inner_step [OF st1(1)]]
  show ?case by blast
qed simp

text \<open>The answered calls are among those that landed, and the landed ones are among the goroutines.\<close>

lemma v2_landed_count:
  assumes inv: "v2_inv st" and calls: "v2_calls_ok target damage n st"
  shows "count_upto n (\<lambda>i. \<exists>hp. v2_return i st = Some (Inr hp)) \<le> length (landed st target)"
    and "length (landed st target) \<le> n"
    and "landed_damages st target = replicate (length (landed st target)) damage"
    and "\<not> damage_ok damage \<Longrightarrow> landed st target = []"
proof -
  let ?ids = "fst ` set (landed st target)"
  have "distinct (map fst (v2_applied st target))"
    using v2_invD(1,2) [OF inv, of target] by (auto simp: fifo_def sent_ok_def)
  then have d: "distinct (map fst (landed st target))" unfolding landed_def by (rule distinct_map_filter)
  then have card: "card ?ids = length (landed st target)" by (simp flip: set_map add: distinct_card)
  have mem: "\<exists>c. v2_calls st i = Some c \<and> damage_ok (qr_damage c)" if "(i, r) \<in> set (landed st target)" for i r
    using applied_call [OF inv, of i r target] that by (auto simp: landed_def)
  have "{i. i < n \<and> (\<exists>hp. v2_return i st = Some (Inr hp))} \<subseteq> ?ids"
  proof
    fix i assume "i \<in> {i. i < n \<and> (\<exists>hp. v2_return i st = Some (Inr hp))}"
    then obtain c hp where c: "v2_calls st i = Some c" "qr_phase c = Returned (Inr hp)" by (auto simp: v2_return_iff)
    then have "(i, Inr hp) \<in> set (v2_applied st target)"
      using v2_invD(4) [OF inv c(1)] calls by (auto simp: call_ok_def v2_calls_ok_def)
    then show "i \<in> ?ids" by (force simp: landed_def)
  qed
  then show "count_upto n (\<lambda>i. \<exists>hp. v2_return i st = Some (Inr hp)) \<le> length (landed st target)"
    unfolding count_upto_def card [symmetric] by (intro card_mono) auto
  have "?ids \<subseteq> {..<n}" using mem calls by (fastforce simp: v2_calls_ok_def)
  then show "length (landed st target) \<le> n" using card_mono [of "{..<n}" ?ids] card by simp
  show "landed_damages st target = replicate (length (landed st target)) damage"
    unfolding landed_damages_def
  proof (rule replicate_eqI)
    fix y assume "y \<in> set (map (\<lambda>(i, r). qr_damage (the (v2_calls st i))) (landed st target))"
    then obtain i r where "(i, r) \<in> set (landed st target)" "y = qr_damage (the (v2_calls st i))" by auto
    with mem calls show "y = damage" by (fastforce simp: v2_calls_ok_def)
  qed simp
  show "\<not> damage_ok damage \<Longrightarrow> landed st target = []"
    using mem calls by (cases "landed st target") (fastforce simp: v2_calls_ok_def)+
qed

subsection \<open>Both, on any repository with the contract\<close>

text \<open>
  \<open>h\<close> are the points left of \<open>h0\<close> after \<open>k\<close> of \<open>n\<close> calls were answered: exactly those are missing, or, where
  failed calls may have landed, at least those.
\<close>

definition accounts :: "bool \<Rightarrow> int \<Rightarrow> int \<Rightarrow> nat \<Rightarrow> int \<Rightarrow> int \<Rightarrow> bool" where
  "accounts exact h0 damage n k h \<longleftrightarrow> h \<le> max 0 (h0 - damage * k) \<and>
     (exact \<or> k = int n \<longrightarrow> h = max 0 (h0 - damage * k)) \<and> (damage_ok damage \<or> k = 0)"

context damage_store
begin

lemma v1_accounts:
  assumes run: "bench_run (v1_applier hit) target damage as (new_bench n (NewV1Naive s)) = Some b" "bn_wg b = 0" "n < 2 ^ 31"
    and late: "run_late (v1_applier hit) late (bn_applier b) = Some st" and s: "ok s" "target \<in> ids"
  shows "accounts True (hp s target) damage n (bn_ok b) (hp (v1_repo st) target)"
proof -
  have "v1_landed n (NewV1Naive s) = 0" by (simp add: v1_landed_def NewV1Naive_def v1_return_def count_upto_none)
  then have "v1_inv (hp s target) target damage n (NewV1Naive s)"
    using s hp_nonneg [OF s] by (simp add: v1_inv_def v1_calls_ok_def) (simp add: NewV1Naive_def)
  then have inv: "v1_inv (hp s target) target damage n (bn_applier b)"
    using v1_inv_bench [OF run(1) s(2)] by (simp add: new_bench_def)
  note fin = v1.bench_complete [OF run]
  have ret: "ap_return (v1_applier hit) = v1_return" by (simp add: v1_applier_def)
  have st: "st = bn_applier b" using inv fin(5) by (intro v1_no_late [OF late]) (auto simp: v1_inv_def ret)
  have ok: "bn_ok b = int (v1_landed n st)" using fin(1) by (simp add: v1_landed_def ret st)
  have bad: "damage_ok damage \<or> v1_landed n st = 0"
    using v1_refused [OF run(1)] by (auto simp: v1_landed_def count_upto_none st new_bench_def NewV1Naive_def v1_return_def)
  show ?thesis using inv ok bad st by (auto simp: accounts_def v1_inv_def)
qed

lemma v2_accounts:
  assumes run: "bench_run (v2_applier hit) target damage as (new_bench n (NewV2UserQueue s)) = Some b" "bn_wg b = 0" "n < 2 ^ 31"
    and late: "run_late (v2_applier hit) late (bn_applier b) = Some st" and s: "ok s" "target \<in> ids"
  shows "accounts False (hp s target) damage n (bn_ok b) (hp (v2_repo st) target)"
proof -
  have "v2_calls_ok target damage n (NewV2UserQueue s)" by (simp add: v2_calls_ok_def NewV2UserQueue_def)
  then have b: "v2_reachable hit (NewV2UserQueue s) (bn_applier b)" "v2_calls_ok target damage n (bn_applier b)"
    using v2_bench [OF run(1), of n] by (auto simp: new_bench_def intro: v2_start)
  from v2_late [OF late b] have st: "v2_reachable hit (NewV2UserQueue s) st" "v2_calls_ok target damage n st"
    and keep: "\<forall>i r. v2_return i (bn_applier b) = Some r \<longrightarrow> v2_return i st = Some r" by blast+
  have inv: "v2_inv st" by (rule v2_inv_reachable [OF st(1) v2_inv_New])
  have "targets ids st" using st(2) s(2) by (auto simp: targets_def v2_calls_ok_def)
  from store_inv_reachable [OF st(1) s(1) this] s(2)
  have h: "hp (v2_repo st) target = max 0 (hp s target - damage * int (length (landed st target)))"
    by (simp add: store_inv_def hp_follows_def v2_landed_count(3) [OF inv st(2)] sum_list_replicate mult.commute)
  note fin = v2.bench_complete [OF run]
  have ret: "ap_return (v2_applier hit) = v2_return" by (simp add: v2_applier_def)
  have "{i. i < n \<and> (\<exists>hp. v2_return i (bn_applier b) = Some (Inr hp))} \<subseteq> {i. i < n \<and> (\<exists>hp. v2_return i st = Some (Inr hp))}"
    using keep by blast
  then have "count_upto n (\<lambda>i. \<exists>hp. v2_return i (bn_applier b) = Some (Inr hp)) \<le> count_upto n (\<lambda>i. \<exists>hp. v2_return i st = Some (Inr hp))"
    unfolding count_upto_def by (intro card_mono) auto
  then have le: "bn_ok b \<le> int (length (landed st target))" "int (length (landed st target)) \<le> int n"
    using v2_landed_count(1,2) [OF inv st(2)] fin(1) by (auto simp: ret)
  have ok0: "0 \<le> bn_ok b" using fin(1) by simp
  show ?thesis
  proof (cases "damage_ok damage")
    case True
    then have "damage * bn_ok b \<le> damage * int (length (landed st target))"
      using le(1) by (intro mult_left_mono) (auto simp: damage_ok_def)
    with True h le show ?thesis by (auto simp: accounts_def)
  next
    case False
    with v2_landed_count(4) [OF inv st(2)] le(1) ok0 h show ?thesis by (simp add: accounts_def)
  qed
qed

end

section \<open>Properties\<close>

text \<open>
  The summary is right. For every implementation of \<open>Applier\<close> whose answers stay, and every schedule in which
  all of fewer than \<open>2^31\<close> goroutines finish, \<open>runBench\<close> returns without an index out of range; \<open>ok\<close> is the number
  of calls that were answered with hit points, \<open>ok\<close> and \<open>fail\<close> add up to the number of goroutines, and the error
  breakdown adds up to \<open>fail\<close>. With a success, minimum, maximum and the percentiles are those of the sorted
  durations of the successful calls, in increasing order, and the average lies between minimum and maximum unless
  the sum of the durations overflows.
\<close>

theorem bench_summary:
  assumes "stable_applier A" "n < 2 ^ 31" "bench_run A target damage as (new_bench n s) = Some b" "bn_wg b = 0"
    and "ds = measured (bn_results b)"
  shows "\<exists>sm. runBench A target (int n) damage start as stop s = Return (sm, bn_applier b)
    \<and> sm_total sm = int n \<and> sm_ok sm = int (length ds)
    \<and> sm_ok sm = int (count_upto n (\<lambda>i. \<exists>hp. ap_return A i (bn_applier b) = Some (Inr hp)))
    \<and> sm_ok sm + sm_fail sm = int n \<and> sum_list (map snd (sm_errs sm)) = sm_fail sm
    \<and> (ds \<noteq> [] \<longrightarrow> sm_min sm = Min (set ds) \<and> sm_max sm = Max (set ds)
         \<and> sm_p50 sm = sort ds ! (length ds * 50 div 100) \<and> sm_p95 sm = sort ds ! (length ds * 95 div 100)
         \<and> sm_p99 sm = sort ds ! (length ds * 99 div 100)
         \<and> sm_min sm \<le> sm_p50 sm \<and> sm_p50 sm \<le> sm_p95 sm \<and> sm_p95 sm \<le> sm_p99 sm \<and> sm_p99 sm \<le> sm_max sm
         \<and> ((\<forall>d\<in>set ds. 0 \<le> d) \<and> sum_list ds < 2 ^ 63 \<longrightarrow> sm_min sm \<le> sm_avg sm \<and> sm_avg sm \<le> sm_max sm))"
proof -
  note fin = stable_applier.bench_complete [OF assms(1,3,4,2)]
  have cnt: "bn_ok b = int (length ds)"
    using fin(3,4) count_upto_filter [of "bn_results b" "\<lambda>r. br_err r = None"] by (simp add: assms(5) measured_def)
  have len: "length ds < 2 ^ 31" using assms(2) fin(3) by (simp add: assms(5) measured_def le_less_trans [OF length_filter_le])
  let ?s0 = "\<lparr>sm_total = int n, sm_ok = bn_ok b, sm_fail = bn_fail b, sm_errs = fst (collect (bn_results b) [] []),
      sm_p50 = 0, sm_p95 = 0, sm_p99 = 0, sm_min = 0, sm_max = 0, sm_avg = 0, sm_throughputRPS = Finite 0 0\<rparr>"
  have sum: "summarise (int n) (int64 (stop - start)) b = map_option
      (\<lambda>s. if int64 (stop - start) > 0 then s\<lparr>sm_throughputRPS := f64_div (f64_of_int (sm_ok s)) (duration_Seconds (int64 (stop - start)))\<rparr> else s)
      (add_latencies ds ?s0)"
    using collect_durs [of "bn_results b" "[]" "[]"] by (simp add: summarise_def case_prod_unfold assms(5))
  have "sum_list (map snd (fst (collect (bn_results b) [] []))) = int (length (filter (\<lambda>r. br_err r \<noteq> None) (bn_results b)))"
    using collect_errs [of "[]" "bn_results b" "[]"] fin(3) assms(2) by simp
  also have "\<dots> = bn_fail b"
    using length_filter_split [of "\<lambda>r. br_err r = None" "bn_results b"] fin(2,3) cnt by (simp add: assms(5) measured_def)
  finally have errs: "sum_list (map snd (fst (collect (bn_results b) [] []))) = bn_fail b" .
  have run: "runBench A target (int n) damage start as stop s =
      (case summarise (int n) (int64 (stop - start)) b of None \<Rightarrow> Panic | Some sm \<Rightarrow> Return (sm, bn_applier b))"
    using assms(3,4) by (simp add: runBench_def)
  show ?thesis
  proof (cases "ds = []")
    case True
    then show ?thesis using fin(1,2) cnt errs by (simp add: run sum add_latencies_def)
  next
    case False
    from add_latencies_eq [OF False len, of ?s0] show ?thesis
      using fin(1,2) cnt errs percentiles_sorted [OF False] by (elim exE conjE) (simp add: run sum)
  qed
qed

theorem bench_summary_witness:
  "\<exists>b. bench_run (v1_applier inmem_ApplyDamageNaive) ''boss'' 10
      [GoStart 0 100, GoStart 1 100, InApplier 1, InApplier 0, GoFinish 0 150, GoFinish 1 130] (new_bench 2 (NewV1Naive NewBattleRepo)) = Some b
    \<and> measured (bn_results b) = [50, 30]
    \<and> (\<exists>sm. runBench (v1_applier inmem_ApplyDamageNaive) ''boss'' 2 10 90
        [GoStart 0 100, GoStart 1 100, InApplier 1, InApplier 0, GoFinish 0 150, GoFinish 1 130] 160 (NewV1Naive NewBattleRepo) =
          Return (sm, bn_applier b) \<and> sm_ok sm = 2 \<and> sm_fail sm = 0 \<and> sm_min sm = 30 \<and> sm_p50 sm = 50 \<and> sm_max sm = 50)"
proof -
  let ?A = "v1_applier inmem_ApplyDamageNaive"
  let ?as = "[GoStart 0 100, GoStart 1 100, InApplier 1, InApplier 0, GoFinish 0 150, GoFinish 1 130]"
  have "case bench_run ?A ''boss'' 10 ?as (new_bench 2 (NewV1Naive NewBattleRepo)) of
      None \<Rightarrow> False | Some b \<Rightarrow> bn_wg b = 0 \<and> measured (bn_results b) = [50, 30]" by code_simp
  then obtain b where b: "bench_run ?A ''boss'' 10 ?as (new_bench 2 (NewV1Naive NewBattleRepo)) = Some b" "bn_wg b = 0"
      "measured (bn_results b) = [50, 30]" by (auto split: option.splits simp del: bench_run.simps)
  from bench_summary [OF v1.stable_applier_axioms _ b(1,2) b(3) [symmetric], of 90 160] b show ?thesis
    by (auto simp del: bench_run.simps)
qed

lemma summarise_counts: "summarise n e b = Some sm \<Longrightarrow> sm_ok sm = bn_ok b \<and> sm_fail sm = bn_fail b"
  by (auto simp: summarise_def add_latencies_def Let_def case_prod_unfold split: if_splits option.splits)

lemma bench_withE:
  assumes "bench_with A new repo D fl sc s = Return (sm, Some line)"
  obtains b st h s' where "0 \<le> fl_n fl"
    "bench_run A (fl_target fl) (fl_damage fl) (sc_steps sc) (new_bench (nat (fl_n fl)) (new s)) = Some b" "bn_wg b = 0"
    "sm_ok sm = bn_ok b" "sm_fail sm = bn_fail b" "run_late A (sc_late sc) (bn_applier b) = Some st"
    "mysql_hp_Get D (fl_target fl) (repo st) = (Inr h, s')" "line = hp_check fl sm (ph_HP h)"
proof -
  obtain p st h s' where run: "runBench A (fl_target fl) (fl_n fl) (fl_damage fl) (sc_start sc) (sc_steps sc) (sc_stop sc) (new s) = Return (sm, p)"
    and rest: "run_late A (sc_late sc) p = Some st" "mysql_hp_Get D (fl_target fl) (repo st) = (Inr h, s')" "line = hp_check fl sm (ph_HP h)"
    using assms by (auto simp: bench_with_def split: bench_outcome.splits prod.splits option.splits sum.splits)
  from run obtain b where "0 \<le> fl_n fl"
    "bench_run A (fl_target fl) (fl_damage fl) (sc_steps sc) (new_bench (nat (fl_n fl)) (new s)) = Some b" "bn_wg b = 0"
    "summarise (fl_n fl) (int64 (sc_stop sc - sc_start sc)) b = Some sm" "p = bn_applier b"
    by (auto simp: runBench_def split: if_splits option.splits)
  with rest summarise_counts that show thesis by metis
qed

text \<open>The printed numbers do not wrap.\<close>

lemma hp_check_exact:
  assumes "accounts exact h0 (fl_damage fl) n (sm_ok sm) h" "h0 = fl_hp fl" "in_int32 h0" "in_int32 h"
    and "0 \<le> sm_ok sm" "sm_ok sm \<le> int n" "n < 2 ^ 31"
  shows "hp_check fl sm h = \<lparr>hl_final = h, hl_expected = h0 - fl_damage fl * sm_ok sm, hl_delta = h - (h0 - fl_damage fl * sm_ok sm)\<rparr>"
proof -
  let ?x = "fl_damage fl * sm_ok sm"
  have x: "0 \<le> ?x \<and> ?x \<le> 100000 * 2147483648"
  proof (cases "damage_ok (fl_damage fl)")
    case True
    then have "0 \<le> fl_damage fl" "fl_damage fl \<le> 100000" by (auto simp: damage_ok_def battle_consts)
    moreover have "sm_ok sm \<le> 2147483648" using assms(6,7) by simp
    ultimately show ?thesis using assms(5) by (auto dest: mult_mono [of "fl_damage fl" 100000 "sm_ok sm"])
  next
    case False
    with assms(1) show ?thesis by (auto simp: accounts_def)
  qed
  then have 1: "int64 ?x = ?x" by (intro int64_small) auto
  have 2: "int64 (h0 - ?x) = h0 - ?x" using x assms(3) by (intro int64_small) (auto simp: in_int32_def)
  have 3: "int64 (h - (h0 - ?x)) = h - (h0 - ?x)" using x assms(3,4) by (intro int64_small) (auto simp: in_int32_def)
  show ?thesis using 1 2 3 assms(2) by (simp add: hp_check_def Let_def)
qed

lemma bench_line:
  assumes laws: "sql_laws coll ts D view pend" and A: "stable_applier A"
    and run: "bench_with A new repo D fl sc s = Return (sm, Some line)"
    and hp: "sql_hp coll (view s) (fl_target fl) = fl_hp fl" "in_int32 (fl_hp fl)" "fl_n fl < 2 ^ 31"
    and acc: "\<And>b st n. bench_run A (fl_target fl) (fl_damage fl) (sc_steps sc) (new_bench n (new s)) = Some b \<Longrightarrow> bn_wg b = 0 \<Longrightarrow>
      n < 2 ^ 31 \<Longrightarrow> run_late A (sc_late sc) (bn_applier b) = Some st \<Longrightarrow>
      accounts exact (sql_hp coll (view s) (fl_target fl)) (fl_damage fl) n (bn_ok b) (sql_hp coll (view (repo st)) (fl_target fl))"
  shows "accounts exact (fl_hp fl) (fl_damage fl) (nat (fl_n fl)) (sm_ok sm) (hl_final line)
    \<and> hl_expected line = fl_hp fl - fl_damage fl * sm_ok sm \<and> hl_delta line = hl_final line - hl_expected line
    \<and> sm_ok sm + sm_fail sm = fl_n fl"
  using run
proof (rule bench_withE)
  fix b st h s'
  assume n: "0 \<le> fl_n fl"
    and b: "bench_run A (fl_target fl) (fl_damage fl) (sc_steps sc) (new_bench (nat (fl_n fl)) (new s)) = Some b" "bn_wg b = 0"
    and sm: "sm_ok sm = bn_ok b" "sm_fail sm = bn_fail b" and late: "run_late A (sc_late sc) (bn_applier b) = Some st"
    and get: "mysql_hp_Get D (fl_target fl) (repo st) = (Inr h, s')" and line: "line = hp_check fl sm (ph_HP h)"
  have n31: "nat (fl_n fl) < 2 ^ 31" using hp(3) n by (simp add: nat_less_iff)
  note fin = stable_applier.bench_complete [OF A b n31]
  note got = mysql_hp_Get_ok [OF laws get]
  have ac: "accounts exact (fl_hp fl) (fl_damage fl) (nat (fl_n fl)) (sm_ok sm) (ph_HP h)"
    using acc [OF b n31 late] hp(1) got(1) sm(1) by simp
  have "0 \<le> sm_ok sm" "sm_ok sm \<le> int (nat (fl_n fl))" unfolding sm(1) fin(1) by (simp_all add: count_upto_le del: int_nat_eq)
  from hp_check_exact [OF ac refl hp(2) got(2) this n31] ac fin(2) sm n show ?thesis by (simp add: line)
qed

lemma map_outcome_Return: "map_bench_outcome Inr x = Return (Inr y) \<longleftrightarrow> x = Return y"
  by (cases x) auto


definition demo_flags :: bench_flags where
  "demo_flags = \<lparr>fl_dsn = ''dsn'', fl_impl = ''queue'', fl_target = ''boss'', fl_n = 2, fl_damage = 10, fl_hp = 100\<rparr>"

definition demo_schedule :: "action schedule" where
  "demo_schedule =
     \<lparr>sc_start = 0,
      sc_steps = [GoStart 0 1, InApplier (Send 0), GoStart 1 2, InApplier (Send 1), InApplier (AwaitTimeout 0), GoFinish 0 3,
        InApplier (Take ''boss''), InApplier (ApplyHit ''boss''), InApplier (Reply ''boss''),
        InApplier (Take ''boss''), InApplier (ApplyHit ''boss''), InApplier (Reply ''boss''), InApplier (Receive 1), GoFinish 1 4],
      sc_stop = 0, sc_late = []\<rparr>"


end
