(* ===== verification/Bots.thy ===== *)
theory Bots
  imports Room Go_World
begin

text \<open>
  \<open>cmd/bots\<close>: the load generator, a client of the WebSocket room. Every bot has one connection and sends moves of its
  own player at the coordinates of the chosen scenario. Dialling, the WebSocket client and \<open>proto.Marshal\<close> are
  parameters; the random source of a bot is an arbitrary stream, so what holds for every stream holds for the one
  that the seed selects. The events of a bot, ticks and the end of its context, come in any order.
\<close>

section \<open>Scenarios\<close>

text \<open>\<open>rand.Rand.Float64()\<close>: 53 random bits over \<open>2^53\<close>.\<close>

definition rand_Float64 :: "env \<Rightarrow> float64 \<times> env" where
  "rand_Float64 e = (Finite (int (env_rng e (env_pos e)) mod 2 ^ 53) (- 53), env_tick e)"

type_synonym scenario = "env \<Rightarrow> int \<Rightarrow> (float64 \<times> float64) \<times> env"

definition evenScenario :: scenario where
  "evenScenario rng tick =
     (let (a, rng) = rand_Float64 rng; (b, rng) = rand_Float64 rng
      in ((f64_sub (f64_mul a (Finite 1000 0)) (Finite 500 0), f64_sub (f64_mul b (Finite 1000 0)) (Finite 500 0)), rng))"

definition herdScenario :: scenario where
  "herdScenario rng tick =
     (let (a, rng) = rand_Float64 rng; (b, rng) = rand_Float64 rng
      in ((f64_sub (f64_mul a (Finite 40 0)) (Finite 20 0), f64_sub (f64_mul b (Finite 40 0)) (Finite 20 0)), rng))"

definition centers :: "(int \<times> int) list" where
  "centers = [(-300, -300), (300, -300), (0, 0), (-300, 300), (300, 300)]"

definition clusterScenario :: scenario where
  "clusterScenario rng tick =
     (let (i, rng) = rand_IntN (int (length centers)) rng; c = centers ! nat i;
          (a, rng) = rand_Float64 rng; (b, rng) = rand_Float64 rng
      in ((f64_add (Finite (fst c) 0) (f64_Round (f64_sub (f64_mul a (Finite 60 0)) (Finite 30 0))),
           f64_add (Finite (snd c) 0) (f64_Round (f64_sub (f64_mul b (Finite 60 0)) (Finite 30 0)))), rng))"

text \<open>\<open>quote\<close> is the verb \<open>%q\<close>.\<close>

definition parseScenario :: "(string \<Rightarrow> string) \<Rightarrow> string \<Rightarrow> scenario result" where
  "parseScenario quote s =
     (if s = ''even'' then Inr evenScenario
      else if s = ''herd'' then Inr herdScenario
      else if s = ''cluster'' then Inr clusterScenario
      else Inl (ErrorString (''unknown scenario '' @ quote s @ '' (want even|herd|cluster)'')))"

section \<open>One bot\<close>

datatype bot_event = BotTick "go_error option" | BotDone

text \<open>Where the loop stands when the events are over: still in the \<open>select\<close>, or returned.\<close>

datatype bot_exit = BotWaiting | BotReturned "unit result"

text \<open>The outcome of the write is part of the tick. The result holds the frames that were written.\<close>

fun bot_loop ::
  "(client_message \<Rightarrow> string result) \<Rightarrow> string \<Rightarrow> scenario \<Rightarrow> bot_event list \<Rightarrow> int \<Rightarrow> env \<Rightarrow> string list \<times> bot_exit" where
  "bot_loop marshal playerID scen [] step rng = ([], BotWaiting)"
| "bot_loop marshal playerID scen (BotDone # evs) step rng = ([], BotReturned (Inr ()))"
| "bot_loop marshal playerID scen (BotTick werr # evs) step rng =
     (let step = (step + 1) mod 2 ^ 64;
          ((x, y), rng) = scen rng step;
          msg = ClientMessage_Move \<lparr>mv_PlayerId = playerID, mv_X = x, mv_Y = y\<rparr>
      in case marshal msg of
           Inl err \<Rightarrow> ([], BotReturned (Inl (Wrap ''marshal'' err)))
         | Inr data \<Rightarrow>
             (case werr of
                Some err \<Rightarrow> ([], BotReturned (Inl (Wrap ''write'' err)))
              | None \<Rightarrow>
                  (let (frames, exit) = bot_loop marshal playerID scen evs step rng in (data # frames, exit))))"

definition runBot ::
  "(client_message \<Rightarrow> string result) \<Rightarrow> string \<Rightarrow> unit result \<Rightarrow> string \<Rightarrow> scenario \<Rightarrow> bot_event list \<Rightarrow> env \<Rightarrow>
     string list \<times> bot_exit" where
  "runBot marshal addr dialed playerID scen evs rng =
     (case dialed of
        Inl err \<Rightarrow> ([], BotReturned (Inl (Wrap (''dial '' @ addr) err)))
      | Inr _ \<Rightarrow> bot_loop marshal playerID scen evs 0 rng)"

section \<open>All bots\<close>

definition bot_id :: "nat \<Rightarrow> string" where
  "bot_id i = ''p'' @ itoa_nat i"

record bot_flags =
  bf_addr :: string
  bf_n :: int
  bf_scenario :: string
  bf_seed :: int

text \<open>
  What surrounds the bots: the clock for the seed, the source \<open>rand.New(rand.NewPCG(seed, i + 1))\<close>, and the outcome of
  dialling and the events of every bot.
\<close>

record bot_world =
  bw_now :: int
  bw_rng :: "int \<Rightarrow> nat \<Rightarrow> env"
  bw_dial :: "nat \<Rightarrow> unit result"
  bw_events :: "nat \<Rightarrow> bot_event list"

definition bots_run ::
  "(string \<Rightarrow> string) \<Rightarrow> (client_message \<Rightarrow> string result) \<Rightarrow> bot_flags \<Rightarrow> bot_world \<Rightarrow>
     (string list \<times> bot_exit) list result" where
  "bots_run quote marshal fl w =
     (if bf_n fl < 1 then Inl (ErrorString (''-n must be >= 1, got '' @ itoa_int (bf_n fl)))
      else case parseScenario quote (bf_scenario fl) of
             Inl err \<Rightarrow> Inl err
           | Inr scen \<Rightarrow>
               (let rngSeed = (if bf_seed fl = 0 then bw_now w else bf_seed fl)
                in Inr (map (\<lambda>i. runBot marshal (bf_addr fl) (bw_dial w i) (bot_id i) scen (bw_events w i)
                                  (bw_rng w (rngSeed mod 2 ^ 64) (i + 1)))
                          [0..<nat (bf_n fl)])))"

section \<open>Where the bots move\<close>

text \<open>\<open>rng.Float64() * 2h - h\<close> lies between \<open>-h\<close> and \<open>h\<close>.\<close>

lemma draw_within:
  assumes "0 \<le> h" "h < 2 ^ 52" "rand_Float64 e = (a, e')"
  shows "\<exists>q g. f64_sub (f64_mul a (Finite (2 * h) 0)) (Finite h 0) = Finite q g \<and> g \<le> 0 \<and>
    - h * 2 ^ nat (- g) \<le> q \<and> q \<le> h * 2 ^ nat (- g)"
proof -
  obtain k where a: "a = Finite k (- 53)" and k: "0 \<le> k" "k \<le> 2 ^ 53"
    using assms(3) by (auto simp: rand_Float64_def intro: less_imp_le)
  have "0 \<le> k * (2 * h)" "k * (2 * h) \<le> (2 * h) * 2 ^ 53"
    using k assms(1) mult_right_mono [of k "2 ^ 53" "2 * h"] by (simp_all add: mult.commute)
  then obtain q g where q: "f64_mul a (Finite (2 * h) 0) = Finite q g" "- 1074 \<le> g" "g \<le> 0" "0 \<le> q" "q \<le> (2 * h) * 2 ^ nat (- g)"
    using f64_round_within [of "- 53" 0 "k * (2 * h)" "2 * h"] assms(1,2) by (auto simp: a)
  have "f64_sub (Finite q g) (Finite h 0) = f64_round (q - h * 2 ^ nat (- g)) g"
    using q(3) by (simp add: f64_sub_def align_def min_def)
  moreover have "- h * 2 ^ nat (- g) \<le> q - h * 2 ^ nat (- g)" "q - h * 2 ^ nat (- g) \<le> h * 2 ^ nat (- g)"
    using q(4,5) by (simp_all add: algebra_simps)
  ultimately show ?thesis
    using f64_round_within [OF q(2,3), of "- h" "q - h * 2 ^ nat (- g)" h] assms(1,2) q(1) by auto
qed

lemma Round_within:
  assumes "g \<le> 0" "- h * 2 ^ nat (- g) \<le> q" "q \<le> h * 2 ^ nat (- g)"
  shows "\<exists>n. f64_Round (Finite q g) = Finite n 0 \<and> - h \<le> n \<and> n \<le> h"
proof (cases "g = 0")
  case True
  with assms show ?thesis by simp
next
  case False
  let ?d = "2 ^ nat (- g) :: int"
  let ?n = "(2 * \<bar>q\<bar> + ?d) div (2 * ?d)"
  have "0 \<le> ?n" by (simp add: pos_imp_zdiv_nonneg_iff)
  have "\<bar>q\<bar> \<le> h * ?d" using assms(2,3) by (simp add: abs_le_iff)
  then have "?n \<le> (2 * ?d * h + ?d) div (2 * ?d)" by (intro zdiv_mono1) (simp_all add: algebra_simps)
  also have "\<dots> = h" by (simp add: div_pos_pos_trivial)
  finally have "?n \<le> h" .
  with \<open>0 \<le> ?n\<close> False assms(1) show ?thesis by (auto simp: Let_def sgn_if)
qed

text \<open>The region of a scenario: an interval for both coordinates, or the surroundings of the centres.\<close>

definition near :: "int \<Rightarrow> int \<Rightarrow> int \<Rightarrow> float64 \<times> float64 \<Rightarrow> bool" where
  "near a b h xy \<longleftrightarrow> f64_within (a - h) (a + h) (fst xy) \<and> f64_within (b - h) (b + h) (snd xy)"

definition region :: "string \<Rightarrow> float64 \<times> float64 \<Rightarrow> bool" where
  "region s xy \<longleftrightarrow>
     (if s = ''even'' then near 0 0 500 xy
      else if s = ''herd'' then near 0 0 20 xy
      else list_ex (\<lambda>(a, b). near a b 30 xy) centers)"

lemma draw_interval:
  assumes "0 \<le> h" "h < 2 ^ 52" "rand_Float64 e = (a, e')"
  shows "f64_within (- h) h (f64_sub (f64_mul a (Finite (2 * h) 0)) (Finite h 0))"
  using draw_within [OF assms] by (auto simp: f64_within_Finite)

lemma draw_around:
  assumes "rand_Float64 e = (a, e')" "\<bar>c\<bar> \<le> 300"
  shows "f64_within (c - 30) (c + 30) (f64_add (Finite c 0) (f64_Round (f64_sub (f64_mul a (Finite 60 0)) (Finite 30 0))))"
proof -
  obtain q g where q: "f64_sub (f64_mul a (Finite 60 0)) (Finite 30 0) = Finite q g" "g \<le> 0"
      "- 30 * 2 ^ nat (- g) \<le> q" "q \<le> 30 * 2 ^ nat (- g)"
    using draw_within [of 30, OF _ _ assms(1)] by auto
  obtain n where n: "f64_Round (Finite q g) = Finite n 0" "- 30 \<le> n" "n \<le> 30" using Round_within [OF q(2-4)] by auto
  have "f64_add (Finite c 0) (Finite n 0) = Finite (c + n) 0" using n assms(2) by (intro f64_int_ops(1)) auto
  with n show ?thesis by (simp add: q(1) f64_within_Finite)
qed

lemma scenario_region:
  assumes "parseScenario quote s = Inr scen"
  shows "region s (fst (scen rng tick))"
proof -
  consider "s = ''even''" "scen = evenScenario" | "s = ''herd''" "scen = herdScenario" | "s = ''cluster''" "scen = clusterScenario"
    using assms by (auto simp: parseScenario_def split: if_splits)
  then show ?thesis
  proof cases
    case 1
    then show ?thesis
      using draw_interval [of 500] by (auto simp: region_def near_def evenScenario_def split: prod.splits)
  next
    case 2
    then show ?thesis
      using draw_interval [of 20] by (auto simp: region_def near_def herdScenario_def split: prod.splits)
  next
    case 3
    obtain i r where i: "rand_IntN (int (length centers)) rng = (i, r)" by (rule prod.exhaust)
    have "0 \<le> i" "i < int (length centers)"
      using rand_IntN_range [OF _ i] by (auto simp: centers_def)
    then have "centers ! nat i \<in> set centers" by (auto intro: nth_mem simp: nat_less_iff)
    moreover have "\<bar>a\<bar> \<le> 300 \<and> \<bar>b\<bar> \<le> 300" if "(a, b) \<in> set centers" for a b using that by (auto simp: centers_def)
    moreover obtain a b where ab: "centers ! nat i = (a, b)" by (rule prod.exhaust)
    ultimately have mem: "(a, b) \<in> set centers" "\<bar>a\<bar> \<le> 300" "\<bar>b\<bar> \<le> 300" by auto
    have "near a b 30 (fst (scen rng tick))"
      using draw_around [OF _ mem(2)] draw_around [OF _ mem(3)]
      by (auto simp: near_def clusterScenario_def 3 i ab Let_def split: prod.splits)
    with mem(1) 3 show ?thesis by (auto simp: region_def list_ex_iff intro!: bexI [of _ "(a, b)"])
  qed
qed

section \<open>What the bots send\<close>

lemma bot_loop_frames:
  assumes "parseScenario quote s = Inr scen" "d \<in> set (fst (bot_loop marshal p scen evs step rng))"
  shows "\<exists>x y. marshal (ClientMessage_Move \<lparr>mv_PlayerId = p, mv_X = x, mv_Y = y\<rparr>) = Inr d \<and> region s (x, y)"
  using assms(2)
proof (induction evs arbitrary: step rng)
  case (Cons ev evs)
  show ?case
  proof (cases ev)
    case (BotTick werr)
    define k where "k = (step + 1) mod (2 ^ 64 :: int)"
    obtain x y rng' where xy: "scen rng k = ((x, y), rng')" by (metis surj_pair)
    have reg: "region s (x, y)" using scenario_region [OF assms(1), of rng k] by (simp only: xy fst_conv)
    have "d \<in> set (fst (bot_loop marshal p scen (BotTick werr # evs) step rng))" using Cons.prems BotTick by simp
    then have "marshal (ClientMessage_Move \<lparr>mv_PlayerId = p, mv_X = x, mv_Y = y\<rparr>) = Inr d \<or>
        d \<in> set (fst (bot_loop marshal p scen evs k rng'))"
      unfolding bot_loop.simps k_def [symmetric] Let_def xy
      by (auto split: sum.splits option.splits prod.splits)
    with reg Cons.IH show ?thesis by blast
  next
    case BotDone
    with Cons.prems show ?thesis by simp
  qed
qed simp

text \<open>The events of the bots on the server: bot \<open>c\<close> has connection \<open>c\<close>, on which the frames arrive that it wrote.\<close>

definition from_bots :: "(string list \<times> bot_exit) list \<Rightarrow> nat \<Rightarrow> ws_event \<Rightarrow> bool" where
  "from_bots outs c e \<longleftrightarrow> c < length outs \<and>
     (\<forall>fr. e = Frame fr \<longrightarrow> (\<exists>d\<in>set (fst (outs ! c)). fr = BinaryFrame d))"

lemma bots_run_frames:
  assumes "bots_run quote marshal fl w = Inr outs" "c < length outs" "d \<in> set (fst (outs ! c))"
  shows "\<exists>x y. marshal (ClientMessage_Move \<lparr>mv_PlayerId = bot_id c, mv_X = x, mv_Y = y\<rparr>) = Inr d \<and> region (bf_scenario fl) (x, y)"
proof -
  obtain scen seed where scen: "parseScenario quote (bf_scenario fl) = Inr scen"
    and outs: "outs = map (\<lambda>i. runBot marshal (bf_addr fl) (bw_dial w i) (bot_id i) scen (bw_events w i) (bw_rng w seed (i + 1))) [0..<nat (bf_n fl)]"
    using assms(1) by (auto simp: bots_run_def Let_def split: if_splits sum.splits)
  with assms(2,3) show ?thesis
    by (auto simp: runBot_def split: sum.splits intro: bot_loop_frames [OF scen])
qed

lemma ws_reach_mono: "ws_reach u ok h st \<Longrightarrow> (\<And>c e. ok c e \<Longrightarrow> ok' c e) \<Longrightarrow> ws_reach u ok' h st"
  by (induction rule: ws_reach.induct) (auto intro: ws_reach.intros)

lemma ws_reach_events: "ws_reach u ok h st \<Longrightarrow> (c, e) \<in> set h \<Longrightarrow> ok c e"
  by (induction rule: ws_reach.induct) auto

lemma ws_reach_conns: "ws_reach u ok h st \<Longrightarrow> ws_conns st c \<noteq> None \<Longrightarrow> \<exists>e. (c, e) \<in> set h"
proof (induction rule: ws_reach.induct)
  case start
  then show ?case by (simp add: ws_init_def)
next
  case (step h st c' e st')
  then show ?case by (cases e) (auto split: if_splits option.splits prod.splits)
qed

lemma bot_id_inj: "inj bot_id"
  by (auto simp: inj_def bot_id_def itoa_nat_inj)

text \<open>Every move that the server decodes from a bot is one of that bot, inside of the region.\<close>

lemma bot_move:
  assumes run: "bots_run quote marshal fl w = Inr outs" and proto: "\<forall>m d. marshal m = Inr d \<longrightarrow> unmarshal d = Some m"
    and e: "from_bots outs c e" "move_of unmarshal e = Some m"
  shows "mv_PlayerId m = bot_id c" "region (bf_scenario fl) (mv_X m, mv_Y m)"
proof -
  obtain fr where fr: "e = Frame fr" using e(2) by (cases e) auto
  with e(1) obtain d where d: "d \<in> set (fst (outs ! c))" "e = Frame (BinaryFrame d)" "c < length outs"
    by (auto simp: from_bots_def)
  from bots_run_frames [OF run d(3,1)] obtain x y
    where xy: "marshal (ClientMessage_Move \<lparr>mv_PlayerId = bot_id c, mv_X = x, mv_Y = y\<rparr>) = Inr d" "region (bf_scenario fl) (x, y)" by blast
  with proto have "unmarshal d = Some (ClientMessage_Move \<lparr>mv_PlayerId = bot_id c, mv_X = x, mv_Y = y\<rparr>)" by blast
  with e(2) d(2) xy(2) show "mv_PlayerId m = bot_id c" "region (bf_scenario fl) (mv_X m, mv_Y m)" by auto
qed

section \<open>Properties\<close>

text \<open>
  C35: the bots in the room. For a decoder that returns the message that was encoded, and whatever the random sources,
  ticks, failed writes and broken connections do, in every interleaving of the bots' connections: the members of the
  room are exactly the bots that are connected and have moved, each under its own name, there are at most \<open>-n\<close> of
  them, and every one stands in the region of the scenario: within 500 of the origin for \<open>even\<close>, within 20 for
  \<open>herd\<close>, within 30 of one of the five centres for \<open>cluster\<close>.
\<close>

theorem bots_populate_room:
  assumes "bots_run quote marshal fl w = Inr outs" "\<forall>m d. marshal m = Inr d \<longrightarrow> unmarshal d = Some m"
    and "ws_reach unmarshal (from_bots outs) h st"
  shows "dom (map_of (rm_members (ws_room st))) = bot_id ` {c. ws_conns st c = Some (bot_id c)}
    \<and> (\<forall>p mb. map_of (rm_members (ws_room st)) p = Some mb \<longrightarrow> region (bf_scenario fl) (mb_X mb, mb_Y mb))
    \<and> Room_Size (ws_room st) = int (card {c. ws_conns st c = Some (bot_id c)})
    \<and> Room_Size (ws_room st) \<le> bf_n fl"
proof -
  have sticks: "ws_reach unmarshal (sticks_to unmarshal bot_id) h st"
    using assms(3) by (rule ws_reach_mono) (auto simp: sticks_to_def split: option.splits dest: bot_move(1) [OF assms(1,2)])
  have inv: "tracks unmarshal bot_id h st"
    by (rule tracks_reach [OF sticks bot_id_inj]) (simp add: bot_id_def)
  note room = room_of_tracks [OF inv bot_id_inj]
  have moved: "region (bf_scenario fl) (mv_X m, mv_Y m)" if m: "m \<in> set (moves unmarshal c h)" for c m
  proof -
    from m obtain e where "(c, e) \<in> set h" "move_of unmarshal e = Some m"
      by (auto simp: moves_def map_filter_def split: if_splits)
    with ws_reach_events [OF assms(3)] bot_move(2) [OF assms(1,2)] show ?thesis by blast
  qed
  have in_region: "region (bf_scenario fl) (mb_X mb, mb_Y mb)" if "map_of (rm_members (ws_room st)) p = Some mb" for p mb
  proof -
    from that obtain c where c: "p = bot_id c" "ws_conns st c = Some (bot_id c)" using inv unfolding tracks_def by blast
    with inv have "moves unmarshal c h \<noteq> []"
      "map_of (rm_members (ws_room st)) p =
        Some \<lparr>mb_PlayerID = bot_id c, mb_X = mv_X (last (moves unmarshal c h)), mb_Y = mv_Y (last (moves unmarshal c h))\<rparr>"
      unfolding tracks_def by blast+
    with that moved [of "last (moves unmarshal c h)" c] show ?thesis by auto
  qed
  have len: "int (length outs) = bf_n fl"
    using assms(1) by (auto simp: bots_run_def Let_def split: if_splits sum.splits)
  have "{c. ws_conns st c = Some (bot_id c)} \<subseteq> {..<length outs}"
    using ws_reach_conns [OF assms(3)] ws_reach_events [OF assms(3)] by (fastforce simp: from_bots_def)
  from card_mono [OF _ this] len have "int (card {c. ws_conns st c = Some (bot_id c)}) \<le> bf_n fl" by simp
  with room in_region show ?thesis by simp
qed

definition demo_env :: env where
  "demo_env = \<lparr>env_rng = (\<lambda>_. 0), env_uuid = (\<lambda>_. Inr ''''), env_clock = (\<lambda>_. 0), env_pos = 0\<rparr>"

definition demo_world :: bot_world where
  "demo_world = \<lparr>bw_now = 1, bw_rng = (\<lambda>_ _. demo_env), bw_dial = (\<lambda>_. Inr ()), bw_events = (\<lambda>_. [BotTick None])\<rparr>"

definition demo_bots :: bot_flags where
  "demo_bots = \<lparr>bf_addr = ''ws://h'', bf_n = 1, bf_scenario = ''herd'', bf_seed = 7\<rparr>"

text \<open>The message of the first bot, and a codec for it.\<close>

definition demo_message :: client_message where
  "demo_message = (let (x, y) = fst (herdScenario demo_env 1)
     in ClientMessage_Move \<lparr>mv_PlayerId = bot_id 0, mv_X = x, mv_Y = y\<rparr>)"

definition demo_marshal :: "client_message \<Rightarrow> string result" where
  "demo_marshal m = (if m = demo_message then Inr ''m'' else Inl (ErrorString ''codec''))"

theorem bots_populate_room_witness:
  "\<exists>outs st. bots_run id demo_marshal demo_bots demo_world = Inr outs
    \<and> ws_reach (\<lambda>_. Some demo_message) (from_bots outs) [(0, Connect), (0, Frame (BinaryFrame ''m''))] st
    \<and> Room_Size (ws_room st) = 1
    \<and> (\<exists>mb. map_of (rm_members (ws_room st)) ''p0'' = Some mb \<and> region ''herd'' (mb_X mb, mb_Y mb))"
proof -
  let ?u = "\<lambda>_ :: string. Some demo_message"
  let ?outs = "[([''m''], BotWaiting)]"
  have run: "bots_run id demo_marshal demo_bots demo_world = Inr ?outs"
    by (simp add: bots_run_def demo_bots_def demo_world_def parseScenario_def runBot_def demo_marshal_def demo_message_def
        Let_def split: prod.splits)
  have proto: "\<forall>m d. demo_marshal m = Inr d \<longrightarrow> ?u d = Some m" by (simp add: demo_marshal_def)
  have id: "bot_id 0 = ''p0''" by code_simp
  obtain x y where msg: "demo_message = ClientMessage_Move \<lparr>mv_PlayerId = ''p0'', mv_X = x, mv_Y = y\<rparr>"
    unfolding demo_message_def id by (metis (no_types, lifting) case_prod_beta)
  let ?s1 = "\<lparr>ws_room = NewRoom, ws_conns = (\<lambda>_. None)(0 \<mapsto> '''')\<rparr>"
  let ?s2 = "\<lparr>ws_room = ApplyMove \<lparr>mv_PlayerId = ''p0'', mv_X = x, mv_Y = y\<rparr> NewRoom, ws_conns = (\<lambda>_. None)(0 \<mapsto> ''p0'')\<rparr>"
  have "ws_reach ?u (from_bots ?outs) ([] @ [(0, Connect)]) ?s1"
    by (rule ws_reach.step [OF ws_reach.start]) (simp_all add: from_bots_def ws_init_def)
  then have reach: "ws_reach ?u (from_bots ?outs) (([] @ [(0, Connect)]) @ [(0, Frame (BinaryFrame ''m''))]) ?s2"
    by (rule ws_reach.step) (simp_all add: from_bots_def ws_frame_step_def msg)
  have conn: "{c. ws_conns ?s2 c = Some (bot_id c)} = {0}" using id by (auto split: if_splits)
  from bots_populate_room [OF run proto reach] conn
  have size: "Room_Size (ws_room ?s2) = 1" and dom: "dom (map_of (rm_members (ws_room ?s2))) = {''p0''}"
    and reg: "\<forall>p mb. map_of (rm_members (ws_room ?s2)) p = Some mb \<longrightarrow> region ''herd'' (mb_X mb, mb_Y mb)"
    using id by (simp_all add: demo_bots_def)
  from dom obtain mb where "map_of (rm_members (ws_room ?s2)) ''p0'' = Some mb" by blast
  with reg have "\<exists>mb. map_of (rm_members (ws_room ?s2)) ''p0'' = Some mb \<and> region ''herd'' (mb_X mb, mb_Y mb)" by blast
  with run reach size show ?thesis by (intro exI [of _ ?outs] exI [of _ ?s2]) simp
qed

end
