(* ===== verification/Spec2Isabelle.thy ===== *)
theory Spec2Isabelle
  imports Isolation Process Observability Aoi Redis_Leaderboard Idempotency_Redis Mysql_Gacha Mysql_Rewards Mysql_Profile Battle_Bench Bots
begin

text \<open>
  StageSync: a verification library for the game server under \<open>src/\<close>.

  \<^bold>\<open>The program.\<close> \<open>cmd/server/main.go\<close> loads its settings (\<open>internal/config\<close>), opens the stores and mounts HTTP
  handlers (\<open>internal/endpoint\<close>) behind middleware: request metrics, rate limiting (\<open>internal/ratelimit\<close>), idempotency
  keys (\<open>internal/idempotency\<close>) and, for the gacha routes, token authentication (\<open>internal/auth\<close>). The handlers call
  services (\<open>internal/service\<close>: gacha, profile, ranking, event, battle, area of interest) over repositories
  (\<open>internal/persistence\<close>: in memory, MySQL, Redis). A WebSocket endpoint feeds the shared room (\<open>internal/room\<close>).
  Two client programs come with it: a load generator for the room (\<open>cmd/bots\<close>) and a benchmark of the damage
  implementations (\<open>cmd/battlebench\<close>).

  \<^bold>\<open>How it is modelled.\<close> Go values are HOL values: a struct is a record, \<open>int\<close>, \<open>int64\<close> and \<open>int32\<close> are integers with
  the wrap-around written out (\<open>int64\<close>, \<open>int32\<close>), \<open>float64\<close> is binary64 with rounding, a map is an association list in
  an arbitrary order, \<open>error\<close> is the datatype \<open>go_error\<close>, and a fallible call returns \<open>go_error + 'a\<close>. A method that
  changes state is a function that returns the new state; a critical section under a mutex is one step. Random
  numbers, UUIDs and clock readings come from arbitrary streams (\<open>env\<close>), so a theorem holds for every behaviour of
  these sources, a clock that jumps included. Third-party code is an argument: the JWT, rate, validation and protobuf
  libraries, the Redis client, the SQL database. What is relied on of it is a named hypothesis (\<open>zset_laws\<close>,
  \<open>kv_laws\<close>, \<open>sql_laws\<close> and the laws of the token and rate libraries), and each has a concrete instance that the
  witnesses run. Every definition is executable, apart from these predicates. All loops are structural recursion, so
  no fuel is used; the read loop of a WebSocket connection is a fold over the frames that arrive before it ends.

  \<^bold>\<open>Theories, in the order of their imports.\<close>
  \<^item> \<open>Go_Prelude\<close>, \<open>Go_Float\<close>, \<open>Go_World\<close>: wrap-around, errors, maps, sorting (the locale \<open>strict_weak_less\<close>), string
    functions; floating point; the environment and the fields of a state (\<open>state_field\<close>, \<open>two_fields\<close>).
  \<^item> \<open>Auth\<close>, \<open>Go_Http\<close>, \<open>Apperror\<close>, \<open>Auth_Endpoint\<close>: tokens, the response writer and JSON decoding, error responses, login and
    \<open>RequireAuth\<close>. A token opens the protected routes exactly during its lifetime; causes of errors never leak.
  \<^item> \<open>Gacha_Domain\<close>, \<open>Gacha_Service\<close>, \<open>Gacha_Endpoint\<close>: the weighted choice has the exact distribution, the pity counter
    is the number of rolls since the last SSR and stays below the threshold, \<open>Roll\<close> is all or nothing. The locale
    \<open>gacha_store\<close> is the \<open>Repository\<close> interface; both repositories are instances.
  \<^item> \<open>Profile\<close>, \<open>Ranking\<close>, \<open>Ranking_Endpoint\<close>, \<open>Event\<close>, \<open>Event_Endpoint\<close>: life cycle of profiles; the leaderboard computes the
    unique ranking of the accumulated scores (\<open>is_ranking\<close>, locales \<open>ranking_view\<close> and \<open>ranking_contract\<close>); stored points
    and leaderboard agree after any sequence of calls (locale \<open>event_store\<close>).
  \<^item> \<open>Battle\<close>, \<open>Battle_Queue\<close>: damage (locale \<open>damage_store\<close>, the contract of a repository of hit points, kept by the in-memory
    and the MySQL repository), and the queueing applier as a state machine of callers, channels and workers, with
    invariants over all interleavings and a measure that bounds the steps of a worker.
  \<^item> \<open>Idempotency\<close>, \<open>Idempotency_Redis\<close>, \<open>Ratelimit\<close>: replay of recorded responses; the limiter behaves like one token bucket
    per identity.
  \<^item> \<open>Aoi\<close>, \<open>Room\<close>, \<open>Lifecycle\<close>, \<open>Config\<close>: the pooled filter equals the simple one; the room tracks the connections in every
    interleaving; health, switches and metrics; settings.
  \<^item> \<open>Frame\<close>, \<open>Server\<close>: the wiring of \<open>main.go\<close>, with theorems about whole requests: GET requests are safe, protected routes need a
    token, and what the order of the middleware lets through.
  \<^item> \<open>Isolation\<close>: every route writes at most the store of its own component, so the readiness probe answers by the signal alone.
  \<^item> \<open>Process\<close>: \<open>main\<close> and \<open>run\<close> with their deferred calls, opening and migrating MySQL: what the process holds while it serves, and
    that every exit releases each thing once. \<open>Observability\<close>: the access log and the Prometheus registry; every request is
    observed once in each, with one status.
  \<^item> \<open>Redis_Leaderboard\<close>: the leaderboard on sorted sets answers like the one in memory while scores stay below \<open>2^53\<close>.
  \<^item> \<open>Sql\<close>, \<open>Mysql_Queries\<close>, \<open>Mysql_Repos\<close>, \<open>Mysql_Gacha\<close>, \<open>Mysql_Battle\<close>, \<open>Mysql_Event\<close>, \<open>Mysql_Rewards\<close>, \<open>Mysql_Profile\<close>:
    \<open>database/sql\<close>, the statements of the program as syntax trees, the schema, the laws of the database; the generated
    queries and the four repositories; the transactions are all or nothing, the pity guarantee holds on MySQL under any
    failures, damage on MySQL refines the in-memory repository, directly and behind the queue, event scores add up
    whatever fails, and a created profile, event and its reward tiers stay as they were created.
  \<^item> \<open>Battle_Bench\<close>, \<open>Bots\<close>: the benchmark, with its goroutines over either applier (locale \<open>stable_applier\<close>): the summary is
    right and what its consistency line shows; the load generator: where its bots move and what the room holds then.

  \<^bold>\<open>Bounds.\<close> Windows of a ranking are proved for at most \<open>2^62\<close> players (indices do not wrap), Redis for sums of absolute
  increments below \<open>2^53\<close> (doubles are exact), the area filter for whole coordinates below \<open>2^25\<close>. The theorems about MySQL
  assume identifiers that the collation of the tables tells apart, and that a commit that reports an error had no effect.
  A repository call on MySQL is one step; row locks and isolation of concurrent transactions are not modelled. The
  benchmark is proved for fewer than \<open>2^31\<close> goroutines (its counters are \<open>int32\<close>) on a database nobody else uses.

  \<^bold>\<open>Not modelled.\<close> The encoding of log lines and of the Prometheus exposition, the lines of single services, pprof, chi's
  route matching (the matched pattern is an argument) and its middleware for request ids, panics and timeouts,
  contexts other than their end in the queueing applier, and the layout of the text that the client programs print. Drivers,
  goose, the listener and the signals are arguments with any answers. The generated protobuf code is reflection tables
  for its runtime library; the decoder is an argument of the room.
\<close>

end
